(* ===== verification/Omaha_Prelude.thy ===== *)
theory Omaha_Prelude
  imports Main "HOL-Library.Word" "HOL-Library.Char_ord" "HOL-Library.List_Lexorder"
begin

text \<open>
  What every component of the client shares.

  \<^item> HRESULT values as 32-bit words, with the two macros that build the codes of
    \<open>base/error.h\<close> and the two tests \<open>SUCCEEDED\<close> and \<open>FAILED\<close> of the platform headers.
  \<^item> The part of ATL's \<open>CString\<close> that the modelled code calls. A string is a list of
    8-bit code units, and case conversion is that of the C locale, which the program never
    changes: it moves the letters A to Z only. A result of -1 of \<open>Find\<close> is \<open>None\<close>.
  \<^item> \<open>std::map\<close> as an association list in ascending key order, since the code iterates
    over its maps. The contract of the container is the locale \<open>ordered_map\<close>.
  \<^item> The locale \<open>invariant_machine\<close>: an invariant that every legal operation keeps is kept by every
    sequence of legal operations. Each state machine of the client interprets it.

  ASSERT1 and VERIFY1 do nothing in the shipped build and have no counterpart in the model;
  neither has logging.
\<close>

named_theorems cstr_simps "how the CString operations act on concatenations and at the ends"
named_theorems map_laws "the laws of the ordered association lists"

section \<open>HRESULT\<close>

type_synonym hresult = "32 word"

definition SUCCEEDED :: "hresult \<Rightarrow> bool" where
  "SUCCEEDED hr \<longleftrightarrow> 0 \<le> sint hr"

definition FAILED :: "hresult \<Rightarrow> bool" where
  "FAILED hr \<longleftrightarrow> sint hr < 0"

lemma FAILED_iff [simp]: "FAILED hr \<longleftrightarrow> \<not> SUCCEEDED hr"
  by (auto simp: FAILED_def SUCCEEDED_def)

text \<open>\<open>MAKE_HRESULT(SEVERITY_ERROR, FACILITY_ITF, code)\<close> and
  \<open>MAKE_OMAHA_HRESULT(SEVERITY_ERROR, code)\<close> (customer bit, facility 67).\<close>

definition itf_error :: "32 word \<Rightarrow> hresult" where
  "itf_error code = 0x80040000 + code"

definition omaha_error :: "32 word \<Rightarrow> hresult" where
  "omaha_error code = 0xA0430000 + code"

definition win32_error :: "32 word \<Rightarrow> hresult" where
  "win32_error code = 0x80070000 + code"

lemmas hresult_defs = itf_error_def omaha_error_def win32_error_def

abbreviation S_OK :: hresult where "S_OK \<equiv> 0"
abbreviation S_FALSE :: hresult where "S_FALSE \<equiv> 1"
abbreviation E_FAIL :: hresult where "E_FAIL \<equiv> 0x80004005"
abbreviation E_INVALIDARG :: hresult where "E_INVALIDARG \<equiv> 0x80070057"
abbreviation E_UNEXPECTED :: hresult where "E_UNEXPECTED \<equiv> 0x8000FFFF"
abbreviation E_POINTER :: hresult where "E_POINTER \<equiv> 0x80004003"

lemma SUCCEEDED_S_OK [simp]: "SUCCEEDED 0"
  by (simp add: SUCCEEDED_def)

lemma SUCCEEDED_S_FALSE [simp]: "SUCCEEDED 1"
  by (simp add: SUCCEEDED_def)

lemma SUCCEEDED_numeral [simp]:
  "SUCCEEDED (numeral n) \<longleftrightarrow> 0 \<le> sint (numeral n :: 32 word)"
  by (simp add: SUCCEEDED_def)

lemma sint_small:
  fixes w :: "32 word"
  assumes "unat w < 2 ^ 31"
  shows "sint w = int (unat w)"
proof -
  have "int (unat w) < int (2 ^ 31)" using assms by (rule of_nat_less_iff [THEN iffD2])
  moreover have "- 2147483648 \<le> uint w" using uint_ge_0 [of w] by linarith
  ultimately show ?thesis
    using signed_take_bit_int_eq_self [of 31 "uint w"] by (simp add: sint_uint)
qed

lemma sint_word_of_int:
  "- (2 ^ 31) \<le> d \<Longrightarrow> d < 2 ^ 31 \<Longrightarrow> sint (word_of_int d :: 32 word) = d"
  by (simp add: sint_sbintrunc' signed_take_bit_int_eq_self)

section \<open>CString\<close>

abbreviation IsEmpty :: "string \<Rightarrow> bool" where
  "IsEmpty s \<equiv> s = []"

definition Left_n :: "string \<Rightarrow> nat \<Rightarrow> string" where
  "Left_n s n = take n s"

definition Right_n :: "string \<Rightarrow> nat \<Rightarrow> string" where
  "Right_n s n = drop (length s - n) s"

definition Mid_n :: "string \<Rightarrow> nat \<Rightarrow> nat \<Rightarrow> string" where
  "Mid_n s first n = take n (drop first s)"

fun Find_char :: "char \<Rightarrow> string \<Rightarrow> nat option" where
  "Find_char c [] = None"
| "Find_char c (x # xs) = (if x = c then Some 0 else map_option Suc (Find_char c xs))"

fun Find_str :: "string \<Rightarrow> string \<Rightarrow> nat option" where
  "Find_str pat [] = (if pat = [] then Some 0 else None)"
| "Find_str pat (x # xs) =
     (if take (length pat) (x # xs) = pat then Some 0 else map_option Suc (Find_str pat xs))"

definition TrimLeft :: "string \<Rightarrow> string \<Rightarrow> string" where
  "TrimLeft chars s = dropWhile (\<lambda>c. c \<in> set chars) s"

definition TrimRight :: "string \<Rightarrow> string \<Rightarrow> string" where
  "TrimRight chars s = rev (TrimLeft chars (rev s))"

definition Trim :: "string \<Rightarrow> string \<Rightarrow> string" where
  "Trim chars s = TrimRight chars (TrimLeft chars s)"

definition lower_char :: "char \<Rightarrow> char" where
  "lower_char c =
     (let n = of_char c :: nat in if 65 \<le> n \<and> n \<le> 90 then char_of (n + 32) else c)"

definition MakeLower :: "string \<Rightarrow> string" where
  "MakeLower s = map lower_char s"

text \<open>\<open>CompareNoCase(a, b) == 0\<close>.\<close>

definition EqualNoCase :: "string \<Rightarrow> string \<Rightarrow> bool" where
  "EqualNoCase a b \<longleftrightarrow> MakeLower a = MakeLower b"

text \<open>\<open>Tokenize(delims, pos)\<close>: the token and the position after the delimiter that ends it.
  \<open>None\<close> is the empty token with position -1, which ends the iteration.\<close>

definition Tokenize :: "string \<Rightarrow> string \<Rightarrow> nat \<Rightarrow> (string \<times> nat) option" where
  "Tokenize s delims pos =
     (let place = drop pos s;
          start = dropWhile (\<lambda>c. c \<in> set delims) place;
          tok = takeWhile (\<lambda>c. c \<notin> set delims) start
      in if start = [] then None
         else Some (tok, pos + (length place - length start) + length tok + 1))"

lemma Tokenize_advances: "Tokenize s delims pos = Some (tok, pos') \<Longrightarrow> pos < pos' \<and> pos < length s"
  by (auto simp: Tokenize_def Let_def split: if_splits) (metis drop_all empty_iff list.set(1) not_less)

text \<open>The tokens that a loop over \<open>Tokenize\<close> sees from a position on, and the same list
  computed on the suffix that starts there.\<close>

function Tokens_from :: "string \<Rightarrow> string \<Rightarrow> nat \<Rightarrow> string list" where
  "Tokens_from s delims pos =
     (case Tokenize s delims pos of
        None \<Rightarrow> []
      | Some (tok, pos') \<Rightarrow> tok # Tokens_from s delims pos')"
  by pat_completeness auto

termination Tokens_from
  by (relation "measure (\<lambda>(s, d, pos). length s - pos)")
     (auto dest!: Tokenize_advances)

declare Tokens_from.simps [simp del]

abbreviation Tokens :: "string \<Rightarrow> string \<Rightarrow> string list" where
  "Tokens s delims \<equiv> Tokens_from s delims 0"

section \<open>Decimal numbers\<close>

definition digit_char :: "nat \<Rightarrow> char" where
  "digit_char d = char_of (48 + d)"

definition is_digit :: "char \<Rightarrow> bool" where
  "is_digit c \<longleftrightarrow> 48 \<le> (of_char c :: nat) \<and> (of_char c :: nat) \<le> 57"

definition digit_value :: "char \<Rightarrow> nat" where
  "digit_value c = of_char c - 48"

text \<open>\<open>%u\<close> and \<open>%Iu\<close>.\<close>

fun decimal :: "nat \<Rightarrow> string" where
  "decimal n = (if n < 10 then [digit_char n] else decimal (n div 10) @ [digit_char (n mod 10)])"

declare decimal.simps [simp del]

definition digits_value :: "string \<Rightarrow> nat" where
  "digits_value s = foldl (\<lambda>n c. 10 * n + digit_value c) 0 s"

text \<open>\<open>isspace\<close> of the C locale, and \<open>strtol(s, &end, 10)\<close> for a 32-bit \<open>long\<close>: the value, the
  suffix \<open>end\<close> points to, and whether \<open>errno\<close> is set to ERANGE. Without a digit nothing is
  converted and \<open>end\<close> is the whole string.\<close>

definition is_space :: "char \<Rightarrow> bool" where
  "is_space c \<longleftrightarrow> (of_char c :: nat) = 32 \<or> 9 \<le> (of_char c :: nat) \<and> (of_char c :: nat) \<le> 13"

definition strtol10 :: "string \<Rightarrow> int \<times> string \<times> bool" where
  "strtol10 s =
     (let t = dropWhile is_space s;
          neg = (t \<noteq> [] \<and> hd t = CHR ''-'');
          u = (if t \<noteq> [] \<and> (hd t = CHR ''-'' \<or> hd t = CHR ''+'') then tl t else t);
          ds = takeWhile is_digit u;
          v = (if neg then - int (digits_value ds) else int (digits_value ds))
      in if ds = [] then (0, s, False)
         else if v < - (2 ^ 31) then (- (2 ^ 31), dropWhile is_digit u, True)
         else if 2 ^ 31 \<le> v then (2 ^ 31 - 1, dropWhile is_digit u, True)
         else (v, dropWhile is_digit u, False))"

section \<open>Facts about strings\<close>

lemma lower_char_idem [simp]: "lower_char (lower_char c) = lower_char c"
  by (auto simp: lower_char_def Let_def)

lemma MakeLower_idem [simp]: "MakeLower (MakeLower s) = MakeLower s"
  by (simp add: MakeLower_def)

lemma MakeLower_append [cstr_simps]: "MakeLower (s @ t) = MakeLower s @ MakeLower t"
  by (simp add: MakeLower_def)

lemma EqualNoCase_refl [simp]: "EqualNoCase s s"
  by (simp add: EqualNoCase_def)

lemma Find_char_None [cstr_simps]: "Find_char c s = None \<longleftrightarrow> c \<notin> set s"
  by (induction s) auto

lemma Find_char_Some [cstr_simps]:
  "Find_char c s = Some i \<longleftrightarrow> i < length s \<and> s ! i = c \<and> c \<notin> set (take i s)"
proof (induction s arbitrary: i)
  case (Cons x xs)
  then show ?case by (cases i) auto
qed simp

lemma Find_char_append:
  "c \<notin> set s \<Longrightarrow> Find_char c (s @ c # t) = Some (length s)"
  by (induction s) auto

lemma TrimLeft_nop: "s = [] \<or> hd s \<notin> set chars \<Longrightarrow> TrimLeft chars s = s"
  by (cases s) (auto simp: TrimLeft_def)

lemma Trim_nop:
  assumes "s = [] \<or> hd s \<notin> set chars \<and> last s \<notin> set chars"
  shows "Trim chars s = s"
  using assms by (auto simp: Trim_def TrimRight_def TrimLeft_nop hd_rev)

lemma Tokenize_shift:
  "Tokenize (u @ s) delims (length u + pos) = map_option (\<lambda>(t, p). (t, length u + p)) (Tokenize s delims pos)"
  by (simp add: Tokenize_def Let_def)

lemma Tokens_from_shift: "Tokens_from (u @ s) delims (length u + pos) = Tokens_from s delims pos"
proof (induction s delims pos rule: Tokens_from.induct)
  case (1 s delims pos)
  show ?case
    using 1 by (subst (1 2) Tokens_from.simps) (auto simp: Tokenize_shift split: option.split)
qed

lemma Tokens_from_drop: "pos \<le> length s \<Longrightarrow> Tokens_from s delims pos = Tokens (drop pos s) delims"
  using Tokens_from_shift [of "take pos s" "drop pos s" delims 0] by (simp add: min_absorb2)

lemma Tokens_token: "t \<in> set (Tokens_from s delims pos) \<Longrightarrow> t \<noteq> [] \<and> set t \<inter> set delims = {}"
proof (induction s delims pos rule: Tokens_from.induct)
  case (1 s delims pos)
  show ?case
  proof (cases "Tokenize s delims pos")
    case None
    with 1 show ?thesis by (simp add: Tokens_from.simps [of s delims pos])
  next
    case (Some r)
    then obtain tok pos' where r: "Tokenize s delims pos = Some (tok, pos')" by (cases r) auto
    define q where "q = dropWhile (\<lambda>c. c \<in> set delims) (drop pos s)"
    from r have q: "q \<noteq> []" "tok = takeWhile (\<lambda>c. c \<notin> set delims) q"
      by (auto simp: Tokenize_def Let_def q_def split: if_splits)
    have "hd q \<notin> set delims"
      using q hd_dropWhile [of "\<lambda>c. c \<in> set delims"] by (simp add: q_def)
    then have "tok \<noteq> [] \<and> set tok \<inter> set delims = {}"
      using q by (cases q) (auto dest: set_takeWhileD)
    moreover have "t = tok \<or> t \<in> set (Tokens_from s delims pos')"
      using 1(2) r by (simp add: Tokens_from.simps [of s delims pos])
    ultimately show ?thesis using 1(1) [OF r refl] by blast
  qed
qed

lemma Tokens_empty [simp]: "Tokens [] delims = []"
  by (simp add: Tokens_from.simps Tokenize_def)

lemma Tokenize_last:
  assumes "s \<noteq> []" "set s \<inter> set delims = {}"
  shows "Tokenize s delims 0 = Some (s, Suc (length s))"
proof -
  have "dropWhile (\<lambda>c. c \<in> set delims) s = s" "takeWhile (\<lambda>c. c \<notin> set delims) s = s"
    using assms by (cases s; auto)+
  then show ?thesis
    using assms by (simp add: Tokenize_def Let_def del: takeWhile_eq_all_conv dropWhile_eq_Nil_conv)
qed

lemma Tokenize_cons:
  assumes "t \<noteq> []" "set t \<inter> set delims = {}" "d \<in> set delims"
  shows "Tokenize (t @ d # s) delims 0 = Some (t, Suc (length t))"
proof -
  have "dropWhile (\<lambda>c. c \<in> set delims) (t @ d # s) = t @ d # s"
    using assms by (cases t) auto
  moreover have "takeWhile (\<lambda>c. c \<notin> set delims) (t @ d # s) = t"
    using assms by (auto intro!: trans [OF takeWhile_append2])
  ultimately show ?thesis
    using assms by (simp add: Tokenize_def Let_def del: dropWhile_eq_Nil_conv)
qed

lemma Tokens_last: "s \<noteq> [] \<Longrightarrow> set s \<inter> set delims = {} \<Longrightarrow> Tokens s delims = [s]"
  using Tokenize_last [of s delims]
  by (simp add: Tokens_from.simps [of s delims 0] Tokens_from.simps [of s delims "Suc (length s)"]
      Tokenize_def [of s delims "Suc (length s)"])

lemma Tokens_cons:
  "t \<noteq> [] \<Longrightarrow> set t \<inter> set delims = {} \<Longrightarrow> d \<in> set delims \<Longrightarrow>
     Tokens (t @ d # s) delims = t # Tokens s delims"
  using Tokens_from_shift [of "t @ [d]" s delims 0]
  by (simp add: Tokens_from.simps [of "t @ d # s" delims 0] Tokenize_cons)

lemma Tokens_skip: "d \<in> set delims \<Longrightarrow> Tokens (d # s) delims = Tokens s delims"
proof -
  assume d: "d \<in> set delims"
  have e: "Tokenize (d # s) delims 0 = map_option (\<lambda>(t, p). (t, Suc p)) (Tokenize s delims 0)"
    using d by (auto simp: Tokenize_def Let_def Suc_diff_le length_dropWhile_le)
  show ?thesis
  proof (cases "Tokenize s delims 0")
    case (Some r)
    obtain tok p where r: "r = (tok, p)" by (cases r)
    show ?thesis
      using Some r e Tokens_from_shift [of "[d]" s delims p]
      by (simp add: Tokens_from.simps [of "d # s" delims 0] Tokens_from.simps [of s delims 0])
  qed (simp add: Tokens_from.simps [of "d # s" delims 0] Tokens_from.simps [of s delims 0] e)
qed

text \<open>Decimal output is read back by \<open>digits_value\<close>, so it is injective.\<close>

lemma of_char_digit_char [simp]: "d < 10 \<Longrightarrow> of_char (digit_char d) = 48 + d"
  by (simp add: digit_char_def)

lemma digit_value_char [simp]: "d < 10 \<Longrightarrow> digit_value (digit_char d) = d"
  by (simp add: digit_value_def)

lemma is_digit_char [simp]: "d < 10 \<Longrightarrow> is_digit (digit_char d)"
  by (simp add: is_digit_def)

lemma decimal_digits: "c \<in> set (decimal n) \<Longrightarrow> is_digit c"
proof (induction n rule: decimal.induct)
  case (1 n)
  then show ?case by (auto simp: decimal.simps [of n] split: if_splits)
qed

lemma decimal_nonempty [simp]: "decimal n \<noteq> []"
  by (simp add: decimal.simps)

lemma digits_value_decimal [simp]: "digits_value (decimal n) = n"
proof (induction n rule: decimal.induct)
  case (1 n)
  then show ?case by (auto simp: decimal.simps [of n] digits_value_def)
qed

lemma decimal_inject [simp]: "decimal m = decimal n \<longleftrightarrow> m = n"
  by (metis digits_value_decimal)

lemma digit_not_space: "is_digit c \<Longrightarrow> \<not> is_space c \<and> c \<noteq> CHR ''-'' \<and> c \<noteq> CHR ''+'' \<and> c \<noteq> CHR ''.''"
  by (auto simp: is_digit_def is_space_def)

lemma strtol10_decimal: "n < 2 ^ 31 \<Longrightarrow> strtol10 (decimal n) = (int n, [], False)"
proof -
  assume n: "n < 2 ^ 31"
  have h: "is_digit (hd (decimal n))"
    using decimal_digits hd_in_set decimal_nonempty by blast
  then have "dropWhile is_space (decimal n) = decimal n"
    using digit_not_space by (cases "decimal n") auto
  moreover have "takeWhile is_digit (decimal n) = decimal n" "dropWhile is_digit (decimal n) = []"
    using decimal_digits by auto
  ultimately show ?thesis
    using h n digit_not_space [OF h]
    by (simp add: strtol10_def Let_def del: takeWhile_eq_all_conv dropWhile_eq_Nil_conv)
qed

section \<open>std::map\<close>

fun smap_find :: "('k \<times> 'v) list \<Rightarrow> 'k \<Rightarrow> 'v option" where
  "smap_find [] k = None"
| "smap_find ((k', v) # m) k = (if k = k' then Some v else smap_find m k)"

fun smap_put :: "'k::linorder \<Rightarrow> 'v \<Rightarrow> ('k \<times> 'v) list \<Rightarrow> ('k \<times> 'v) list" where
  "smap_put k v [] = [(k, v)]"
| "smap_put k v ((k', v') # m) =
     (if k < k' then (k, v) # (k', v') # m
      else if k = k' then (k, v) # m
      else (k', v') # smap_put k v m)"

definition smap_erase :: "'k \<Rightarrow> ('k \<times> 'v) list \<Rightarrow> ('k \<times> 'v) list" where
  "smap_erase k m = filter (\<lambda>p. fst p \<noteq> k) m"

definition smap_keys :: "('k \<times> 'v) list \<Rightarrow> 'k list" where
  "smap_keys m = map fst m"

definition smap_ok :: "('k::linorder \<times> 'v) list \<Rightarrow> bool" where
  "smap_ok m \<longleftrightarrow> sorted_wrt (<) (smap_keys m)"

text \<open>The contract of the container, and what its users derive from it.\<close>

locale ordered_map =
  fixes empty :: "'m"
    and find :: "'m \<Rightarrow> 'k::linorder \<Rightarrow> 'v option"
    and put :: "'k \<Rightarrow> 'v \<Rightarrow> 'm \<Rightarrow> 'm"
    and erase :: "'k \<Rightarrow> 'm \<Rightarrow> 'm"
    and keys :: "'m \<Rightarrow> 'k list"
    and ok :: "'m \<Rightarrow> bool"
  assumes find_empty: "find empty k = None"
    and find_put: "ok m \<Longrightarrow> find (put k v m) k' = (if k' = k then Some v else find m k')"
    and find_erase: "ok m \<Longrightarrow> find (erase k m) k' = (if k' = k then None else find m k')"
    and keys_find: "ok m \<Longrightarrow> k \<in> set (keys m) \<longleftrightarrow> find m k \<noteq> None"
    and keys_ascending: "ok m \<Longrightarrow> sorted_wrt (<) (keys m)"
    and ok_empty: "ok empty"
    and ok_put: "ok m \<Longrightarrow> ok (put k v m)"
    and ok_erase: "ok m \<Longrightarrow> ok (erase k m)"
begin

lemma keys_distinct: "ok m \<Longrightarrow> distinct (keys m)"
  using keys_ascending strict_sorted_iff by blast

lemma keys_put: "ok m \<Longrightarrow> set (keys (put k v m)) = insert k (set (keys m))"
  by (auto simp: keys_find ok_put find_put split: if_splits)

lemma keys_erase: "ok m \<Longrightarrow> set (keys (erase k m)) = set (keys m) - {k}"
  by (auto simp: keys_find ok_erase find_erase split: if_splits)

lemma size_put_new: "ok m \<Longrightarrow> find m k = None \<Longrightarrow> length (keys (put k v m)) = Suc (length (keys m))"
  by (metis keys_distinct keys_put keys_find ok_put distinct_card card_insert_disjoint List.finite_set)

lemma size_put_old: "ok m \<Longrightarrow> find m k \<noteq> None \<Longrightarrow> length (keys (put k v m)) = length (keys m)"
  by (metis keys_distinct keys_put keys_find ok_put distinct_card insert_absorb)

lemma keys_determined:
  "ok m \<Longrightarrow> ok m' \<Longrightarrow> (\<And>k. find m k = None \<longleftrightarrow> find m' k = None) \<Longrightarrow> keys m = keys m'"
  by (metis keys_ascending keys_find strict_sorted_equal subset_antisym subsetI)

end

lemma smap_find_map_of: "smap_find m k = map_of m k"
  by (induction m) auto

lemma smap_keys_put: "set (smap_keys (smap_put k v m)) = insert k (set (smap_keys m))"
  by (induction k v m rule: smap_put.induct) (auto simp: smap_keys_def)

lemma smap_ok_put [map_laws]: "smap_ok m \<Longrightarrow> smap_ok (smap_put k v m)"
proof (induction k v m rule: smap_put.induct)
  case (2 k v k' v' m)
  then show ?case
    using smap_keys_put [of k v m] by (auto simp: smap_ok_def smap_keys_def dest: less_trans)
qed (simp add: smap_ok_def smap_keys_def)

lemma smap_find_fresh: "k \<notin> set (smap_keys m) \<Longrightarrow> smap_find m k = None"
  by (induction m) (auto simp: smap_keys_def)

lemma smap_find_put [map_laws]:
  "smap_ok m \<Longrightarrow> smap_find (smap_put k v m) k' = (if k' = k then Some v else smap_find m k')"
  by (induction k v m rule: smap_put.induct) (auto simp: smap_ok_def smap_keys_def)

lemma smap_find_erase [map_laws]:
  "smap_find (smap_erase k m) k' = (if k' = k then None else smap_find m k')"
  by (induction m) (auto simp: smap_erase_def)

lemma smap_ok_erase [map_laws]: "smap_ok m \<Longrightarrow> smap_ok (smap_erase k m)"
  by (simp add: smap_ok_def smap_keys_def smap_erase_def sorted_wrt_map sorted_wrt_filter)

interpretation smap: ordered_map "[]" smap_find smap_put smap_erase smap_keys smap_ok
proof unfold_locales
  fix m :: "('a \<times> 'b) list" and k
  show "k \<in> set (smap_keys m) \<longleftrightarrow> smap_find m k \<noteq> None"
    by (simp add: smap_keys_def smap_find_map_of map_of_eq_None_iff)
  show "smap_ok m \<Longrightarrow> sorted_wrt (<) (smap_keys m)"
    by (simp add: smap_ok_def)
  show "smap_ok ([] :: ('a \<times> 'b) list)"
    by (simp add: smap_ok_def smap_keys_def)
qed (auto simp: map_laws)

section \<open>Sequences of operations\<close>

locale invariant_machine =
  fixes step :: "'s \<Rightarrow> 'e \<Rightarrow> 's"
    and legal :: "'e \<Rightarrow> bool"
    and inv :: "'s \<Rightarrow> bool"
  assumes inv_step: "inv s \<Longrightarrow> legal e \<Longrightarrow> inv (step s e)"
begin

lemma inv_run: "inv s \<Longrightarrow> list_all legal es \<Longrightarrow> inv (foldl step s es)"
  by (induction es arbitrary: s) (auto intro: inv_step)

lemma inv_prefix: "inv s \<Longrightarrow> list_all legal es \<Longrightarrow> inv (foldl step s (take n es))"
  using inv_run [of s "take n es"] by (auto simp: list_all_iff dest: in_set_takeD)

end

end
