(* ===== verification/Base_Strings.thy ===== *)
theory Base_Strings
  imports Omaha_Prelude
begin

text \<open>
  The string helpers of \<open>base/string.cc\<close>, \<open>base/utils.cc\<close> and \<open>base/path.cc\<close> that the
  components call: checked decimal numbers, three-valued flags, name/value pairs, versions,
  hexadecimal dumps and quoted paths. A function that returns \<open>false\<close> and leaves its result
  unused returns \<open>None\<close>.
\<close>

unbundle bit_operations_syntax

section \<open>Numbers, flags and pairs\<close>

datatype Tristate = TRISTATE_FALSE | TRISTATE_TRUE | TRISTATE_NONE

definition String_StringToDecimalIntChecked :: "string \<Rightarrow> int option" where
  "String_StringToDecimalIntChecked str =
     (case strtol10 str of (v, end_ptr, erange) \<Rightarrow>
        if erange then None
        else if v = 0 then (if str = end_ptr \<or> end_ptr \<noteq> [] then None else Some v)
        else if end_ptr \<noteq> [] then None
        else Some v)"

definition String_StringToTristate :: "string \<Rightarrow> Tristate option" where
  "String_StringToTristate str =
     (case String_StringToDecimalIntChecked str of
        None \<Rightarrow> None
      | Some v \<Rightarrow> if v = 0 then Some TRISTATE_FALSE
                 else if v = 1 then Some TRISTATE_TRUE
                 else if v = 2 then Some TRISTATE_NONE
                 else None)"

definition ParseNameValuePair :: "string \<Rightarrow> char \<Rightarrow> (string \<times> string) option" where
  "ParseNameValuePair token separator =
     (case Find_char separator token of
        None \<Rightarrow> None
      | Some i \<Rightarrow>
          if i = 0 \<or> i = length token - 1 then None
          else let name = Left_n token i;
                   value = Right_n token (length token - i - 1)
               in if Find_char separator value \<noteq> None then None else Some (name, value))"

fun String_StartsWith :: "string \<Rightarrow> string \<Rightarrow> bool \<Rightarrow> bool" where
  "String_StartsWith str [] ignore_case = True"
| "String_StartsWith [] (d # start_str) ignore_case = False"
| "String_StartsWith (c # str) (d # start_str) ignore_case =
     (if (if ignore_case then lower_char c \<noteq> lower_char d else c \<noteq> d) then False
      else String_StartsWith str start_str ignore_case)"

definition EnclosePath :: "string \<Rightarrow> string" where
  "EnclosePath path =
     (if path = [] then path
      else if hd path = CHR 0x22 \<and> last path = CHR 0x22 then path
      else [CHR 0x22] @ path @ [CHR 0x22])"

section \<open>Versions\<close>

definition MAKEDLLVERULL :: "nat \<Rightarrow> nat \<Rightarrow> nat \<Rightarrow> nat \<Rightarrow> 64 word" where
  "MAKEDLLVERULL major minor build qfe =
     push_bit 48 (word_of_nat major) OR push_bit 32 (word_of_nat minor)
       OR push_bit 16 (word_of_nat build) OR word_of_nat qfe"

text \<open>The loop over the four parts: the parts read so far and the final position.\<close>

fun version_quads :: "nat \<Rightarrow> string \<Rightarrow> nat \<Rightarrow> (nat list \<times> nat) option" where
  "version_quads 0 s pos = Some ([], pos)"
| "version_quads (Suc n) s pos =
     (case Tokenize s ''.'' pos of
        None \<Rightarrow> None
      | Some (q, pos') \<Rightarrow>
          (case String_StringToDecimalIntChecked q of
             None \<Rightarrow> None
           | Some quad_value \<Rightarrow>
               let quad = nat (quad_value mod 2 ^ 32)
               in if 65535 < quad then None
                  else (case version_quads n s pos' of
                          None \<Rightarrow> None
                        | Some (qs, p) \<Rightarrow> Some (quad # qs, p))))"

definition VersionFromString :: "string \<Rightarrow> 64 word" where
  "VersionFromString s =
     (case version_quads 4 s 0 of
        Some ([major, minor, build, patch], pos) \<Rightarrow>
          if length s + 1 \<noteq> pos then 0 else MAKEDLLVERULL major minor build patch
      | _ \<Rightarrow> 0)"

definition version_part :: "nat \<Rightarrow> 64 word \<Rightarrow> nat" where
  "version_part shift version = unat (drop_bit shift version AND 0xFFFF)"

definition StringFromVersion :: "64 word \<Rightarrow> string" where
  "StringFromVersion version =
     decimal (version_part 48 version) @ ''.'' @ decimal (version_part 32 version) @ ''.''
       @ decimal (version_part 16 version) @ ''.'' @ decimal (version_part 0 version)"

section \<open>Hexadecimal dumps\<close>

definition hex_value :: "char \<Rightarrow> 8 word" where
  "hex_value c =
     (let n = of_char c :: nat
      in if 48 \<le> n \<and> n \<le> 57 then word_of_nat (n - 48)
         else if 65 \<le> n \<and> n \<le> 70 then word_of_nat (n - 55)
         else if 97 \<le> n \<and> n \<le> 102 then word_of_nat (n - 87)
         else 0)"

definition hex_char :: "8 word \<Rightarrow> char" where
  "hex_char w = ''0123456789abcdef'' ! unat w"

fun a2b_hex :: "string \<Rightarrow> 8 word list" where
  "a2b_hex (hi # lo # s) = (push_bit 4 (hex_value hi) + hex_value lo) # a2b_hex s"
| "a2b_hex s = []"

fun b2a_hex :: "8 word list \<Rightarrow> string" where
  "b2a_hex [] = []"
| "b2a_hex (b # bs) = hex_char (drop_bit 4 b) # hex_char (b AND 0xF) # b2a_hex bs"

definition IsHexDigit :: "char \<Rightarrow> bool" where
  "IsHexDigit c =
     (let n = of_char c :: nat
      in 97 \<le> n \<and> n \<le> 102 \<or> 65 \<le> n \<and> n \<le> 70 \<or> 48 \<le> n \<and> n \<le> 57)"

definition CheckHexString :: "string \<Rightarrow> bool" where
  "CheckHexString str \<longleftrightarrow> str \<noteq> [] \<and> length str mod 2 = 0 \<and> list_all IsHexDigit str"

definition SafeHexStringToVector :: "string \<Rightarrow> 8 word list option" where
  "SafeHexStringToVector str = (if CheckHexString str then Some (a2b_hex str) else None)"

section \<open>Facts\<close>

lemma StringToDecimalIntChecked_decimal:
  "n < 2 ^ 31 \<Longrightarrow> String_StringToDecimalIntChecked (decimal n) = Some (int n)"
  by (simp add: String_StringToDecimalIntChecked_def strtol10_decimal)

lemma ParseNameValuePair_iff:
  "ParseNameValuePair token sep = Some (name, val) \<longleftrightarrow>
     token = name @ sep # val \<and> name \<noteq> [] \<and> val \<noteq> [] \<and> sep \<notin> set name \<and> sep \<notin> set val"
  (is "?L \<longleftrightarrow> ?R")
proof
  assume ?L
  then obtain i where i: "Find_char sep token = Some i" "i \<noteq> 0" "i \<noteq> length token - 1"
    and n: "name = take i token" and v: "val = drop (Suc i) token" "sep \<notin> set val"
    by (auto simp: ParseNameValuePair_def Left_n_def Right_n_def Let_def cstr_simps
             split: option.splits if_splits)
  then have "i < length token" "token ! i = sep" "sep \<notin> set (take i token)"
    by (auto simp: cstr_simps)
  with i n v show ?R by (auto simp: id_take_nth_drop)
next
  assume R: ?R
  then have "Find_char sep token = Some (length name)" by (simp add: Find_char_append)
  with R show ?L
    by (simp add: ParseNameValuePair_def Left_n_def Right_n_def Let_def Find_char_None)
qed

lemma version_part_less: "version_part n v < 65536"
proof -
  have "unat (drop_bit n v AND 0xFFFF) \<le> unat (0xFFFF :: 64 word)"
    by (rule word_le_nat_alt [THEN iffD1], rule word_and_le1)
  then show ?thesis by (simp add: version_part_def)
qed

lemma MAKEDLLVERULL_parts:
  "MAKEDLLVERULL (version_part 48 v) (version_part 32 v) (version_part 16 v) (version_part 0 v) = v"
proof (rule bit_word_eqI)
  fix n assume n: "n < LENGTH(64)"
  have m: "(0xFFFF :: 64 word) = mask 16" by (simp add: mask_eq_exp_minus_1)
  have "n < 16 \<or> 16 \<le> n \<and> n < 32 \<or> 32 \<le> n \<and> n < 48 \<or> 48 \<le> n" by linarith
  then show "bit (MAKEDLLVERULL (version_part 48 v) (version_part 32 v) (version_part 16 v)
      (version_part 0 v)) n \<longleftrightarrow> bit v n"
    using n by (elim disjE) (auto simp: MAKEDLLVERULL_def version_part_def bit_simps m)
qed

lemma version_quads_step:
  assumes "n < 65536"
  shows "version_quads (Suc k) (u @ decimal n @ CHR ''.'' # s) (length u) =
           map_option (\<lambda>(qs, p). (n # qs, p))
             (version_quads k (u @ decimal n @ CHR ''.'' # s) (length u + length (decimal n) + 1))"
proof -
  have "set (decimal n) \<inter> set ''.'' = {}"
    using decimal_digits digit_not_space by auto
  then have "Tokenize (u @ decimal n @ CHR ''.'' # s) ''.'' (length u)
      = Some (decimal n, length u + length (decimal n) + 1)"
    using Tokenize_shift [of u "decimal n @ CHR ''.'' # s" "''.''" 0] by (simp add: Tokenize_cons)
  with assms show ?thesis
    by (simp add: StringToDecimalIntChecked_decimal option.case_eq_if split_beta map_option_case)
qed

lemma version_quads_last:
  assumes "n < 65536"
  shows "version_quads 1 (u @ decimal n) (length u) = Some ([n], length u + length (decimal n) + 1)"
proof -
  have "set (decimal n) \<inter> set ''.'' = {}"
    using decimal_digits digit_not_space by auto
  then have "Tokenize (u @ decimal n) ''.'' (length u) = Some (decimal n, length u + length (decimal n) + 1)"
    using Tokenize_shift [of u "decimal n" "''.''" 0] by (simp add: Tokenize_last)
  with assms show ?thesis by (simp add: StringToDecimalIntChecked_decimal)
qed

lemma four: "(4 :: nat) = Suc (Suc (Suc (Suc 0)))"
  by simp

lemma version_quads_print:
  assumes "a < 65536" "b < 65536" "c < 65536" "d < 65536"
  shows "version_quads 4 (decimal a @ ''.'' @ decimal b @ ''.'' @ decimal c @ ''.'' @ decimal d) 0
     = Some ([a, b, c, d], length (decimal a @ ''.'' @ decimal b @ ''.'' @ decimal c @ ''.'' @ decimal d) + 1)"
  using assms version_quads_step [of a 3 "[]" "decimal b @ ''.'' @ decimal c @ ''.'' @ decimal d"]
    version_quads_step [of b 2 "decimal a @ ''.''" "decimal c @ ''.'' @ decimal d"]
    version_quads_step [of c 1 "decimal a @ ''.'' @ decimal b @ ''.''" "decimal d"]
    version_quads_last [of d "decimal a @ ''.'' @ decimal b @ ''.'' @ decimal c @ ''.''"]
  by (simp add: numeral_2_eq_2 numeral_3_eq_3 four add.assoc del: version_quads.simps)

lemma hex_char_value:
  "unat w < 16 \<Longrightarrow> hex_value (hex_char w) = w \<and> IsHexDigit (hex_char w)"
proof -
  assume "unat w < 16"
  then have "unat w \<in> set [0..<16]" by simp
  moreover have "\<forall>n \<in> set [0..<16]. hex_value (''0123456789abcdef'' ! n) = word_of_nat n
      \<and> IsHexDigit (''0123456789abcdef'' ! n)" by code_simp
  ultimately have "hex_value (''0123456789abcdef'' ! unat w) = word_of_nat (unat w)
      \<and> IsHexDigit (''0123456789abcdef'' ! unat w)" by blast
  then show ?thesis unfolding hex_char_def by simp
qed

lemma of_char_member: "ns = map of_char cs \<Longrightarrow> (of_char c :: nat) \<in> set ns \<Longrightarrow> c \<in> set cs"
  by auto

lemma hex_digits: "IsHexDigit c \<Longrightarrow> c \<in> set ''0123456789abcdefABCDEF''"
proof (rule of_char_member)
  show "[48..<58] @ [97..<103] @ [65..<71] = map of_char ''0123456789abcdefABCDEF''"
    by simp
  show "IsHexDigit c \<Longrightarrow> of_char c \<in> set ([48..<58] @ [97..<103] @ [65..<71])"
    unfolding set_append set_upt IsHexDigit_def Let_def by auto
qed

lemma hex_value_char:
  "IsHexDigit c \<Longrightarrow> hex_char (hex_value c) = lower_char c \<and> unat (hex_value c) < 16"
proof -
  assume "IsHexDigit c"
  moreover have "\<forall>c \<in> set ''0123456789abcdefABCDEF''.
      hex_char (hex_value c) = lower_char c \<and> unat (hex_value c) < 16"
    by code_simp
  ultimately show ?thesis using hex_digits by blast
qed

lemma and_nibble: "(b AND 0xF :: 8 word) = take_bit 4 b"
  by (simp add: take_bit_eq_mask mask_eq_exp_minus_1)

lemma nibbles_join: "push_bit 4 (drop_bit 4 b) + (b AND 0xF) = (b :: 8 word)"
  unfolding and_nibble by (rule bits_ident)

lemma nibble_less: "unat (drop_bit 4 (b :: 8 word)) < 16" "unat (b AND 0xF :: 8 word) < 16"
proof -
  show "unat (drop_bit 4 b) < 16"
    using unsigned_less [of b, where 'a = nat]
    by (simp add: unat_drop_bit_eq drop_bit_eq_div [where 'a = nat] less_mult_imp_div_less)
  have "unat (b AND 0xF) \<le> unat (0xF :: 8 word)"
    by (rule word_le_nat_alt [THEN iffD1], rule word_and_le1)
  then show "unat (b AND 0xF) < 16" by simp
qed

lemma nibbles_split:
  fixes h l :: "8 word"
  assumes "unat h < 16" "unat l < 16"
  shows "drop_bit 4 (push_bit 4 h + l) = h" "(push_bit 4 h + l) AND 0xF = l"
proof -
  have u: "unat (push_bit 4 h + l) = 16 * unat h + unat l"
    using assms by (simp add: push_bit_eq_mult unat_word_ariths)
  show "drop_bit 4 (push_bit 4 h + l) = h"
    using assms by (simp add: word_unat_eq_iff unat_drop_bit_eq drop_bit_eq_div [where 'a = nat] u)
  show "(push_bit 4 h + l) AND 0xF = l"
    unfolding and_nibble
    using assms by (simp add: word_unat_eq_iff unsigned_take_bit_eq take_bit_eq_mod [where 'a = nat] u)
qed

lemma b2a_hex_digits: "CheckHexString (b2a_hex bs) \<longleftrightarrow> bs \<noteq> []"
proof -
  have "length (b2a_hex bs) = 2 * length bs \<and> list_all IsHexDigit (b2a_hex bs)"
    by (induction bs) (auto simp: hex_char_value nibble_less)
  then show ?thesis by (auto simp: CheckHexString_def)
qed

lemma a2b_b2a_hex: "a2b_hex (b2a_hex bs) = bs"
  by (induction bs) (auto simp: hex_char_value nibble_less nibbles_join)

lemma b2a_a2b_hex:
  "length s mod 2 = 0 \<Longrightarrow> list_all IsHexDigit s \<Longrightarrow> b2a_hex (a2b_hex s) = MakeLower s"
  by (induction s rule: a2b_hex.induct) (auto simp: hex_value_char nibbles_split MakeLower_def)

text \<open>C30. Printing a version and reading it back gives the version, for each of the 2^64
  versions.\<close>

theorem VersionFromString_StringFromVersion:
  "VersionFromString (StringFromVersion v) = v"
  using version_quads_print [of "version_part 48 v" "version_part 32 v" "version_part 16 v" "version_part 0 v"]
  by (simp add: VersionFromString_def StringFromVersion_def version_part_less MAKEDLLVERULL_parts)

text \<open>C31. A string is accepted as a hexadecimal dump exactly when it is the dump of some
  non-empty byte string up to the case of its letters, and then the bytes read are those.\<close>

theorem SafeHexStringToVector_iff:
  "SafeHexStringToVector s = Some bs \<longleftrightarrow>
     bs \<noteq> [] \<and> MakeLower s = b2a_hex bs \<and> list_all IsHexDigit s"
proof
  assume "SafeHexStringToVector s = Some bs"
  then have "CheckHexString s" "a2b_hex s = bs"
    by (auto simp: SafeHexStringToVector_def split: if_splits)
  moreover from this have "bs \<noteq> []"
    by (cases s rule: a2b_hex.cases) (auto simp: CheckHexString_def)
  ultimately show "bs \<noteq> [] \<and> MakeLower s = b2a_hex bs \<and> list_all IsHexDigit s"
    by (auto simp: CheckHexString_def b2a_a2b_hex)
next
  assume r: "bs \<noteq> [] \<and> MakeLower s = b2a_hex bs \<and> list_all IsHexDigit s"
  then have "CheckHexString s"
    using b2a_hex_digits [of bs] by (metis CheckHexString_def MakeLower_def length_map map_is_Nil_conv)
  moreover from this r have "a2b_hex s = bs"
    by (metis CheckHexString_def a2b_b2a_hex b2a_a2b_hex)
  ultimately show "SafeHexStringToVector s = Some bs" by (simp add: SafeHexStringToVector_def)
qed

end
