(* ===== verification/Command_Line.thy ===== *)
theory Command_Line
  imports Base_Strings
begin

text \<open>
  The command line parser (\<open>base/command_line_parser.cc\<close>) and the validator that matches a
  parsed command line against the registered scenarios (\<open>base/command_line_validator.cc\<close>).

  The parser's two maps are ordered association lists. Splitting a command line into arguments is
  \<open>CommandLineToArgvW\<close> of the shell and the path of the running module comes from the loader, so
  both are parameters of the operations that call them.
  The scenario counter is a natural number: the 64-bit counter of the code would have to pass
  2^64 scenarios to differ.
\<close>

section \<open>CommandLineParserArgs\<close>

record CommandLineParserArgs =
  switch_arguments :: "(string \<times> string list) list"

definition Args_Reset :: "CommandLineParserArgs \<Rightarrow> CommandLineParserArgs" where
  "Args_Reset a = a\<lparr>switch_arguments := []\<rparr>"

definition Args_AddSwitch :: "CommandLineParserArgs \<Rightarrow> string \<Rightarrow> hresult \<times> CommandLineParserArgs" where
  "Args_AddSwitch a switch_name =
     (if smap_find (switch_arguments a) switch_name \<noteq> None then (E_INVALIDARG, a)
      else (S_OK, a\<lparr>switch_arguments := smap_put switch_name [] (switch_arguments a)\<rparr>))"

definition Args_AddSwitchArgument ::
  "CommandLineParserArgs \<Rightarrow> string \<Rightarrow> string \<Rightarrow> hresult \<times> CommandLineParserArgs" where
  "Args_AddSwitchArgument a switch_name val =
     (if IsEmpty switch_name then (E_INVALIDARG, a)
      else case smap_find (switch_arguments a) switch_name of
             None \<Rightarrow> (E_UNEXPECTED, a)
           | Some vals \<Rightarrow>
               (S_OK, a\<lparr>switch_arguments := smap_put switch_name (vals @ [val]) (switch_arguments a)\<rparr>))"

definition Args_GetSwitchCount :: "CommandLineParserArgs \<Rightarrow> nat" where
  "Args_GetSwitchCount a = length (switch_arguments a)"

definition Args_HasSwitch :: "CommandLineParserArgs \<Rightarrow> string \<Rightarrow> bool" where
  "Args_HasSwitch a switch_name \<longleftrightarrow> smap_find (switch_arguments a) (MakeLower switch_name) \<noteq> None"

definition Args_GetSwitchNameAtIndex :: "CommandLineParserArgs \<Rightarrow> nat \<Rightarrow> hresult + string" where
  "Args_GetSwitchNameAtIndex a index =
     (if length (switch_arguments a) \<le> index then Inl E_INVALIDARG
      else Inr (fst (switch_arguments a ! index)))"

definition Args_GetSwitchArgumentCount :: "CommandLineParserArgs \<Rightarrow> string \<Rightarrow> hresult + nat" where
  "Args_GetSwitchArgumentCount a switch_name =
     (case smap_find (switch_arguments a) (MakeLower switch_name) of
        None \<Rightarrow> Inl E_INVALIDARG
      | Some vals \<Rightarrow> Inr (length vals))"

definition Args_GetSwitchArgumentValue ::
  "CommandLineParserArgs \<Rightarrow> string \<Rightarrow> nat \<Rightarrow> hresult + string" where
  "Args_GetSwitchArgumentValue a switch_name argument_index =
     (let lower = MakeLower switch_name
      in case Args_GetSwitchArgumentCount a lower of
           Inl hr \<Rightarrow> Inl hr
         | Inr count \<Rightarrow>
             if count \<le> argument_index then Inl E_INVALIDARG
             else case smap_find (switch_arguments a) lower of
                    None \<Rightarrow> Inl E_INVALIDARG
                  | Some vals \<Rightarrow> Inr (vals ! argument_index))"

section \<open>CommandLineParser\<close>

record CommandLineParser =
  required_args :: CommandLineParserArgs
  optional_args :: CommandLineParserArgs

definition new_parser :: CommandLineParser where
  "new_parser = \<lparr>required_args = \<lparr>switch_arguments = []\<rparr>, optional_args = \<lparr>switch_arguments = []\<rparr>\<rparr>"

definition Parser_Reset :: "CommandLineParser \<Rightarrow> CommandLineParser" where
  "Parser_Reset p = p\<lparr>required_args := Args_Reset (required_args p),
                      optional_args := Args_Reset (optional_args p)\<rparr>"

definition AddSwitch :: "CommandLineParser \<Rightarrow> string \<Rightarrow> hresult \<times> CommandLineParser" where
  "AddSwitch p name =
     (case Args_AddSwitch (required_args p) name of (hr, a) \<Rightarrow> (hr, p\<lparr>required_args := a\<rparr>))"

definition AddSwitchArgument ::
  "CommandLineParser \<Rightarrow> string \<Rightarrow> string \<Rightarrow> hresult \<times> CommandLineParser" where
  "AddSwitchArgument p name val =
     (case Args_AddSwitchArgument (required_args p) name val of (hr, a) \<Rightarrow> (hr, p\<lparr>required_args := a\<rparr>))"

definition AddOptionalSwitch :: "CommandLineParser \<Rightarrow> string \<Rightarrow> hresult \<times> CommandLineParser" where
  "AddOptionalSwitch p name =
     (case Args_AddSwitch (optional_args p) name of (hr, a) \<Rightarrow> (hr, p\<lparr>optional_args := a\<rparr>))"

definition AddOptionalSwitchArgument ::
  "CommandLineParser \<Rightarrow> string \<Rightarrow> string \<Rightarrow> hresult \<times> CommandLineParser" where
  "AddOptionalSwitchArgument p name val =
     (case Args_AddSwitchArgument (optional_args p) name val of (hr, a) \<Rightarrow> (hr, p\<lparr>optional_args := a\<rparr>))"

definition GetSwitchCount :: "CommandLineParser \<Rightarrow> nat" where
  "GetSwitchCount p = Args_GetSwitchCount (required_args p)"

definition HasSwitch :: "CommandLineParser \<Rightarrow> string \<Rightarrow> bool" where
  "HasSwitch p name = Args_HasSwitch (required_args p) name"

definition GetSwitchNameAtIndex :: "CommandLineParser \<Rightarrow> nat \<Rightarrow> hresult + string" where
  "GetSwitchNameAtIndex p index = Args_GetSwitchNameAtIndex (required_args p) index"

definition GetSwitchArgumentCount :: "CommandLineParser \<Rightarrow> string \<Rightarrow> hresult + nat" where
  "GetSwitchArgumentCount p name = Args_GetSwitchArgumentCount (required_args p) name"

definition GetSwitchArgumentValue :: "CommandLineParser \<Rightarrow> string \<Rightarrow> nat \<Rightarrow> hresult + string" where
  "GetSwitchArgumentValue p name index = Args_GetSwitchArgumentValue (required_args p) name index"

definition GetOptionalSwitchCount :: "CommandLineParser \<Rightarrow> nat" where
  "GetOptionalSwitchCount p = Args_GetSwitchCount (optional_args p)"

definition HasOptionalSwitch :: "CommandLineParser \<Rightarrow> string \<Rightarrow> bool" where
  "HasOptionalSwitch p name = Args_HasSwitch (optional_args p) name"

definition GetOptionalSwitchNameAtIndex :: "CommandLineParser \<Rightarrow> nat \<Rightarrow> hresult + string" where
  "GetOptionalSwitchNameAtIndex p index = Args_GetSwitchNameAtIndex (optional_args p) index"

definition GetOptionalSwitchArgumentCount :: "CommandLineParser \<Rightarrow> string \<Rightarrow> hresult + nat" where
  "GetOptionalSwitchArgumentCount p name = Args_GetSwitchArgumentCount (optional_args p) name"

definition GetOptionalSwitchArgumentValue ::
  "CommandLineParser \<Rightarrow> string \<Rightarrow> nat \<Rightarrow> hresult + string" where
  "GetOptionalSwitchArgumentValue p name index = Args_GetSwitchArgumentValue (optional_args p) name index"

definition IsSwitch :: "string \<Rightarrow> bool" where
  "IsSwitch param \<longleftrightarrow>
     2 \<le> length param \<and> (hd param = CHR ''/'' \<or> hd param = CHR ''-'')
       \<and> Find_str '' '' param = None \<and> Find_str ''%20'' param = None"

text \<open>\<open>param[0]\<close> of an empty string is its terminator, so it is not an opening bracket.\<close>

definition IsOptionalSwitch :: "string \<Rightarrow> bool" where
  "IsOptionalSwitch param \<longleftrightarrow>
     param \<noteq> [] \<and> hd param = CHR ''['' \<and> IsSwitch (Right_n param (length param - 1))"

definition StripSwitchNameFromArgv :: "string \<Rightarrow> hresult + string" where
  "StripSwitchNameFromArgv param =
     (if \<not> IsSwitch param then Inl E_INVALIDARG
      else Inr (MakeLower (Trim '' '' (Right_n param (length param - 1)))))"

definition StripOptionalSwitchNameFromArgv :: "string \<Rightarrow> hresult + string" where
  "StripOptionalSwitchNameFromArgv param =
     (if \<not> IsOptionalSwitch param then Inl E_INVALIDARG
      else StripSwitchNameFromArgv (Right_n param (length param - 1)))"

text \<open>One iteration of the loop of \<open>ParseFromArgv\<close>, on the parser, the current switch and whether
  that switch is optional.\<close>

definition parse_token ::
  "CommandLineParser \<times> string \<times> bool \<Rightarrow> string \<Rightarrow> hresult \<times> CommandLineParser \<times> string \<times> bool" where
  "parse_token st arg =
     (case st of (p, current, is_optional) \<Rightarrow>
        let token = Trim '' '' arg
        in if IsSwitch token then
             (case StripSwitchNameFromArgv token of
                Inl hr \<Rightarrow> (hr, p, current, is_optional)
              | Inr name \<Rightarrow>
                  (case AddSwitch p name of (hr, p') \<Rightarrow>
                     if FAILED hr then (hr, p', name, is_optional) else (S_OK, p', name, False)))
           else if IsOptionalSwitch token then
             (case StripOptionalSwitchNameFromArgv token of
                Inl hr \<Rightarrow> (hr, p, current, is_optional)
              | Inr name \<Rightarrow>
                  (case AddOptionalSwitch p name of (hr, p') \<Rightarrow>
                     if FAILED hr then (hr, p', name, is_optional) else (S_OK, p', name, True)))
           else
             (case (if is_optional then AddOptionalSwitchArgument p current token
                    else AddSwitchArgument p current token) of (hr, p') \<Rightarrow>
                (hr, p', current, is_optional)))"

fun parse_tokens ::
  "CommandLineParser \<times> string \<times> bool \<Rightarrow> string list \<Rightarrow> hresult \<times> CommandLineParser" where
  "parse_tokens st [] = (S_OK, fst st)"
| "parse_tokens st (arg # args) =
     (case parse_token st arg of (hr, st') \<Rightarrow>
        if FAILED hr then (hr, fst st') else parse_tokens st' args)"

definition ParseFromArgv :: "CommandLineParser \<Rightarrow> string list \<Rightarrow> hresult \<times> CommandLineParser" where
  "ParseFromArgv p argv =
     (if argv = [] then (E_INVALIDARG, p)
      else let p' = Parser_Reset p
           in if length argv = 1 then (S_OK, p') else parse_tokens (p', [], False) (tl argv))"

definition ParseFromString ::
  "(string \<Rightarrow> hresult + string list) \<Rightarrow> string \<Rightarrow> CommandLineParser \<Rightarrow> string
     \<Rightarrow> hresult \<times> CommandLineParser" where
  "ParseFromString command_line_to_argv module_path p command_line =
     (let trimmed = Trim '' '' command_line;
          str = (if IsEmpty trimmed then EnclosePath module_path else trimmed)
      in case command_line_to_argv str of
           Inl hr \<Rightarrow> (hr, p)
         | Inr argv \<Rightarrow> ParseFromArgv p argv)"

section \<open>CommandLineValidator\<close>

record ScenarioParameter =
  switch_name :: string
  num_required_parameters :: nat

record ScenarioParameters =
  required :: "ScenarioParameter list"
  optional :: "ScenarioParameter list"

record CommandLineValidator =
  scenario_sequence_number :: nat
  scenarios :: "(string \<times> ScenarioParameters) list"

definition new_validator :: CommandLineValidator where
  "new_validator = \<lparr>scenario_sequence_number = 0, scenarios = []\<rparr>"

definition CreateScenario :: "CommandLineValidator \<Rightarrow> string \<Rightarrow> hresult \<times> CommandLineValidator" where
  "CreateScenario v name =
     (if smap_find (scenarios v) name \<noteq> None then (E_INVALIDARG, v)
      else (S_OK, v\<lparr>scenarios := smap_put name \<lparr>required = [], optional = []\<rparr> (scenarios v)\<rparr>))"

definition AddScenarioParameter ::
  "CommandLineValidator \<Rightarrow> string \<Rightarrow> string \<Rightarrow> nat \<Rightarrow> hresult \<times> CommandLineValidator" where
  "AddScenarioParameter v name sw n =
     (case smap_find (scenarios v) name of
        None \<Rightarrow> (E_INVALIDARG, v)
      | Some sc \<Rightarrow>
          (S_OK, v\<lparr>scenarios :=
             smap_put name (sc\<lparr>required := required sc @ [\<lparr>switch_name = sw, num_required_parameters = n\<rparr>]\<rparr>)
               (scenarios v)\<rparr>))"

definition AddOptionalScenarioParameter ::
  "CommandLineValidator \<Rightarrow> string \<Rightarrow> string \<Rightarrow> nat \<Rightarrow> hresult \<times> CommandLineValidator" where
  "AddOptionalScenarioParameter v name sw n =
     (case smap_find (scenarios v) name of
        None \<Rightarrow> (E_INVALIDARG, v)
      | Some sc \<Rightarrow>
          (S_OK, v\<lparr>scenarios :=
             smap_put name (sc\<lparr>optional := optional sc @ [\<lparr>switch_name = sw, num_required_parameters = n\<rparr>]\<rparr>)
               (scenarios v)\<rparr>))"

text \<open>The two loops of \<open>CreateScenarioFromCmdLine\<close> over the switch indices.\<close>

fun add_switches ::
  "(nat \<Rightarrow> hresult + string) \<Rightarrow> (string \<Rightarrow> hresult + nat)
     \<Rightarrow> (CommandLineValidator \<Rightarrow> string \<Rightarrow> string \<Rightarrow> nat \<Rightarrow> hresult \<times> CommandLineValidator)
     \<Rightarrow> string \<Rightarrow> nat list \<Rightarrow> CommandLineValidator \<Rightarrow> hresult \<times> CommandLineValidator" where
  "add_switches name_at count_of add scenario [] v = (S_OK, v)"
| "add_switches name_at count_of add scenario (i # is) v =
     (case name_at i of
        Inl hr \<Rightarrow> (hr, v)
      | Inr sw \<Rightarrow>
          (case count_of sw of
             Inl hr \<Rightarrow> (hr, v)
           | Inr n \<Rightarrow>
               (case add v scenario sw n of (hr, v') \<Rightarrow>
                  if FAILED hr then (hr, v')
                  else add_switches name_at count_of add scenario is v')))"

definition scenario_name :: "nat \<Rightarrow> string" where
  "scenario_name n = ''scenario_'' @ decimal n"

lemma used_names_decrease:
  assumes "smap_find m (scenario_name (Suc n)) \<noteq> None"
  shows "card {k. Suc n < k \<and> scenario_name k \<in> fst ` set m}
           < card {k. n < k \<and> scenario_name k \<in> fst ` set m}"
proof (rule psubset_card_mono)
  have inj: "inj scenario_name" by (simp add: inj_on_def scenario_name_def)
  show "finite {k. n < k \<and> scenario_name k \<in> fst ` set m}"
    using finite_vimageI [OF _ inj, of "fst ` set m"] by (rule finite_subset [rotated]) auto
  have "scenario_name (Suc n) \<in> fst ` set m"
    using assms by (auto simp: smap_find_map_of map_of_eq_None_iff)
  then show "{k. Suc n < k \<and> scenario_name k \<in> fst ` set m}
      \<subset> {k. n < k \<and> scenario_name k \<in> fst ` set m}"
    by (auto simp: psubset_eq)
qed

text \<open>The counter after the loop that looks for an unused scenario name.\<close>

function next_scenario :: "(string \<times> ScenarioParameters) list \<Rightarrow> nat \<Rightarrow> nat" where
  "next_scenario m n =
     (if smap_find m (scenario_name (Suc n)) \<noteq> None then next_scenario m (Suc n) else Suc n)"
  by pat_completeness auto

termination next_scenario
  by (relation "measure (\<lambda>(m, n). card {k. n < k \<and> scenario_name k \<in> fst ` set m})")
     (auto intro!: used_names_decrease)

declare next_scenario.simps [simp del]

definition CreateScenarioFromCmdLine ::
  "(string \<Rightarrow> hresult + string list) \<Rightarrow> string \<Rightarrow> CommandLineValidator \<Rightarrow> string
     \<Rightarrow> (hresult + string) \<times> CommandLineValidator" where
  "CreateScenarioFromCmdLine command_line_to_argv module_path v command_line =
     (case ParseFromString command_line_to_argv module_path new_parser command_line of (hr, p) \<Rightarrow>
        if FAILED hr then (Inl hr, v)
        else
          let seq = next_scenario (scenarios v) (scenario_sequence_number v);
              name = scenario_name seq;
              v1 = snd (CreateScenario (v\<lparr>scenario_sequence_number := seq\<rparr>) name)
          in case add_switches (GetSwitchNameAtIndex p) (GetSwitchArgumentCount p)
                    AddScenarioParameter name [0..<GetSwitchCount p] v1 of (hr, v2) \<Rightarrow>
               if FAILED hr then (Inl hr, v2)
               else case add_switches (GetOptionalSwitchNameAtIndex p) (GetOptionalSwitchArgumentCount p)
                           AddOptionalScenarioParameter name [0..<GetOptionalSwitchCount p] v2 of (hr, v3) \<Rightarrow>
                      if FAILED hr then (Inl hr, v3) else (Inr name, v3))"

text \<open>\<open>DoesScenarioMatch\<close>: the loop over the required parameters, and the loop over the optional
  ones with the number of switches still to be explained.\<close>

fun required_match :: "CommandLineParser \<Rightarrow> ScenarioParameter list \<Rightarrow> bool" where
  "required_match p [] = True"
| "required_match p (sp # sps) =
     (if \<not> HasSwitch p (switch_name sp) then False
      else case GetSwitchArgumentCount p (switch_name sp) of
             Inl hr \<Rightarrow> False
           | Inr n \<Rightarrow> if n \<noteq> num_required_parameters sp then False else required_match p sps)"

fun optional_match :: "CommandLineParser \<Rightarrow> ScenarioParameter list \<Rightarrow> nat \<Rightarrow> bool" where
  "optional_match p [] left = (left = 0)"
| "optional_match p (sp # sps) left =
     (if left = 0 then True
      else if \<not> HasSwitch p (switch_name sp) then optional_match p sps left
      else case GetSwitchArgumentCount p (switch_name sp) of
             Inl hr \<Rightarrow> False
           | Inr n \<Rightarrow> if n \<noteq> num_required_parameters sp then False
                     else optional_match p sps (left - 1))"

definition DoesScenarioMatch :: "CommandLineParser \<Rightarrow> ScenarioParameters \<Rightarrow> bool" where
  "DoesScenarioMatch p sc \<longleftrightarrow>
     required_match p (required sc)
       \<and> optional_match p (optional sc) (GetSwitchCount p - length (required sc))"

fun validate_scenarios :: "CommandLineParser \<Rightarrow> (string \<times> ScenarioParameters) list \<Rightarrow> hresult + string" where
  "validate_scenarios p [] = Inl (itf_error 0xC01)"
| "validate_scenarios p ((name, sc) # scs) =
     (if GetSwitchCount p < length (required sc)
         \<or> length (required sc) + length (optional sc) < GetSwitchCount p
      then validate_scenarios p scs
      else if DoesScenarioMatch p sc then Inr name
      else validate_scenarios p scs)"

definition Validate :: "CommandLineValidator \<Rightarrow> CommandLineParser \<Rightarrow> hresult + string" where
  "Validate v p = validate_scenarios p (scenarios v)"

definition Clear :: "CommandLineValidator \<Rightarrow> CommandLineValidator" where
  "Clear v = v\<lparr>scenarios := []\<rparr>"

section \<open>What the parser computes\<close>

text \<open>The reading of one argument, and the switches of a command line with the values that
  follow each of them, in order. A key is a switch name together with whether it is optional.\<close>

datatype cmd_token = Switch_token bool string | Value_token string

definition cmd_token :: "string \<Rightarrow> cmd_token" where
  "cmd_token arg =
     (let t = Trim '' '' arg
      in if IsSwitch t then Switch_token False (MakeLower (tl t))
         else if IsOptionalSwitch t then Switch_token True (MakeLower (tl (tl t)))
         else Value_token t)"

fun leading_values :: "cmd_token list \<Rightarrow> string list" where
  "leading_values (Value_token v # ts) = v # leading_values ts"
| "leading_values ts = []"

fun switch_groups :: "cmd_token list \<Rightarrow> ((bool \<times> string) \<times> string list) list" where
  "switch_groups [] = []"
| "switch_groups (Value_token v # ts) = switch_groups ts"
| "switch_groups (Switch_token opt n # ts) = ((opt, n), leading_values ts) # switch_groups ts"

definition well_formed_tokens :: "cmd_token list \<Rightarrow> bool" where
  "well_formed_tokens ts \<longleftrightarrow> leading_values ts = [] \<and> distinct (map fst (switch_groups ts))"

definition args_at :: "CommandLineParser \<Rightarrow> bool \<Rightarrow> CommandLineParserArgs" where
  "args_at p opt = (if opt then optional_args p else required_args p)"

definition lookup_switch :: "CommandLineParser \<Rightarrow> bool \<times> string \<Rightarrow> string list option" where
  "lookup_switch p k = smap_find (switch_arguments (args_at p (fst k))) (snd k)"

definition args_ok :: "CommandLineParserArgs \<Rightarrow> bool" where
  "args_ok a \<longleftrightarrow> smap_ok (switch_arguments a)
     \<and> list_all (\<lambda>n. n \<noteq> [] \<and> MakeLower n = n) (smap_keys (switch_arguments a))"

definition parser_ok :: "CommandLineParser \<Rightarrow> bool" where
  "parser_ok p \<longleftrightarrow> args_ok (required_args p) \<and> args_ok (optional_args p)"

lemma Find_str_single: "Find_str [c] s = None \<longleftrightarrow> c \<notin> set s"
  by (induction s) auto

lemma switch_name_nonempty:
  "cmd_token arg = Switch_token opt n \<Longrightarrow> n \<noteq> [] \<and> MakeLower n = n"
  by (auto simp: cmd_token_def Let_def IsSwitch_def IsOptionalSwitch_def Right_n_def MakeLower_def
           split: if_splits)
     (cases "Trim '' '' arg"; cases "tl (Trim '' '' arg)"; auto)+

lemma Right_n_tl: "s \<noteq> [] \<Longrightarrow> Right_n s (length s - Suc 0) = tl s"
  by (cases s) (auto simp: Right_n_def)

lemma StripSwitchName_switch: "IsSwitch t \<Longrightarrow> StripSwitchNameFromArgv t = Inr (MakeLower (tl t))"
proof -
  assume t: "IsSwitch t"
  then have "t \<noteq> []" "CHR '' '' \<notin> set (tl t)"
    by (auto simp: IsSwitch_def Find_str_single dest: list.set_sel(2) [rotated])
  then have "Trim '' '' (tl t) = tl t"
    by (intro Trim_nop) (auto dest: hd_in_set last_in_set)
  with t \<open>t \<noteq> []\<close> show ?thesis by (simp add: StripSwitchNameFromArgv_def Right_n_tl)
qed

lemma args_ok_put:
  "args_ok a \<Longrightarrow> n \<noteq> [] \<Longrightarrow> MakeLower n = n \<Longrightarrow>
     args_ok (a\<lparr>switch_arguments := smap_put n v (switch_arguments a)\<rparr>)"
  by (auto simp: args_ok_def smap_ok_put list_all_iff smap_keys_put)

lemma parse_token_switch:
  assumes ok: "parser_ok p" and c: "cmd_token arg = Switch_token opt n"
  shows "if lookup_switch p (opt, n) \<noteq> None then fst (parse_token (p, cur, o') arg) = E_INVALIDARG
         else \<exists>p'. parse_token (p, cur, o') arg = (S_OK, p', n, opt) \<and> parser_ok p'
                \<and> lookup_switch p' = (lookup_switch p)((opt, n) \<mapsto> [])"
proof -
  let ?t = "Trim '' '' arg"
  have n: "n \<noteq> []" "MakeLower n = n" using switch_name_nonempty [OF c] by auto
  show ?thesis
  proof (cases opt)
    case False
    with c have "IsSwitch ?t" "StripSwitchNameFromArgv ?t = Inr n"
      by (auto simp: cmd_token_def Let_def StripSwitchName_switch split: if_splits)
    with False ok n show ?thesis
      by (auto simp: parse_token_def Let_def AddSwitch_def Args_AddSwitch_def lookup_switch_def args_at_def
          parser_ok_def args_ok_put fun_eq_iff args_ok_def [of "required_args p"] smap_find_put)
  next
    case True
    with c have "\<not> IsSwitch ?t" "IsOptionalSwitch ?t" "StripOptionalSwitchNameFromArgv ?t = Inr n"
      by (auto simp: cmd_token_def Let_def StripOptionalSwitchNameFromArgv_def IsOptionalSwitch_def
          Right_n_tl StripSwitchName_switch split: if_splits)
    with True ok n show ?thesis
      by (auto simp: parse_token_def Let_def AddOptionalSwitch_def Args_AddSwitch_def lookup_switch_def args_at_def
          parser_ok_def args_ok_put fun_eq_iff args_ok_def [of "optional_args p"] smap_find_put)
  qed
qed

lemma parse_token_value:
  assumes ok: "parser_ok p" and c: "cmd_token arg = Value_token v"
    and l: "lookup_switch p (opt, cur) = Some vals"
  shows "\<exists>p'. parse_token (p, cur, opt) arg = (S_OK, p', cur, opt) \<and> parser_ok p'
           \<and> lookup_switch p' = (lookup_switch p)((opt, cur) \<mapsto> vals @ [v])"
proof -
  have t: "\<not> IsSwitch (Trim '' '' arg)" "\<not> IsOptionalSwitch (Trim '' '' arg)" "Trim '' '' arg = v"
    using c by (auto simp: cmd_token_def Let_def split: if_splits)
  have "cur \<in> set (smap_keys (switch_arguments (args_at p opt)))"
    using l smap_find_fresh by (force simp: lookup_switch_def)
  moreover have a: "args_ok (args_at p opt)" using ok by (simp add: parser_ok_def args_at_def)
  ultimately have "cur \<noteq> []" "MakeLower cur = cur"
    by (auto simp: args_ok_def list_all_iff)
  with t l ok a show ?thesis
    by (cases opt)
       (auto simp: parse_token_def Let_def AddSwitchArgument_def AddOptionalSwitchArgument_def
          Args_AddSwitchArgument_def lookup_switch_def args_at_def parser_ok_def args_ok_put fun_eq_iff
          args_ok_def [of "required_args p"] args_ok_def [of "optional_args p"] smap_find_put)
qed


lemma map_add_key:
  "k \<notin> fst ` set gs \<Longrightarrow> m(k \<mapsto> x) ++ map_of gs = m ++ map_of ((k, x) # gs)"
  by (simp add: map_add_upd_left dom_map_of_conv_image_fst)

lemma parse_tokens_switches:
  assumes "parser_ok p" "lookup_switch p (opt, cur) = Some vals"
  shows "let ts = map cmd_token args
         in if distinct (map fst (switch_groups ts)) \<and> fst ` set (switch_groups ts) \<inter> dom (lookup_switch p) = {}
            then \<exists>p'. parse_tokens (p, cur, opt) args = (S_OK, p') \<and> parser_ok p'
                   \<and> lookup_switch p' = (lookup_switch p)((opt, cur) \<mapsto> vals @ leading_values ts)
                                         ++ map_of (switch_groups ts)
            else fst (parse_tokens (p, cur, opt) args) = E_INVALIDARG"
  using assms
proof (induction args arbitrary: p opt cur vals)
  case Nil
  then show ?case by (auto simp: fun_eq_iff)
next
  case (Cons arg args)
  let ?ts = "map cmd_token args"
  show ?case
  proof (cases "cmd_token arg")
    case (Value_token v)
    from parse_token_value [OF Cons.prems(1) this Cons.prems(2)] obtain p' where
      s: "parse_token (p, cur, opt) arg = (S_OK, p', cur, opt)" "parser_ok p'"
      and l: "lookup_switch p' = (lookup_switch p)((opt, cur) \<mapsto> vals @ [v])" by blast
    have d: "dom (lookup_switch p') = dom (lookup_switch p)" using l Cons.prems(2) by auto
    have lc: "lookup_switch p' (opt, cur) = Some (vals @ [v])" using l by simp
    have e: "(lookup_switch p')((opt, cur) \<mapsto> x) = (lookup_switch p)((opt, cur) \<mapsto> x)" for x
      using l by simp
    from Cons.IH [OF s(2) lc] show ?thesis
      unfolding d e by (auto simp: Let_def Value_token s split: if_splits)
  next
    case (Switch_token opt' n)
    note st = parse_token_switch [OF Cons.prems(1) this, of cur opt]
    show ?thesis
    proof (cases "lookup_switch p (opt', n)")
      case None
      with st obtain p' where s: "parse_token (p, cur, opt) arg = (S_OK, p', n, opt')" "parser_ok p'"
        and l: "lookup_switch p' = (lookup_switch p)((opt', n) \<mapsto> [])" by auto
      have lc: "lookup_switch p' (opt', n) = Some []" using l by simp
      have d: "dom (lookup_switch p') = insert (opt', n) (dom (lookup_switch p))" using l by auto
      have k: "(opt', n) \<notin> dom (lookup_switch p)" using None by auto
      have c: "distinct (map fst (switch_groups ?ts))
            \<and> fst ` set (switch_groups ?ts) \<inter> dom (lookup_switch p') = {} \<longleftrightarrow>
          distinct (map fst (switch_groups (map cmd_token (arg # args))))
            \<and> fst ` set (switch_groups (map cmd_token (arg # args))) \<inter> dom (lookup_switch p) = {}"
        using k unfolding d by (auto simp: Switch_token)
      have u: "(lookup_switch p)((opt, cur) \<mapsto> vals) = lookup_switch p"
        using Cons.prems(2) by (rule map_upd_triv)
      show ?thesis
        using Cons.IH [OF s(2) lc] unfolding Let_def c
        by (auto simp: Switch_token s u l map_add_key split: if_splits)
    next
      case (Some y)
      with st show ?thesis
        by (cases "parse_token (p, cur, opt) arg") (auto simp: Let_def Switch_token split: if_splits)
    qed
  qed
qed


lemma parse_tokens_from_reset:
  assumes "parser_ok p" "lookup_switch p = Map.empty"
  shows "let ts = map cmd_token args
         in if well_formed_tokens ts
            then \<exists>p'. parse_tokens (p, [], False) args = (S_OK, p') \<and> parser_ok p'
                   \<and> lookup_switch p' = map_of (switch_groups ts)
            else fst (parse_tokens (p, [], False) args) = E_INVALIDARG"
proof (cases args)
  case Nil
  with assms show ?thesis by (simp add: well_formed_tokens_def)
next
  case (Cons arg rest)
  let ?ts = "map cmd_token rest"
  show ?thesis
  proof (cases "cmd_token arg")
    case (Value_token v)
    then have "\<not> IsSwitch (Trim '' '' arg)" "\<not> IsOptionalSwitch (Trim '' '' arg)"
      by (auto simp: cmd_token_def Let_def split: if_splits)
    then show ?thesis
      by (simp add: Cons Let_def Value_token well_formed_tokens_def parse_token_def AddSwitchArgument_def
          Args_AddSwitchArgument_def)
  next
    case (Switch_token opt n)
    from parse_token_switch [OF assms(1) this] assms(2) obtain p' where
      s: "parse_token (p, [], False) arg = (S_OK, p', n, opt)" "parser_ok p'"
      and l: "lookup_switch p' = [(opt, n) \<mapsto> []]" by fastforce
    from parse_tokens_switches [OF s(2), of opt n "[]" rest] l show ?thesis
      by (auto simp: Cons Let_def Switch_token s well_formed_tokens_def map_add_key split: if_splits)
  qed
qed

lemma Parser_Reset_ok: "parser_ok (Parser_Reset p)" "lookup_switch (Parser_Reset p) = Map.empty"
  by (auto simp: parser_ok_def args_ok_def Parser_Reset_def Args_Reset_def smap_ok_def smap_keys_def
      lookup_switch_def args_at_def)

text \<open>C22. Parsing a command line. Whatever the parser held before, \<open>ParseFromArgv\<close> succeeds exactly
  when the first argument after the program name is a switch and no switch is repeated (an
  optional switch of a rule and a plain one do not clash); then every switch is stored in lower
  case with exactly the values that follow it, in order, and nothing else is stored. Any other
  command line is refused with E_INVALIDARG.\<close>

theorem ParseFromArgv_spec:
  "fst (ParseFromArgv p argv) = (if argv \<noteq> [] \<and> well_formed_tokens (map cmd_token (tl argv)) then S_OK else E_INVALIDARG)
   \<and> (SUCCEEDED (fst (ParseFromArgv p argv)) \<longrightarrow>
        parser_ok (snd (ParseFromArgv p argv))
        \<and> (\<forall>k. lookup_switch (snd (ParseFromArgv p argv)) k = map_of (switch_groups (map cmd_token (tl argv))) k))"
proof (cases "length argv \<le> 1")
  case True
  then show ?thesis
    using Parser_Reset_ok [of p]
    by (cases argv) (auto simp: ParseFromArgv_def Let_def well_formed_tokens_def)
next
  case False
  then have "ParseFromArgv p argv = parse_tokens (Parser_Reset p, [], False) (tl argv)"
    by (cases argv) (auto simp: ParseFromArgv_def Let_def)
  moreover have "argv \<noteq> []" using False by auto
  ultimately show ?thesis
    using parse_tokens_from_reset [OF Parser_Reset_ok, of "tl argv" p]
    by (auto simp: Let_def split: if_splits)
qed

theorem ParseFromArgv_spec_witness:
  "let r = ParseFromArgv new_parser [''gu.exe'', ''/Install'', ''x'', ''-silent'']
   in SUCCEEDED (fst r) \<and> lookup_switch (snd r) (False, ''install'') = Some [''x'']
      \<and> lookup_switch (snd r) (False, ''silent'') = Some [] \<and> lookup_switch (snd r) (False, ''x'') = None"
proof -
  have t: "cmd_token ''/Install'' = Switch_token False ''install''" "cmd_token ''x'' = Value_token ''x''"
    "cmd_token ''-silent'' = Switch_token False ''silent''"
    by code_simp+
  show ?thesis
    using ParseFromArgv_spec [of new_parser "[''gu.exe'', ''/Install'', ''x'', ''-silent'']"]
    by (simp add: t well_formed_tokens_def Let_def)
qed

section \<open>What the validator accepts\<close>

definition counts_match :: "CommandLineParser \<Rightarrow> ScenarioParameter \<Rightarrow> bool" where
  "counts_match p sp \<longleftrightarrow>
     (case lookup_switch p (False, switch_name sp) of
        None \<Rightarrow> False
      | Some vals \<Rightarrow> length vals = num_required_parameters sp)"

definition switch_names :: "CommandLineParser \<Rightarrow> string list" where
  "switch_names p = smap_keys (switch_arguments (required_args p))"

text \<open>A command line fits a scenario if it has every required switch and nothing but required
  and optional switches, each with the right number of values.\<close>

definition accepts :: "CommandLineParser \<Rightarrow> ScenarioParameters \<Rightarrow> bool" where
  "accepts p sc \<longleftrightarrow>
     list_all (counts_match p) (required sc)
     \<and> list_all (\<lambda>n. list_ex (\<lambda>sp. switch_name sp = n \<and> counts_match p sp) (required sc @ optional sc))
         (switch_names p)"

definition scenario_ok :: "ScenarioParameters \<Rightarrow> bool" where
  "scenario_ok sc \<longleftrightarrow>
     distinct (map switch_name (required sc @ optional sc))
     \<and> list_all (\<lambda>sp. MakeLower (switch_name sp) = switch_name sp) (required sc @ optional sc)"

lemma switch_names_lookup:
  "parser_ok p \<Longrightarrow> n \<in> set (switch_names p) \<longleftrightarrow> lookup_switch p (False, n) \<noteq> None"
  using smap.keys_find [of "switch_arguments (required_args p)" n]
  by (simp add: switch_names_def lookup_switch_def args_at_def parser_ok_def args_ok_def)

lemma switch_names_distinct: "parser_ok p \<Longrightarrow> distinct (switch_names p)"
  using smap.keys_distinct [of "switch_arguments (required_args p)"] by (simp add: switch_names_def parser_ok_def args_ok_def)

lemma GetSwitchCount_names: "GetSwitchCount p = length (switch_names p)"
  by (simp add: GetSwitchCount_def Args_GetSwitchCount_def switch_names_def smap_keys_def)

lemma HasSwitch_names:
  "parser_ok p \<Longrightarrow> MakeLower n = n \<Longrightarrow> HasSwitch p n \<longleftrightarrow> n \<in> set (switch_names p)"
  by (simp add: switch_names_lookup HasSwitch_def Args_HasSwitch_def lookup_switch_def args_at_def)

lemma GetSwitchArgumentCount_lookup:
  "MakeLower n = n \<Longrightarrow> GetSwitchArgumentCount p n =
     (case lookup_switch p (False, n) of None \<Rightarrow> Inl E_INVALIDARG | Some vals \<Rightarrow> Inr (length vals))"
  by (simp add: GetSwitchArgumentCount_def Args_GetSwitchArgumentCount_def lookup_switch_def args_at_def)

lemmas parser_queries = HasSwitch_names GetSwitchArgumentCount_lookup switch_names_lookup counts_match_def

lemma required_match_iff:
  "parser_ok p \<Longrightarrow> list_all (\<lambda>sp. MakeLower (switch_name sp) = switch_name sp) sps \<Longrightarrow>
     required_match p sps \<longleftrightarrow> list_all (counts_match p) sps"
  by (induction sps) (auto simp: parser_queries split: option.splits)

lemma optional_match_iff:
  assumes "parser_ok p" "list_all (\<lambda>sp. MakeLower (switch_name sp) = switch_name sp) sps"
    "distinct (map switch_name sps)" "S \<subseteq> set (switch_names p)"
    "switch_name ` set sps \<inter> set (switch_names p) \<subseteq> S"
  shows "optional_match p sps (card S) \<longleftrightarrow>
           (\<forall>n \<in> S. \<exists>sp \<in> set sps. switch_name sp = n \<and> counts_match p sp)"
  using assms
proof (induction sps arbitrary: S)
  case Nil
  then have "finite S" using finite_subset by blast
  then show ?case by auto
next
  case (Cons sp sps)
  have f: "finite S" using Cons.prems(4) finite_subset by blast
  show ?case
  proof (cases "S = {}")
    case False
    then have c: "card S \<noteq> 0" using f by simp
    show ?thesis
    proof (cases "switch_name sp \<in> set (switch_names p)")
      case True
      then have m: "switch_name sp \<in> S" using Cons.prems(5) by auto
      obtain vals where v: "lookup_switch p (False, switch_name sp) = Some vals"
        using True Cons.prems(1) by (auto simp: switch_names_lookup)
      have "optional_match p sps (card (S - {switch_name sp})) \<longleftrightarrow>
          (\<forall>n \<in> S - {switch_name sp}. \<exists>sp \<in> set sps. switch_name sp = n \<and> counts_match p sp)"
        using Cons.prems by (intro Cons.IH) (fastforce simp: image_iff)+
      then have "optional_match p (sp # sps) (card S) \<longleftrightarrow> counts_match p sp \<and>
          (\<forall>n \<in> S - {switch_name sp}. \<exists>sp \<in> set sps. switch_name sp = n \<and> counts_match p sp)"
        using c True Cons.prems(1,2) v m f
        by (simp add: HasSwitch_names GetSwitchArgumentCount_lookup counts_match_def)
      also have "\<dots> \<longleftrightarrow> (\<forall>n \<in> S. \<exists>sp \<in> set (sp # sps). switch_name sp = n \<and> counts_match p sp)"
        using m Cons.prems(3) by (auto simp: image_iff) metis+
      finally show ?thesis .
    next
      case False
      have "optional_match p sps (card S) \<longleftrightarrow>
          (\<forall>n \<in> S. \<exists>sp \<in> set sps. switch_name sp = n \<and> counts_match p sp)"
        using Cons.prems by (intro Cons.IH) auto
      moreover have "switch_name sp \<notin> S" using False Cons.prems(4) by auto
      ultimately show ?thesis
        using False c Cons.prems(1,2) by (auto simp: HasSwitch_names)
    qed
  qed simp
qed


lemma DoesScenarioMatch_iff:
  assumes ok: "parser_ok p" and sc: "scenario_ok sc" and len: "length (required sc) \<le> GetSwitchCount p"
  shows "DoesScenarioMatch p sc \<longleftrightarrow> accepts p sc"
proof -
  let ?R = "switch_name ` set (required sc)" and ?K = "set (switch_names p)"
  have low: "list_all (\<lambda>sp. MakeLower (switch_name sp) = switch_name sp) (required sc)"
    "list_all (\<lambda>sp. MakeLower (switch_name sp) = switch_name sp) (optional sc)"
    and d: "distinct (map switch_name (required sc))" "distinct (map switch_name (optional sc))"
    "?R \<inter> switch_name ` set (optional sc) = {}"
    using sc by (auto simp: scenario_ok_def)
  show ?thesis
  proof (cases "list_all (counts_match p) (required sc)")
    case True
    then have sub: "?R \<subseteq> ?K"
      using ok by (auto simp: list_all_iff counts_match_def switch_names_lookup split: option.splits)
    have "card (?K - ?R) = GetSwitchCount p - length (required sc)"
      using sub d(1) switch_names_distinct [OF ok]
      by (simp add: card_Diff_subset GetSwitchCount_names distinct_card flip: set_map)
    then have "optional_match p (optional sc) (GetSwitchCount p - length (required sc)) \<longleftrightarrow>
        (\<forall>n \<in> ?K - ?R. \<exists>sp \<in> set (optional sc). switch_name sp = n \<and> counts_match p sp)"
      using optional_match_iff [OF ok low(2) d(2), of "?K - ?R"] d(3) by auto
    also have "\<dots> \<longleftrightarrow> (\<forall>n \<in> ?K. \<exists>sp \<in> set (required sc) \<union> set (optional sc). switch_name sp = n \<and> counts_match p sp)"
      using True by (fastforce simp: list_all_iff)
    finally show ?thesis
      using True ok low(1)
      by (simp add: DoesScenarioMatch_def accepts_def required_match_iff list_all_iff list_ex_iff)
  next
    case False
    then show ?thesis
      using ok low(1) by (simp add: DoesScenarioMatch_def accepts_def required_match_iff)
  qed
qed

lemma accepts_counts:
  assumes ok: "parser_ok p" and sc: "scenario_ok sc" and a: "accepts p sc"
  shows "length (required sc) \<le> GetSwitchCount p"
    "GetSwitchCount p \<le> length (required sc) + length (optional sc)"
proof -
  let ?names = "\<lambda>sps. set (map switch_name sps)"
  have "?names (required sc) \<subseteq> set (switch_names p)"
    using a ok by (auto simp: accepts_def list_all_iff counts_match_def switch_names_lookup split: option.splits)
  then have "card (?names (required sc)) \<le> card (set (switch_names p))" by (simp add: card_mono)
  moreover have "card (?names (required sc)) = length (required sc)"
    using sc by (metis distinct_append distinct_card length_map map_append scenario_ok_def)
  ultimately show "length (required sc) \<le> GetSwitchCount p"
    using switch_names_distinct [OF ok] by (simp add: GetSwitchCount_names distinct_card)
  have "set (switch_names p) \<subseteq> ?names (required sc @ optional sc)"
    using a by (auto simp: accepts_def list_all_iff list_ex_iff)
  then have "card (set (switch_names p)) \<le> card (?names (required sc @ optional sc))"
    by (intro card_mono) auto
  also have "\<dots> \<le> length (required sc @ optional sc)" by (metis card_length length_map)
  finally show "GetSwitchCount p \<le> length (required sc) + length (optional sc)"
    using switch_names_distinct [OF ok] by (simp add: GetSwitchCount_names distinct_card)
qed

lemma validate_scenarios_find:
  assumes "parser_ok p" "list_all (scenario_ok \<circ> snd) scs"
  shows "validate_scenarios p scs =
           (case List.find (\<lambda>(name, sc). accepts p sc) scs of
              None \<Rightarrow> Inl (itf_error 0xC01)
            | Some (name, sc) \<Rightarrow> Inr name)"
  using assms(2)
proof (induction scs)
  case (Cons s scs)
  obtain name sc where s: "s = (name, sc)" by (cases s)
  have "scenario_ok sc" using Cons s by simp
  note m = DoesScenarioMatch_iff [OF assms(1) this] accepts_counts [OF assms(1) this]
  show ?case using m Cons by (auto simp: s)
qed simp

text \<open>C23. Validation. \<open>Validate\<close> returns the first scenario, in the order of the scenario names, that
  the command line fits: it has all the required switches, only required or optional ones,
  and each with the declared number of values. If the command line fits none, the result is
  the error for an unmatched command line. Counting the switches first and stopping the scan
  of the optional parameters early never changes the answer. The scenarios must have distinct switch names in
  lower case.\<close>

theorem Validate_spec:
  assumes "parser_ok p" "list_all (scenario_ok \<circ> snd) (scenarios v)"
  shows "Validate v p =
           (case List.find (\<lambda>(name, sc). accepts p sc) (scenarios v) of
              None \<Rightarrow> Inl (itf_error 0xC01)
            | Some (name, sc) \<Rightarrow> Inr name)"
  unfolding Validate_def using assms by (rule validate_scenarios_find)

definition sample_parser :: CommandLineParser where
  "sample_parser = \<lparr>required_args = \<lparr>switch_arguments = [(''install'', [''x'']), (''silent'', [])]\<rparr>,
                    optional_args = \<lparr>switch_arguments = []\<rparr>\<rparr>"

definition sample_validator :: CommandLineValidator where
  "sample_validator = \<lparr>scenario_sequence_number = 2,
     scenarios = [(''scenario_1'', \<lparr>required = [\<lparr>switch_name = ''c'', num_required_parameters = 0\<rparr>], optional = []\<rparr>),
                  (''scenario_2'', \<lparr>required = [\<lparr>switch_name = ''install'', num_required_parameters = 1\<rparr>],
                                    optional = [\<lparr>switch_name = ''silent'', num_required_parameters = 0\<rparr>]\<rparr>)]\<rparr>"

theorem Validate_spec_witness: "Validate sample_validator sample_parser = Inr ''scenario_2''"
proof -
  have "parser_ok sample_parser" "list_all (scenario_ok \<circ> snd) (scenarios sample_validator)"
    by code_simp+
  from Validate_spec [OF this] show ?thesis
    by (simp add: sample_parser_def sample_validator_def accepts_def counts_match_def switch_names_def
        lookup_switch_def args_at_def smap_keys_def)
qed

section \<open>What a rule creates\<close>

definition rule_parameters :: "CommandLineParserArgs \<Rightarrow> ScenarioParameter list" where
  "rule_parameters a =
     map (\<lambda>(n, vals). \<lparr>switch_name = n, num_required_parameters = length vals\<rparr>) (switch_arguments a)"

lemma next_scenario_fresh:
  "smap_find m (scenario_name (next_scenario m n)) = None \<and> n < next_scenario m n"
proof (induction m n rule: next_scenario.induct)
  case (1 m n)
  then show ?case
    by (cases "smap_find m (scenario_name (Suc n)) = None") (auto simp: next_scenario.simps [of m n])
qed

text \<open>Both loops append one parameter per switch of the rule; \<open>upd\<close> is the field they extend.\<close>

lemma add_switches_all:
  assumes a: "args_ok a"
    and add: "\<And>v sw n sc. smap_find (scenarios v) name = Some sc \<Longrightarrow>
      add v name sw n =
        (S_OK, v\<lparr>scenarios := smap_put name (upd [\<lparr>switch_name = sw, num_required_parameters = n\<rparr>] sc) (scenarios v)\<rparr>)"
    and upd: "\<And>xs ys sc. upd ys (upd xs sc) = upd (xs @ ys) sc" "\<And>sc. upd [] sc = sc"
    and ok: "smap_ok (scenarios v)" "smap_find (scenarios v) name = Some sc"
    and len: "i \<le> length (switch_arguments a)"
  shows "\<exists>v'. add_switches (Args_GetSwitchNameAtIndex a) (Args_GetSwitchArgumentCount a) add name
             [i..<length (switch_arguments a)] v = (S_OK, v') \<and> smap_ok (scenarios v')
           \<and> smap_find (scenarios v') = (smap_find (scenarios v))(name \<mapsto> upd (drop i (rule_parameters a)) sc)
           \<and> scenario_sequence_number v' = scenario_sequence_number v"
  using len ok
proof (induction "length (switch_arguments a) - i" arbitrary: i v sc)
  case 0
  then show ?case by (auto simp: rule_parameters_def upd fun_eq_iff)
next
  case (Suc k)
  let ?m = "switch_arguments a"
  have i: "i < length ?m" using Suc by simp
  obtain n vals where e: "?m ! i = (n, vals)" by (cases "?m ! i")
  have "(n, vals) \<in> set ?m" using i e by (metis nth_mem)
  then have l: "MakeLower n = n" and f: "smap_find ?m n = Some vals"
    using a by (auto simp: args_ok_def smap_keys_def list_all_iff smap_find_map_of smap_ok_def strict_sorted_iff
        intro!: map_of_is_SomeI)
  let ?sp = "\<lparr>switch_name = n, num_required_parameters = length vals\<rparr>"
  let ?v = "v\<lparr>scenarios := smap_put name (upd [?sp] sc) (scenarios v)\<rparr>"
  have d: "drop i (rule_parameters a) = ?sp # drop (Suc i) (rule_parameters a)"
    using i e by (simp add: rule_parameters_def Cons_nth_drop_Suc [symmetric])
  have s: "smap_ok (scenarios ?v)" "smap_find (scenarios ?v) name = Some (upd [?sp] sc)"
    using Suc.prems by (simp_all add: map_laws)
  have "k = length ?m - Suc i" "Suc i \<le> length ?m" using Suc.hyps(2) i by simp_all
  from Suc.hyps(1) [OF this s] obtain v' where
    v': "add_switches (Args_GetSwitchNameAtIndex a) (Args_GetSwitchArgumentCount a) add name
          [Suc i..<length ?m] ?v = (S_OK, v')" "smap_ok (scenarios v')"
      "smap_find (scenarios v') = (smap_find (scenarios ?v))(name \<mapsto> upd (drop (Suc i) (rule_parameters a)) (upd [?sp] sc))"
      "scenario_sequence_number v' = scenario_sequence_number v"
    by auto
  then show ?case
    using i e l f Suc.prems(2,3) add [OF Suc.prems(3)]
    by (simp add: upt_conv_Cons Args_GetSwitchNameAtIndex_def Args_GetSwitchArgumentCount_def d upd map_laws fun_eq_iff)
qed


lemma add_required_all:
  assumes "args_ok (required_args p)" "smap_ok (scenarios v)"
    "smap_find (scenarios v) name = Some \<lparr>required = [], optional = opts\<rparr>"
  shows "\<exists>v'. add_switches (GetSwitchNameAtIndex p) (GetSwitchArgumentCount p) AddScenarioParameter name
             [0..<GetSwitchCount p] v = (S_OK, v') \<and> smap_ok (scenarios v')
           \<and> smap_find (scenarios v') = (smap_find (scenarios v))(name \<mapsto>
               \<lparr>required = rule_parameters (required_args p), optional = opts\<rparr>)
           \<and> scenario_sequence_number v' = scenario_sequence_number v"
  using add_switches_all [OF assms(1), of name AddScenarioParameter "\<lambda>xs sc. sc\<lparr>required := required sc @ xs\<rparr>" v _ 0]
    assms(2,3)
  by (force simp: AddScenarioParameter_def GetSwitchNameAtIndex_def [abs_def] GetSwitchArgumentCount_def [abs_def]
      GetSwitchCount_def Args_GetSwitchCount_def)

lemma add_optional_all:
  assumes "args_ok (optional_args p)" "smap_ok (scenarios v)"
    "smap_find (scenarios v) name = Some \<lparr>required = reqs, optional = []\<rparr>"
  shows "\<exists>v'. add_switches (GetOptionalSwitchNameAtIndex p) (GetOptionalSwitchArgumentCount p)
             AddOptionalScenarioParameter name [0..<GetOptionalSwitchCount p] v = (S_OK, v') \<and> smap_ok (scenarios v')
           \<and> smap_find (scenarios v') = (smap_find (scenarios v))(name \<mapsto>
               \<lparr>required = reqs, optional = rule_parameters (optional_args p)\<rparr>)
           \<and> scenario_sequence_number v' = scenario_sequence_number v"
  using add_switches_all [OF assms(1), of name AddOptionalScenarioParameter "\<lambda>xs sc. sc\<lparr>optional := optional sc @ xs\<rparr>" v _ 0]
    assms(2,3)
  by (force simp: AddOptionalScenarioParameter_def GetOptionalSwitchNameAtIndex_def [abs_def]
      GetOptionalSwitchArgumentCount_def [abs_def] GetOptionalSwitchCount_def Args_GetSwitchCount_def)

lemma new_parser_reset: "Parser_Reset new_parser = new_parser"
  by (simp add: Parser_Reset_def new_parser_def Args_Reset_def)

lemma ParseFromArgv_ok:
  assumes "ParseFromArgv p argv = (hr, p')" "SUCCEEDED hr"
  shows "parser_ok p'"
proof (cases "length argv \<le> 1")
  case True
  with assms show ?thesis
    using Parser_Reset_ok(1) [of p] by (cases argv) (auto simp: ParseFromArgv_def Let_def)
next
  case False
  with assms have "parse_tokens (Parser_Reset p, [], False) (tl argv) = (hr, p')"
    by (auto simp: ParseFromArgv_def Let_def split: if_splits)
  with assms(2) show ?thesis
    using parse_tokens_from_reset [OF Parser_Reset_ok, of "tl argv" p]
    by (auto simp: Let_def split: if_splits)
qed

lemma ParseFromString_ok:
  assumes "ParseFromString argv_of path new_parser rule = (hr, p)" "SUCCEEDED hr"
  shows "parser_ok p"
  using assms Parser_Reset_ok(1) [of new_parser] ParseFromArgv_ok
  by (fastforce simp: ParseFromString_def Let_def new_parser_reset split: sum.splits)

text \<open>Creating a rule. If the text of the rule parses, \<open>CreateScenarioFromCmdLine\<close> succeeds:
  it registers one scenario under a name that was not in use, whose required and optional
  parameters are the plain and the bracketed switches of the rule in name order, each with
  its number of values; it keeps every other scenario and moves the counter forward. If the
  text does not parse, its error is returned and nothing changes.\<close>

theorem CreateScenarioFromCmdLine_spec:
  assumes ok: "smap_ok (scenarios v)"
    and p: "ParseFromString argv_of path new_parser rule = (hr, p)"
  shows "if FAILED hr then CreateScenarioFromCmdLine argv_of path v rule = (Inl hr, v)
         else \<exists>name v'. CreateScenarioFromCmdLine argv_of path v rule = (Inr name, v')
           \<and> smap_ok (scenarios v') \<and> smap_find (scenarios v) name = None
           \<and> (\<forall>k. smap_find (scenarios v') k =
                (if k = name then Some \<lparr>required = rule_parameters (required_args p),
                                        optional = rule_parameters (optional_args p)\<rparr>
                 else smap_find (scenarios v) k))
           \<and> scenario_sequence_number v < scenario_sequence_number v'"
proof (cases "FAILED hr")
  case True
  then show ?thesis by (simp add: CreateScenarioFromCmdLine_def p)
next
  case False
  then have a: "args_ok (required_args p)" "args_ok (optional_args p)"
    using ParseFromString_ok [OF p] by (auto simp: parser_ok_def)
  let ?seq = "next_scenario (scenarios v) (scenario_sequence_number v)"
  let ?name = "scenario_name ?seq"
  let ?v1 = "v\<lparr>scenario_sequence_number := ?seq,
                scenarios := smap_put ?name \<lparr>required = [], optional = []\<rparr> (scenarios v)\<rparr>"
  note fresh = next_scenario_fresh [of "scenarios v" "scenario_sequence_number v"]
  have s1: "smap_ok (scenarios ?v1)" "smap_find (scenarios ?v1) ?name = Some \<lparr>required = [], optional = []\<rparr>"
    using ok by (simp_all add: map_laws)
  from add_required_all [OF a(1) s1] obtain v2 where
    v2: "add_switches (GetSwitchNameAtIndex p) (GetSwitchArgumentCount p) AddScenarioParameter ?name
        [0..<GetSwitchCount p] ?v1 = (S_OK, v2)" "smap_ok (scenarios v2)"
      "smap_find (scenarios v2) = (smap_find (scenarios ?v1))(?name \<mapsto>
         \<lparr>required = rule_parameters (required_args p), optional = []\<rparr>)"
      "scenario_sequence_number v2 = ?seq" by auto
  then have s2: "smap_find (scenarios v2) ?name = Some \<lparr>required = rule_parameters (required_args p), optional = []\<rparr>"
    by simp
  from add_optional_all [OF a(2) v2(2) s2] show ?thesis
    using False fresh v2 ok
    by (auto simp: CreateScenarioFromCmdLine_def p Let_def CreateScenario_def map_laws)
qed


definition sample_argv_of :: "string \<Rightarrow> hresult + string list" where
  "sample_argv_of s = Inr (Tokens s '' '')"

theorem CreateScenarioFromCmdLine_spec_witness:
  "\<exists>name v'. CreateScenarioFromCmdLine sample_argv_of ''gu.exe'' sample_validator ''gu.exe /ua [/machine'' = (Inr name, v')
     \<and> smap_find (scenarios sample_validator) name = None
     \<and> smap_find (scenarios v') name = Some
         \<lparr>required = [\<lparr>switch_name = ''ua'', num_required_parameters = 0\<rparr>],
          optional = [\<lparr>switch_name = ''machine'', num_required_parameters = 0\<rparr>]\<rparr>"
proof -
  have "smap_ok (scenarios sample_validator)"
    and p: "ParseFromString sample_argv_of ''gu.exe'' new_parser ''gu.exe /ua [/machine'' =
      (S_OK, \<lparr>required_args = \<lparr>switch_arguments = [(''ua'', [])]\<rparr>,
              optional_args = \<lparr>switch_arguments = [(''machine'', [])]\<rparr>\<rparr>)"
    by code_simp+
  from CreateScenarioFromCmdLine_spec [OF this] show ?thesis
    by (fastforce simp: rule_parameters_def)
qed

end
