(* ===== verification/Group_Policy.thy ===== *)
theory Group_Policy
  imports Base_Strings
begin

text \<open>
  Policies (\<open>common/config_manager.cc\<close>): the two policy managers, the aggregation of their values
  (\<open>PolicyValue\<close>) and the decisions taken from the aggregate, among them whether an app may be
  installed or updated and whether updates are suppressed at a time of day.

  A GUID is its canonical text, so \<open>GuidToString\<close> is the identity. Reading the policies from the
  registry and from device management is outside the model: the policies are the two
  \<open>CachedOmahaPolicy\<close> values. \<open>PolicyValue\<close> does not initialise its value, so what the memory
  held is an argument of the operations that aggregate numbers and flags.
\<close>

type_synonym guid = string

definition kGoopdateGuid :: guid where
  "kGoopdateGuid = ''{B131C935-9BE6-41DA-9599-1F776BEB8019}''"

definition kPolicyDisabled :: "32 word" where "kPolicyDisabled = 0"
definition kPolicyEnabled :: "32 word" where "kPolicyEnabled = 1"
definition kPolicyManualUpdatesOnly :: "32 word" where "kPolicyManualUpdatesOnly = 2"
definition kPolicyAutomaticUpdatesOnly :: "32 word" where "kPolicyAutomaticUpdatesOnly = 3"
definition kPolicyEnabledMachineOnly :: "32 word" where "kPolicyEnabledMachineOnly = 4"
definition kPolicyForceInstallMachine :: "32 word" where "kPolicyForceInstallMachine = 5"
definition kPolicyForceInstallUser :: "32 word" where "kPolicyForceInstallUser = 6"

lemmas policy_constants = kPolicyDisabled_def kPolicyEnabled_def kPolicyManualUpdatesOnly_def
  kPolicyAutomaticUpdatesOnly_def kPolicyEnabledMachineOnly_def kPolicyForceInstallMachine_def
  kPolicyForceInstallUser_def

section \<open>Policy managers\<close>

record UpdatesSuppressed =
  start_hour :: int
  start_minute :: int
  duration_min :: int

record ApplicationSettings =
  as_install :: int
  as_update :: int
  target_channel :: string
  target_version_prefix :: string
  rollback_to_target_version :: int

record CachedOmahaPolicy =
  is_managed :: bool
  is_initialized :: bool
  auto_update_check_period_minutes :: int
  download_preference :: string
  cache_size_limit :: int
  cache_life_limit :: int
  updates_suppressed :: UpdatesSuppressed
  proxy_mode :: string
  proxy_server :: string
  proxy_pac_url :: string
  install_default :: int
  update_default :: int
  application_settings :: "(guid \<times> ApplicationSettings) list"

record OmahaPolicyManager =
  pm_source :: string
  pm_policy :: CachedOmahaPolicy

definition PM_IsManaged :: "OmahaPolicyManager \<Rightarrow> bool" where
  "PM_IsManaged m = is_managed (pm_policy m)"

definition PM_GetLastCheckPeriodMinutes :: "OmahaPolicyManager \<Rightarrow> 32 word option" where
  "PM_GetLastCheckPeriodMinutes m =
     (if \<not> is_initialized (pm_policy m) then None
      else if auto_update_check_period_minutes (pm_policy m) = -1 then None
      else Some (word_of_int (auto_update_check_period_minutes (pm_policy m))))"

definition PM_GetUpdatesSuppressedTimes ::
  "OmahaPolicyManager \<Rightarrow> (32 word \<times> 32 word \<times> 32 word) option" where
  "PM_GetUpdatesSuppressedTimes m =
     (let s = updates_suppressed (pm_policy m)
      in if \<not> is_initialized (pm_policy m) then None
         else if start_hour s = -1 \<or> start_minute s = -1 \<or> duration_min s = -1 then None
         else Some (word_of_int (start_hour s), word_of_int (start_minute s), word_of_int (duration_min s)))"

definition PM_GetDownloadPreferenceGroupPolicy :: "OmahaPolicyManager \<Rightarrow> string option" where
  "PM_GetDownloadPreferenceGroupPolicy m =
     (if \<not> is_initialized (pm_policy m) \<or> IsEmpty (download_preference (pm_policy m)) then None
      else Some (download_preference (pm_policy m)))"

definition PM_GetPackageCacheSizeLimitMBytes :: "OmahaPolicyManager \<Rightarrow> 32 word option" where
  "PM_GetPackageCacheSizeLimitMBytes m =
     (if \<not> is_initialized (pm_policy m) \<or> cache_size_limit (pm_policy m) = -1 then None
      else Some (word_of_int (cache_size_limit (pm_policy m))))"

definition PM_GetPackageCacheExpirationTimeDays :: "OmahaPolicyManager \<Rightarrow> 32 word option" where
  "PM_GetPackageCacheExpirationTimeDays m =
     (if \<not> is_initialized (pm_policy m) \<or> cache_life_limit (pm_policy m) = -1 then None
      else Some (word_of_int (cache_life_limit (pm_policy m))))"

definition PM_GetProxyMode :: "OmahaPolicyManager \<Rightarrow> string option" where
  "PM_GetProxyMode m =
     (if \<not> is_initialized (pm_policy m) \<or> IsEmpty (proxy_mode (pm_policy m)) then None
      else Some (proxy_mode (pm_policy m)))"

definition PM_GetProxyPacUrl :: "OmahaPolicyManager \<Rightarrow> string option" where
  "PM_GetProxyPacUrl m =
     (if \<not> is_initialized (pm_policy m) \<or> \<not> EqualNoCase (proxy_mode (pm_policy m)) ''pac_script''
         \<or> IsEmpty (proxy_pac_url (pm_policy m)) then None
      else Some (proxy_pac_url (pm_policy m)))"

definition PM_GetProxyServer :: "OmahaPolicyManager \<Rightarrow> string option" where
  "PM_GetProxyServer m =
     (if \<not> is_initialized (pm_policy m) \<or> \<not> EqualNoCase (proxy_mode (pm_policy m)) ''fixed_servers''
         \<or> IsEmpty (proxy_server (pm_policy m)) then None
      else Some (proxy_server (pm_policy m)))"

definition PM_GetForceInstallApps :: "bool \<Rightarrow> OmahaPolicyManager \<Rightarrow> string list option" where
  "PM_GetForceInstallApps is_machine m =
     (if \<not> is_initialized (pm_policy m) then None
      else let expected = (if is_machine then kPolicyForceInstallMachine else kPolicyForceInstallUser);
               app_ids = map fst (filter (\<lambda>(g, s). word_of_int (as_install s) = expected)
                                    (application_settings (pm_policy m)))
           in if app_ids \<noteq> [] then Some app_ids else None)"

definition PM_GetEffectivePolicyForAppInstalls :: "guid \<Rightarrow> OmahaPolicyManager \<Rightarrow> 32 word option" where
  "PM_GetEffectivePolicyForAppInstalls app_guid m =
     (if \<not> is_initialized (pm_policy m) then None
      else let use_default = (if install_default (pm_policy m) = -1 then None
                              else Some (word_of_int (install_default (pm_policy m))))
           in case map_of (application_settings (pm_policy m)) app_guid of
                Some s \<Rightarrow> if as_install s \<noteq> -1 then Some (word_of_int (as_install s)) else use_default
              | None \<Rightarrow> use_default)"

definition PM_GetEffectivePolicyForAppUpdates :: "guid \<Rightarrow> OmahaPolicyManager \<Rightarrow> 32 word option" where
  "PM_GetEffectivePolicyForAppUpdates app_guid m =
     (if \<not> is_initialized (pm_policy m) then None
      else let use_default = (if update_default (pm_policy m) = -1 then None
                              else Some (word_of_int (update_default (pm_policy m))))
           in case map_of (application_settings (pm_policy m)) app_guid of
                Some s \<Rightarrow> if as_update s \<noteq> -1 then Some (word_of_int (as_update s)) else use_default
              | None \<Rightarrow> use_default)"

definition PM_GetTargetChannel :: "guid \<Rightarrow> OmahaPolicyManager \<Rightarrow> string option" where
  "PM_GetTargetChannel app_guid m =
     (if \<not> is_initialized (pm_policy m) then None
      else case map_of (application_settings (pm_policy m)) app_guid of
             None \<Rightarrow> None
           | Some s \<Rightarrow> if IsEmpty (target_channel s) then None else Some (target_channel s))"

definition PM_GetTargetVersionPrefix :: "guid \<Rightarrow> OmahaPolicyManager \<Rightarrow> string option" where
  "PM_GetTargetVersionPrefix app_guid m =
     (if \<not> is_initialized (pm_policy m) then None
      else case map_of (application_settings (pm_policy m)) app_guid of
             None \<Rightarrow> None
           | Some s \<Rightarrow> if IsEmpty (target_version_prefix s) then None else Some (target_version_prefix s))"

definition PM_IsRollbackToTargetVersionAllowed :: "guid \<Rightarrow> OmahaPolicyManager \<Rightarrow> bool option" where
  "PM_IsRollbackToTargetVersionAllowed app_guid m =
     (if \<not> is_initialized (pm_policy m) then None
      else case map_of (application_settings (pm_policy m)) app_guid of
             None \<Rightarrow> None
           | Some s \<Rightarrow> if rollback_to_target_version s = -1 then None
                       else Some (rollback_to_target_version s \<noteq> 0))"

section \<open>Aggregation of the sources\<close>

record 'a PolicyValue =
  pv_source :: string
  pv_value :: 'a
  has_conflict :: bool
  conflict_source :: string
  conflict_value :: 'a

definition new_policy_value :: "'a \<Rightarrow> 'a PolicyValue" where
  "new_policy_value memory =
     \<lparr>pv_source = [], pv_value = memory, has_conflict = False, conflict_source = [], conflict_value = memory\<rparr>"

text \<open>\<open>GetValueString\<close> and \<open>GetConflictValueString\<close> of the instances of the template.\<close>

definition dword_string :: "32 word \<Rightarrow> string" where
  "dword_string w = decimal (unat w)"

definition bool_string :: "bool \<Rightarrow> string" where
  "bool_string b = (if b then ''true'' else ''false'')"

definition signed_string :: "32 word \<Rightarrow> string" where
  "signed_string w = (if sint w < 0 then ''-'' @ decimal (nat (- sint w)) else decimal (nat (sint w)))"

definition suppressed_string :: "32 word \<times> 32 word \<times> 32 word \<Rightarrow> string" where
  "suppressed_string t =
     (case t of (h, m, d) \<Rightarrow> signed_string h @ '', '' @ signed_string m @ '', '' @ signed_string d)"

definition minutes_string :: "32 word \<Rightarrow> string" where
  "minutes_string seconds = decimal (unat seconds div 60)"

fun app_ids_string :: "string list \<Rightarrow> string" where
  "app_ids_string [] = []"
| "app_ids_string [a] = a"
| "app_ids_string (a # b # ids) = a @ '';'' @ app_ids_string (b # ids)"

definition PolicyValue_Update ::
  "('a \<Rightarrow> string) \<Rightarrow> bool \<Rightarrow> string \<Rightarrow> 'a \<Rightarrow> 'a PolicyValue \<Rightarrow> 'a PolicyValue" where
  "PolicyValue_Update str managed source val v =
     (if managed \<and> IsEmpty (pv_source v) then v\<lparr>pv_source := source, pv_value := val\<rparr>
      else if IsEmpty (conflict_source v) then
        v\<lparr>conflict_source := source, conflict_value := val,
          has_conflict := (str (pv_value v) \<noteq> str val)\<rparr>
      else v)"

definition PolicyValue_UpdateFinal :: "'a \<Rightarrow> 'a PolicyValue \<Rightarrow> 'a PolicyValue" where
  "PolicyValue_UpdateFinal val v =
     (if IsEmpty (pv_source v) then v\<lparr>pv_source := ''Default'', pv_value := val\<rparr> else v)"

text \<open>The loop over \<open>policies_\<close> that every query has, on the sources that have a value.\<close>

fun policy_loop ::
  "(OmahaPolicyManager \<Rightarrow> 'a option) \<Rightarrow> ('a \<Rightarrow> string) \<Rightarrow> OmahaPolicyManager list
     \<Rightarrow> 'a PolicyValue \<Rightarrow> 'a PolicyValue" where
  "policy_loop get str [] v = v"
| "policy_loop get str (m # ms) v =
     policy_loop get str ms
       (case get m of
          None \<Rightarrow> v
        | Some val \<Rightarrow> PolicyValue_Update str (PM_IsManaged m) (pm_source m) val v)"

section \<open>ConfigManager\<close>

record ConfigManager =
  group_policy :: CachedOmahaPolicy
  dm_policy :: CachedOmahaPolicy
  are_cloud_policies_preferred :: bool

definition policies :: "ConfigManager \<Rightarrow> OmahaPolicyManager list" where
  "policies cm =
     (let group = \<lparr>pm_source = ''Group Policy'', pm_policy = group_policy cm\<rparr>;
          dm = \<lparr>pm_source = ''Device Management'', pm_policy = dm_policy cm\<rparr>
      in if are_cloud_policies_preferred cm then [dm, group] else [group, dm])"

definition GetEffectivePolicyForAppInstalls :: "32 word \<Rightarrow> ConfigManager \<Rightarrow> guid \<Rightarrow> 32 word PolicyValue" where
  "GetEffectivePolicyForAppInstalls memory cm app_guid =
     PolicyValue_UpdateFinal kPolicyEnabled
       (policy_loop (PM_GetEffectivePolicyForAppInstalls app_guid) dword_string (policies cm) (new_policy_value memory))"

definition GetEffectivePolicyForAppUpdates :: "32 word \<Rightarrow> ConfigManager \<Rightarrow> guid \<Rightarrow> 32 word PolicyValue" where
  "GetEffectivePolicyForAppUpdates memory cm app_guid =
     PolicyValue_UpdateFinal kPolicyEnabled
       (policy_loop (PM_GetEffectivePolicyForAppUpdates app_guid) dword_string (policies cm) (new_policy_value memory))"

definition GetTargetChannel :: "ConfigManager \<Rightarrow> guid \<Rightarrow> string" where
  "GetTargetChannel cm app_guid =
     pv_value (PolicyValue_UpdateFinal []
       (policy_loop (PM_GetTargetChannel app_guid) id (policies cm) (new_policy_value [])))"

definition GetTargetVersionPrefix :: "ConfigManager \<Rightarrow> guid \<Rightarrow> string" where
  "GetTargetVersionPrefix cm app_guid =
     pv_value (PolicyValue_UpdateFinal []
       (policy_loop (PM_GetTargetVersionPrefix app_guid) id (policies cm) (new_policy_value [])))"

definition IsRollbackToTargetVersionAllowed :: "bool \<Rightarrow> ConfigManager \<Rightarrow> guid \<Rightarrow> bool" where
  "IsRollbackToTargetVersionAllowed memory cm app_guid =
     pv_value (PolicyValue_UpdateFinal False
       (policy_loop (PM_IsRollbackToTargetVersionAllowed app_guid) bool_string (policies cm) (new_policy_value memory)))"

text \<open>The queries without a default fail when no managed source has a value.\<close>

definition managed_query ::
  "(OmahaPolicyManager \<Rightarrow> 'a option) \<Rightarrow> ('a \<Rightarrow> string) \<Rightarrow> 'a \<Rightarrow> ConfigManager \<Rightarrow> hresult + 'a" where
  "managed_query get str initial cm =
     (let v = policy_loop get str (policies cm) (new_policy_value initial)
      in if IsEmpty (pv_source v) then Inl E_FAIL else Inr (pv_value (PolicyValue_UpdateFinal initial v)))"

definition GetProxyMode :: "ConfigManager \<Rightarrow> hresult + string" where
  "GetProxyMode cm = managed_query PM_GetProxyMode id [] cm"

definition GetProxyPacUrl :: "ConfigManager \<Rightarrow> hresult + string" where
  "GetProxyPacUrl cm = managed_query PM_GetProxyPacUrl id [] cm"

definition GetProxyServer :: "ConfigManager \<Rightarrow> hresult + string" where
  "GetProxyServer cm = managed_query PM_GetProxyServer id [] cm"

definition GetForceInstallApps :: "bool \<Rightarrow> ConfigManager \<Rightarrow> hresult + string list" where
  "GetForceInstallApps is_machine cm = managed_query (PM_GetForceInstallApps is_machine) app_ids_string [] cm"

definition in_range :: "32 word \<Rightarrow> 32 word option \<Rightarrow> 32 word option" where
  "in_range limit r = (case r of None \<Rightarrow> None | Some w \<Rightarrow> if w \<le> limit \<and> 0 < w then Some w else None)"

definition GetPackageCacheSizeLimitMBytes :: "32 word \<Rightarrow> ConfigManager \<Rightarrow> 32 word" where
  "GetPackageCacheSizeLimitMBytes memory cm =
     pv_value (PolicyValue_UpdateFinal 500
       (policy_loop (in_range 5000 \<circ> PM_GetPackageCacheSizeLimitMBytes) dword_string (policies cm)
          (new_policy_value memory)))"

definition GetPackageCacheExpirationTimeDays :: "32 word \<Rightarrow> ConfigManager \<Rightarrow> 32 word" where
  "GetPackageCacheExpirationTimeDays memory cm =
     pv_value (PolicyValue_UpdateFinal 180
       (policy_loop (in_range 1800 \<circ> PM_GetPackageCacheExpirationTimeDays) dword_string (policies cm)
          (new_policy_value memory)))"

definition check_period_sec :: "32 word \<Rightarrow> 32 word" where
  "check_period_sec minutes =
     (if 2 ^ 31 - 1 < unat minutes * 60 then 0x7FFFFFFF else minutes * 60)"

text \<open>The result and whether the period is overridden. \<open>dev\<close> is the value of the developer registry
  override, if it is set.\<close>

definition GetLastCheckPeriodSec :: "32 word option \<Rightarrow> bool \<Rightarrow> ConfigManager \<Rightarrow> 32 word \<times> bool" where
  "GetLastCheckPeriodSec dev is_internal_user cm =
     (let v = (case dev of
                 Some sec \<Rightarrow>
                   PolicyValue_Update minutes_string True ''UpdateDev''
                     (if 0 < sec \<and> sec < 60 then 60 else if 0x7FFFFFFF < sec then 0x7FFFFFFF else sec)
                     (new_policy_value 0)
               | None \<Rightarrow>
                   policy_loop (map_option check_period_sec \<circ> PM_GetLastCheckPeriodMinutes) minutes_string
                     (policies cm) (new_policy_value 0));
          default = (if is_internal_user then 3540 else 17700)
      in (pv_value (PolicyValue_UpdateFinal default v), \<not> IsEmpty (pv_source v)))"

text \<open>The difference of an \<open>int\<close> and a \<open>DWORD\<close> is computed modulo 2^32 and then read as an \<open>int\<close>.
  The result is the aggregated window and whether the given local time lies in it.\<close>

definition GetUpdatesSuppressedTimes ::
  "32 word \<Rightarrow> 32 word \<Rightarrow> ConfigManager \<Rightarrow> hresult + (32 word \<times> 32 word \<times> 32 word) \<times> bool" where
  "GetUpdatesSuppressedTimes tm_hour tm_min cm =
     (case managed_query PM_GetUpdatesSuppressedTimes suppressed_string (0, 0, 0) cm of
        Inl hr \<Rightarrow> Inl hr
      | Inr (hour, minute, dur) \<Rightarrow>
          if 23 < hour \<or> 59 < minute \<or> 16 * 60 < dur then Inl E_UNEXPECTED
          else let diff = sint ((tm_hour - hour) * 60 + (tm_min - minute));
                   diff' = (if diff < 0 then diff + 24 * 60 else diff)
               in Inr ((hour, minute, dur), diff' < sint dur))"

definition AreUpdatesSuppressedNow :: "32 word \<Rightarrow> 32 word \<Rightarrow> ConfigManager \<Rightarrow> bool" where
  "AreUpdatesSuppressedNow tm_hour tm_min cm =
     (case GetUpdatesSuppressedTimes tm_hour tm_min cm of Inl _ \<Rightarrow> False | Inr (_, b) \<Rightarrow> b)"

definition CanInstallApp :: "32 word \<Rightarrow> ConfigManager \<Rightarrow> guid \<Rightarrow> bool \<Rightarrow> bool" where
  "CanInstallApp memory cm app_guid is_machine =
     (let policy = pv_value (GetEffectivePolicyForAppInstalls memory cm app_guid)
      in kPolicyDisabled \<noteq> policy \<and> (is_machine \<or> kPolicyEnabledMachineOnly \<noteq> policy))"

definition CanUpdateApp :: "32 word \<Rightarrow> ConfigManager \<Rightarrow> guid \<Rightarrow> bool \<Rightarrow> bool" where
  "CanUpdateApp memory cm app_guid is_manual =
     (if app_guid = kGoopdateGuid then True
      else let effective_policy = pv_value (GetEffectivePolicyForAppUpdates memory cm app_guid)
           in if kPolicyDisabled = effective_policy then False
              else if kPolicyManualUpdatesOnly = effective_policy \<and> \<not> is_manual then False
              else if kPolicyAutomaticUpdatesOnly = effective_policy \<and> is_manual then False
              else True)"

section \<open>What the aggregation returns\<close>

text \<open>The specification: the value of the first managed source that has one.\<close>

fun first_managed :: "(OmahaPolicyManager \<Rightarrow> 'a option) \<Rightarrow> OmahaPolicyManager list \<Rightarrow> 'a option" where
  "first_managed get [] = None"
| "first_managed get (m # ms) =
     (if PM_IsManaged m \<and> get m \<noteq> None then get m else first_managed get ms)"

lemma policy_loop_named:
  "pv_source v \<noteq> [] \<Longrightarrow> pv_source (policy_loop get str ms v) = pv_source v
     \<and> pv_value (policy_loop get str ms v) = pv_value v"
  by (induction ms arbitrary: v) (auto simp: PolicyValue_Update_def split: option.split)

text \<open>The contract between the queries and the list of managers: a manager has a name, which is
  what the aggregation tests to see whether a value is set.\<close>

locale policy_sources =
  fixes managers :: "'c \<Rightarrow> OmahaPolicyManager list"
  assumes named: "m \<in> set (managers c) \<Longrightarrow> pm_source m \<noteq> []"
begin

lemma loop_first_managed_list:
  assumes "\<And>m. m \<in> set ms \<Longrightarrow> pm_source m \<noteq> []" "pv_source v = []"
  shows "case first_managed get ms of
           None \<Rightarrow> pv_source (policy_loop get str ms v) = []
         | Some val \<Rightarrow> pv_source (policy_loop get str ms v) \<noteq> [] \<and> pv_value (policy_loop get str ms v) = val"
  using assms
proof (induction ms arbitrary: v)
  case (Cons m ms)
  show ?case
  proof (cases "get m")
    case None
    with Cons.IH [of v] Cons.prems show ?thesis by (auto split: option.splits)
  next
    case (Some val)
    show ?thesis
    proof (cases "PM_IsManaged m")
      case True
      then have "PolicyValue_Update str (PM_IsManaged m) (pm_source m) val v = v\<lparr>pv_source := pm_source m, pv_value := val\<rparr>"
        using Cons.prems by (simp add: PolicyValue_Update_def)
      with Some True Cons.prems(1) [of m] show ?thesis
        using policy_loop_named [of "v\<lparr>pv_source := pm_source m, pv_value := val\<rparr>" get str ms] by simp
    next
      case False
      then have "pv_source (PolicyValue_Update str (PM_IsManaged m) (pm_source m) val v) = []"
        using Cons.prems by (simp add: PolicyValue_Update_def)
      with Cons.IH [OF _ this] Cons.prems(1) show ?thesis
        by (auto simp: Some False split: option.splits)
    qed
  qed
qed simp

lemma loop_first_managed:
  "case first_managed get (managers c) of
     None \<Rightarrow> pv_source (policy_loop get str (managers c) (new_policy_value u)) = []
   | Some val \<Rightarrow> pv_source (policy_loop get str (managers c) (new_policy_value u)) \<noteq> []
       \<and> pv_value (policy_loop get str (managers c) (new_policy_value u)) = val"
  using loop_first_managed_list [of "managers c" "new_policy_value u" get str] named
  by (simp add: new_policy_value_def)

lemma final_value:
  "pv_value (PolicyValue_UpdateFinal d (policy_loop get str (managers c) (new_policy_value u))) =
     (case first_managed get (managers c) of None \<Rightarrow> d | Some val \<Rightarrow> val)"
  using loop_first_managed [of get str c u]
  by (auto simp: PolicyValue_UpdateFinal_def split: option.splits)

end

interpretation cm: policy_sources policies
  by unfold_locales (auto simp: policies_def Let_def split: if_splits)

lemma managed_query_first:
  "managed_query get str u c =
     (case first_managed get (policies c) of None \<Rightarrow> Inl E_FAIL | Some val \<Rightarrow> Inr val)"
  using cm.loop_first_managed [of get str c u]
  by (auto simp: managed_query_def Let_def PolicyValue_UpdateFinal_def split: option.splits)

text \<open>C24. Update permission. Whatever the uninitialised memory held, an app other than the updater
  itself may be updated exactly when the first managed source with an opinion (or the
  default, enabled) does not disable updates and does not reserve them for the other kind of
  update; the updater itself may always update. An unmanaged source never forbids anything.\<close>

theorem CanUpdateApp_policy:
  "CanUpdateApp memory cm app_guid is_manual \<longleftrightarrow>
     app_guid = kGoopdateGuid \<or>
     (case first_managed (PM_GetEffectivePolicyForAppUpdates app_guid) (policies cm) of
        None \<Rightarrow> True
      | Some p \<Rightarrow> p \<noteq> 0 \<and> \<not> (p = 2 \<and> \<not> is_manual) \<and> \<not> (p = 3 \<and> is_manual))"
  by (auto simp: CanUpdateApp_def Let_def GetEffectivePolicyForAppUpdates_def cm.final_value policy_constants
      split: option.split)

text \<open>C25. Install permission. An app may be installed exactly when the first managed source with an
  opinion does not disable it, and does not allow it for machine installs only while this is
  a per-user install.\<close>

theorem CanInstallApp_policy:
  "CanInstallApp memory cm app_guid is_machine \<longleftrightarrow>
     (case first_managed (PM_GetEffectivePolicyForAppInstalls app_guid) (policies cm) of
        None \<Rightarrow> True
      | Some p \<Rightarrow> p \<noteq> 0 \<and> \<not> (p = 4 \<and> \<not> is_machine))"
  by (auto simp: CanInstallApp_def Let_def GetEffectivePolicyForAppInstalls_def cm.final_value policy_constants
      split: option.split)

lemma check_period_sec_bounds: "check_period_sec m = 0 \<or> 60 \<le> check_period_sec m \<and> check_period_sec m \<le> 0x7FFFFFFF"
proof (cases "2 ^ 31 - 1 < unat m * 60")
  case False
  then have "unat (m * 60) = unat m * 60" by (simp add: unat_word_ariths)
  then show ?thesis
    using False by (auto simp: check_period_sec_def word_le_nat_alt unat_eq_zero [symmetric] simp del: unat_eq_zero)
qed (simp add: check_period_sec_def)

lemma first_managed_map: "first_managed (map_option f \<circ> get) ms = map_option f (first_managed get ms)"
  by (induction ms) auto

text \<open>C27. The update check period is 0, which turns checks off, or between one minute and the
  largest \<open>int\<close>, wherever it comes from.\<close>

theorem GetLastCheckPeriodSec_bounds:
  "let sec = fst (GetLastCheckPeriodSec dev is_internal_user cm)
   in sec = 0 \<or> 60 \<le> unat sec \<and> unat sec \<le> 2 ^ 31 - 1"
proof (cases dev)
  case None
  show ?thesis
    using check_period_sec_bounds
    by (auto simp: GetLastCheckPeriodSec_def Let_def None cm.final_value first_managed_map word_le_nat_alt
        split: option.split)
next
  case (Some sec)
  then show ?thesis
    by (auto simp: GetLastCheckPeriodSec_def Let_def PolicyValue_Update_def PolicyValue_UpdateFinal_def
        new_policy_value_def word_less_nat_alt word_le_nat_alt unat_eq_zero)
qed

lemma wrap_mod: "- n < d \<Longrightarrow> d < n \<Longrightarrow> (if d < 0 then d + n else d) = d mod n" for d n :: int
proof (cases "d < 0")
  case True
  assume "- n < d" "d < n"
  with True have "(d + n) mod n = d + n" by (intro mod_pos_pos_trivial) auto
  with True show ?thesis by simp
qed (simp add: mod_pos_pos_trivial)

lemma minutes_difference:
  fixes h m hour minute :: "32 word"
  assumes "unat h < 24" "unat m < 60" "hour \<le> 23" "minute \<le> 59"
  shows "sint ((h - hour) * 60 + (m - minute)) =
           (int (unat h) * 60 + int (unat m)) - (int (unat hour) * 60 + int (unat minute))"
    (is "sint ?w = ?d")
proof -
  have u: "?w = word_of_int ?d"
    by (simp add: algebra_simps flip: word_of_int_0)
  have "unat hour \<le> 23" "unat minute \<le> 59"
    using assms by (simp_all add: word_le_nat_alt)
  then have "int (unat hour) \<le> 23" "int (unat minute) \<le> 59" "int (unat h) < 24" "int (unat m) < 60"
    using assms(1,2) by presburger+
  then have "- (2 ^ 31) \<le> ?d" "?d < 2 ^ 31" by (auto simp del: of_nat_unat)
  then show ?thesis
    unfolding u by (rule sint_word_of_int)
qed

text \<open>C26. Update suppression. Updates are suppressed at a local time exactly when the first managed
  source that sets a window sets one with a start time of day and a length of at most 16
  hours, and the time lies in it, where a window that reaches past midnight continues on the next
  day. The 32-bit differences of the code never wrap to a wrong answer.\<close>

theorem AreUpdatesSuppressedNow_window:
  assumes "unat tm_hour < 24" "unat tm_min < 60"
  shows "AreUpdatesSuppressedNow tm_hour tm_min cm \<longleftrightarrow>
           (case first_managed PM_GetUpdatesSuppressedTimes (policies cm) of
              None \<Rightarrow> False
            | Some (hour, minute, dur) \<Rightarrow>
                hour \<le> 23 \<and> minute \<le> 59 \<and> dur \<le> 960
                \<and> ((int (unat tm_hour) * 60 + int (unat tm_min))
                     - (int (unat hour) * 60 + int (unat minute))) mod 1440 < int (unat dur))"
proof (cases "first_managed PM_GetUpdatesSuppressedTimes (policies cm)")
  case None
  then show ?thesis
    by (simp add: AreUpdatesSuppressedNow_def GetUpdatesSuppressedTimes_def managed_query_first)
next
  case (Some w)
  obtain hour minute dur where w: "w = (hour, minute, dur)" by (cases w)
  show ?thesis
  proof (cases "hour \<le> 23 \<and> minute \<le> 59 \<and> dur \<le> 960")
    case True
    let ?d = "(int (unat tm_hour) * 60 + int (unat tm_min)) - (int (unat hour) * 60 + int (unat minute))"
    have "unat hour \<le> 23" "unat minute \<le> 59" using True by (simp_all add: word_le_nat_alt)
    then have b: "int (unat hour) \<le> 23" "int (unat minute) \<le> 59" "int (unat tm_hour) < 24" "int (unat tm_min) < 60"
      using assms by presburger+
    have "sint dur = int (unat dur)"
      using True by (intro sint_small) (simp add: word_le_nat_alt)
    moreover have "-1440 < ?d" "?d < 1440" using b by linarith+
    note wrap_mod [OF this]
    ultimately show ?thesis
      using True minutes_difference [OF assms, of hour minute]
      by (auto simp: AreUpdatesSuppressedNow_def GetUpdatesSuppressedTimes_def managed_query_first Some w Let_def
          not_less)
  next
    case False
    then show ?thesis
      by (auto simp: AreUpdatesSuppressedNow_def GetUpdatesSuppressedTimes_def managed_query_first Some w Let_def)
  qed
qed

definition sample_policy :: CachedOmahaPolicy where
  "sample_policy = \<lparr>is_managed = True, is_initialized = True, auto_update_check_period_minutes = -1,
     download_preference = [], cache_size_limit = -1, cache_life_limit = -1,
     updates_suppressed = \<lparr>start_hour = 23, start_minute = 0, duration_min = 120\<rparr>,
     proxy_mode = [], proxy_server = [], proxy_pac_url = [], install_default = -1, update_default = 1,
     application_settings = []\<rparr>"

definition sample_config :: ConfigManager where
  "sample_config = \<lparr>group_policy = sample_policy, dm_policy = sample_policy\<lparr>is_initialized := False\<rparr>,
     are_cloud_policies_preferred = False\<rparr>"

theorem AreUpdatesSuppressedNow_window_witness:
  "AreUpdatesSuppressedNow 0 30 sample_config \<and> \<not> AreUpdatesSuppressedNow 1 0 sample_config"
proof -
  have "first_managed PM_GetUpdatesSuppressedTimes (policies sample_config) = Some (23, 0, 120)"
    by (simp add: policies_def sample_config_def sample_policy_def PM_IsManaged_def PM_GetUpdatesSuppressedTimes_def)
  then show ?thesis
    using AreUpdatesSuppressedNow_window [of 0 30 sample_config] AreUpdatesSuppressedNow_window [of 1 0 sample_config]
    by simp
qed

lemma in_range_first_managed:
  "first_managed (in_range limit \<circ> get) ms = Some w \<Longrightarrow> 0 < w \<and> w \<le> limit"
  by (induction ms) (auto simp: in_range_def split: option.splits if_splits)

text \<open>The package cache limits stay in range: between 1 and 5000 megabytes and between 1 and 1800
  days. A policy value out of range is passed over, not clamped.\<close>

theorem package_cache_limits:
  "0 < GetPackageCacheSizeLimitMBytes memory cm \<and> GetPackageCacheSizeLimitMBytes memory cm \<le> 5000
   \<and> 0 < GetPackageCacheExpirationTimeDays memory cm \<and> GetPackageCacheExpirationTimeDays memory cm \<le> 1800"
  using in_range_first_managed [of 5000 PM_GetPackageCacheSizeLimitMBytes "policies cm"]
    in_range_first_managed [of 1800 PM_GetPackageCacheExpirationTimeDays "policies cm"]
  by (auto simp: GetPackageCacheSizeLimitMBytes_def GetPackageCacheExpirationTimeDays_def cm.final_value
      split: option.split)

lemma dword_string_inject [simp]: "dword_string v = dword_string w \<longleftrightarrow> v = w"
  by (simp add: dword_string_def word_unat_eq_iff)

text \<open>The conflict flag of the policy status. With no managed source and one unmanaged source that
  has a value, the aggregate is the default, but the flag that says whether the unmanaged value
  conflicts with it compares that value with the uninitialised memory of the aggregate, not
  with the default.\<close>

theorem unmanaged_conflict_reads_memory:
  assumes "\<not> PM_IsManaged m" "pm_source m \<noteq> []" "get m = Some v"
  shows "let r = PolicyValue_UpdateFinal d (policy_loop get dword_string [m] (new_policy_value memory))
         in pv_value r = d \<and> conflict_value r = v \<and> (has_conflict r \<longleftrightarrow> memory \<noteq> v)"
  using assms by (simp add: Let_def new_policy_value_def PolicyValue_Update_def PolicyValue_UpdateFinal_def)

theorem unmanaged_conflict_reads_memory_witness:
  "has_conflict (PolicyValue_UpdateFinal 1 (policy_loop (PM_GetEffectivePolicyForAppUpdates [])
      dword_string [\<lparr>pm_source = ''Group Policy'', pm_policy = sample_policy\<lparr>is_managed := False\<rparr>\<rparr>] (new_policy_value 7)))"
  using unmanaged_conflict_reads_memory [of "\<lparr>pm_source = ''Group Policy'', pm_policy = sample_policy\<lparr>is_managed := False\<rparr>\<rparr>"
      "PM_GetEffectivePolicyForAppUpdates []" 1 1 7]
  by (simp add: PM_IsManaged_def PM_GetEffectivePolicyForAppUpdates_def sample_policy_def Let_def)

end
