(* ===== verification/Update_Response.thy ===== *)
theory Update_Response
  imports Group_Policy
begin

text \<open>
  The parsed update response (\<open>common/protocol_definition.h\<close>, \<open>common/install_manifest.h\<close>) and the
  functions of \<open>goopdate/update_response_utils.cc\<close> that judge it: the status of an app, the system
  requirements and the data elements. Building the app from the response is in \<open>App_Model\<close>.

  A text shown to the user is the resource it is made from, since the text itself depends on
  the language files (and, for \<open>FormatCompanyMessage\<close>, on the company name of the build). The operating system version, the host architecture and the test whether an
  architecture runs on the host are properties of the system, collected in a record.
\<close>

section \<open>Messages\<close>

datatype resource_id =
    IDS_INSTALL_FAILED | IDS_CANCELED | IDS_APP_INSTALL_DISABLED_BY_GROUP_POLICY
  | IDS_NO_UPDATE_RESPONSE | IDS_UNKNOWN_APPLICATION | IDS_RESTRICTED_RESPONSE_FROM_SERVER
  | IDS_HW_NOT_SUPPORTED | IDS_OS_NOT_SUPPORTED | IDS_NON_OK_RESPONSE_FROM_SERVER | IDS_INSTALLER_OLD
  | IDS_DOWNLOAD_HASH_MISMATCH | IDS_DOWNLOAD_ERROR | IDS_CACHING_ERROR | IDS_INSTALLER_FAILED_TO_START
  | IDS_INSTALLER_FAILED_WITH_MESSAGE | IDS_INSTALLER_FAILED_NO_MESSAGE | IDS_INVALID_INSTALLER_FILENAME
  | IDS_INSTALLER_TIMED_OUT | IDS_MSI_INSTALL_ALREADY_RUNNING | IDS_APPLICATION_INSTALLED_SUCCESSFULLY

datatype ui_message =
    NoMessage
  | LoadString resource_id
  | FormatMessage resource_id string
  | FormatMessage2 resource_id string string
  | FormatCompanyMessage resource_id
  | NetworkErrorMessage hresult
  | MessageText string

section \<open>The response\<close>

record InstallPackage =
  ip_name :: string
  ip_version :: string
  ip_is_required :: bool
  ip_size :: int
  hash_sha1 :: string
  hash_sha256 :: string

datatype InstallEvent = kPreInstall | kInstall | kUpdate | kPostInstall

datatype SuccessfulInstallAction =
    SUCCESS_ACTION_DEFAULT | SUCCESS_ACTION_EXIT_SILENTLY | SUCCESS_ACTION_EXIT_SILENTLY_ON_LAUNCH_CMD

datatype NeedsAdmin = NEEDS_ADMIN_NO | NEEDS_ADMIN_YES | NEEDS_ADMIN_PREFERS

record InstallAction =
  install_event :: InstallEvent
  needs_admin :: NeedsAdmin
  program_to_run :: string
  program_arguments :: string
  success_url :: string
  terminate_all_browsers :: bool
  success_action :: SuccessfulInstallAction

record InstallManifest =
  im_name :: string
  im_version :: string
  im_packages :: "InstallPackage list"
  install_actions :: "InstallAction list"

record UpdateCheck =
  uc_status :: string
  uc_tt_token :: string
  uc_error_url :: string
  uc_urls :: "string list"
  uc_install_manifest :: InstallManifest

record ResponseData =
  data_status :: string
  data_name :: string
  data_install_data_index :: string
  data_install_data :: string

record ResponseApp =
  ra_status :: string
  ra_appid :: string
  ra_experiments :: string
  ra_cohort :: string
  ra_cohort_hint :: string
  ra_cohort_name :: string
  ra_update_check :: UpdateCheck
  ra_data :: "ResponseData list"
  ra_ping_status :: string
  ra_event_statuses :: "string list"

record SystemRequirements =
  sr_platform :: string
  sr_arch :: string
  sr_min_os_version :: string

record Response =
  resp_protocol :: string
  elapsed_seconds :: int
  elapsed_days :: int
  sys_req :: SystemRequirements
  resp_apps :: "ResponseApp list"

record system_info =
  os_info :: "hresult + string"
  architecture :: string
  is_architecture_supported :: "string \<Rightarrow> bool"

section \<open>System requirements\<close>

definition is_dotted_pair :: "string \<Rightarrow> bool" where
  "is_dotted_pair s \<longleftrightarrow>
     (let major = takeWhile is_digit s; rest = dropWhile is_digit s
      in major \<noteq> [] \<and> rest \<noteq> [] \<and> hd rest = CHR ''.'' \<and> tl rest \<noteq> [] \<and> list_all is_digit (tl rest))"

definition OSVersionFromString :: "string \<Rightarrow> 64 word" where
  "OSVersionFromString s =
     (if is_dotted_pair s then VersionFromString (s @ ''.0.0'') else VersionFromString s)"

definition IsPlatformCompatible :: "string \<Rightarrow> bool" where
  "IsPlatformCompatible platform \<longleftrightarrow> IsEmpty platform \<or> EqualNoCase platform ''win''"

text \<open>\<open>Trim()\<close> without arguments removes white space at both ends.\<close>

definition trim_space :: "string \<Rightarrow> string" where
  "trim_space s = rev (dropWhile is_space (rev (dropWhile is_space s)))"

definition IsArchCompatible :: "system_info \<Rightarrow> string \<Rightarrow> bool" where
  "IsArchCompatible sys arch_list =
     (let archs = filter (\<lambda>a. a \<noteq> []) (map (\<lambda>t. MakeLower (trim_space t)) (Tokens arch_list '',''))
      in if archs = [] then True
         else if CHR ''-'' # MakeLower (architecture sys) \<in> set (sort archs) then False
         else let guests = filter (\<lambda>a. hd a \<noteq> CHR ''-'') (sort archs)
              in guests = [] \<or> list_ex (is_architecture_supported sys) guests)"

definition IsOSVersionCompatible :: "system_info \<Rightarrow> string \<Rightarrow> bool" where
  "IsOSVersionCompatible sys min_os_version =
     (IsEmpty min_os_version \<or>
      (case os_info sys of
         Inl hr \<Rightarrow> True
       | Inr current \<Rightarrow> OSVersionFromString min_os_version \<le> OSVersionFromString current))"

type_synonym response_result = "hresult \<times> ui_message"

definition CheckSystemRequirements :: "system_info \<Rightarrow> Response \<Rightarrow> response_result" where
  "CheckSystemRequirements sys r =
     (if IsPlatformCompatible (sr_platform (sys_req r)) \<and> IsArchCompatible sys (sr_arch (sys_req r))
         \<and> IsOSVersionCompatible sys (sr_min_os_version (sys_req r))
      then (S_OK, NoMessage)
      else (itf_error 0x811, LoadString IDS_OS_NOT_SUPPORTED))"

section \<open>Apps of the response\<close>

fun find_app :: "string \<Rightarrow> ResponseApp list \<Rightarrow> ResponseApp option" where
  "find_app appid [] = None"
| "find_app appid (a # as) = (if EqualNoCase appid (ra_appid a) then Some a else find_app appid as)"

definition GetApp :: "Response \<Rightarrow> string \<Rightarrow> ResponseApp option" where
  "GetApp response appid = find_app appid (resp_apps response)"

fun count_untrusted :: "ResponseData list \<Rightarrow> nat \<times> bool \<Rightarrow> nat \<times> bool" where
  "count_untrusted [] st = st"
| "count_untrusted (d # ds) st =
     count_untrusted ds
       (if data_name d = ''untrusted'' then (fst st + 1, data_status d = ''ok'') else st)"

definition ValidateUntrustedData :: "ResponseData list \<Rightarrow> hresult" where
  "ValidateUntrustedData ds =
     (case count_untrusted ds (0, False) of (n, is_valid) \<Rightarrow>
        if n = 1 \<and> is_valid then S_OK else omaha_error 0x90C)"

fun find_install_data :: "string \<Rightarrow> ResponseData list \<Rightarrow> hresult + string" where
  "find_install_data index [] = Inl (itf_error 0x909)"
| "find_install_data index (d # ds) =
     (if index \<noteq> data_install_data_index d then find_install_data index ds
      else if data_status d \<noteq> ''ok'' then Inl (itf_error 0x909)
      else Inr (data_install_data d))"

definition GetInstallData :: "ResponseData list \<Rightarrow> string \<Rightarrow> hresult + string" where
  "GetInstallData ds index = (if IsEmpty index then Inr [] else find_install_data index ds)"

fun first_error_status :: "string list \<Rightarrow> string option" where
  "first_error_status [] = None"
| "first_error_status (s # ss) =
     (if \<not> IsEmpty s \<and> \<not> EqualNoCase ''ok'' s then Some s else first_error_status ss)"

definition GetAppResponseStatus :: "ResponseApp \<Rightarrow> string" where
  "GetAppResponseStatus a =
     (if \<not> EqualNoCase ''ok'' (ra_status a) then ra_status a
      else if \<not> IsEmpty (uc_status (ra_update_check a)) \<and> \<not> EqualNoCase ''ok'' (uc_status (ra_update_check a))
      then uc_status (ra_update_check a)
      else case first_error_status (map data_status (ra_data a)) of
             Some s \<Rightarrow> s
           | None \<Rightarrow>
               if \<not> IsEmpty (ra_ping_status a) \<and> \<not> EqualNoCase ''ok'' (ra_ping_status a)
               then ra_ping_status a
               else case first_error_status (ra_event_statuses a) of
                      Some s \<Rightarrow> s
                    | None \<Rightarrow> ra_status a)"

definition GetResult :: "Response \<Rightarrow> string \<Rightarrow> string \<Rightarrow> response_result" where
  "GetResult response appid app_name =
     (case GetApp response appid of
        None \<Rightarrow> (itf_error 0x80F, LoadString IDS_UNKNOWN_APPLICATION)
      | Some a \<Rightarrow>
          let status = GetAppResponseStatus a
          in if EqualNoCase ''ok'' status then (S_OK, NoMessage)
             else if EqualNoCase ''noupdate'' status then (itf_error 0x809, LoadString IDS_NO_UPDATE_RESPONSE)
             else if EqualNoCase ''restricted'' status
               then (itf_error 0x806, LoadString IDS_RESTRICTED_RESPONSE_FROM_SERVER)
             else if EqualNoCase ''error-UnKnownApplication'' status
               then (itf_error 0x80D, LoadString IDS_UNKNOWN_APPLICATION)
             else if EqualNoCase ''error-hwnotsupported'' status
               then (itf_error 0x81e, FormatMessage IDS_HW_NOT_SUPPORTED app_name)
             else if EqualNoCase ''error-osnotsupported'' status
               then (itf_error 0x811, LoadString IDS_OS_NOT_SUPPORTED)
             else if EqualNoCase ''error-internal'' status
               then (itf_error 0x80E, FormatMessage IDS_NON_OK_RESPONSE_FROM_SERVER status)
             else if EqualNoCase ''error-hash'' status
               then (itf_error 0x81a, FormatMessage IDS_NON_OK_RESPONSE_FROM_SERVER status)
             else if EqualNoCase ''error-unsupportedprotocol'' status
               then (itf_error 0x81b, FormatCompanyMessage IDS_INSTALLER_OLD)
             else (itf_error 0x805, FormatMessage IDS_NON_OK_RESPONSE_FROM_SERVER status))"

definition IsOmahaUpdateAvailable :: "Response \<Rightarrow> bool" where
  "IsOmahaUpdateAvailable response \<longleftrightarrow> fst (GetResult response kGoopdateGuid []) = S_OK"

text \<open>The label updates written, in order, until one fails; \<open>write\<close> is the result of writing the
  labels of an app.\<close>

fun apply_label_deltas :: "(string \<Rightarrow> string \<Rightarrow> hresult) \<Rightarrow> ResponseApp list \<Rightarrow> hresult \<times> (string \<times> string) list" where
  "apply_label_deltas write [] = (S_OK, [])"
| "apply_label_deltas write (a # as) =
     (if IsEmpty (ra_experiments a) then apply_label_deltas write as
      else if FAILED (write (ra_appid a) (ra_experiments a))
      then (write (ra_appid a) (ra_experiments a), [(ra_appid a, ra_experiments a)])
      else case apply_label_deltas write as of (hr, ws) \<Rightarrow> (hr, (ra_appid a, ra_experiments a) # ws))"

definition ApplyExperimentLabelDeltas ::
  "(string \<Rightarrow> string \<Rightarrow> hresult) \<Rightarrow> Response \<Rightarrow> hresult \<times> (string \<times> string) list" where
  "ApplyExperimentLabelDeltas write response = apply_label_deltas write (resp_apps response)"

section \<open>When a response has an update\<close>

lemma first_error_status_None:
  "first_error_status ss = None \<longleftrightarrow> list_all (\<lambda>s. IsEmpty s \<or> EqualNoCase ''ok'' s) ss"
  by (induction ss) auto

lemma first_error_status_Some: "first_error_status ss = Some s \<Longrightarrow> \<not> EqualNoCase ''ok'' s"
  by (induction ss) (auto split: if_splits)

lemma first_error_status_append:
  "first_error_status (xs @ ys) =
     (case first_error_status xs of None \<Rightarrow> first_error_status ys | Some s \<Rightarrow> Some s)"
  by (induction xs) auto

lemma GetAppResponseStatus_ok:
  "EqualNoCase ''ok'' (GetAppResponseStatus a) \<longleftrightarrow>
     EqualNoCase ''ok'' (ra_status a) \<and>
     list_all (\<lambda>s. IsEmpty s \<or> EqualNoCase ''ok'' s)
       (uc_status (ra_update_check a) # map data_status (ra_data a) @ ra_ping_status a # ra_event_statuses a)"
proof (cases "EqualNoCase ''ok'' (ra_status a)")
  case True
  then show ?thesis
    by (cases "first_error_status (map data_status (ra_data a))"; cases "first_error_status (ra_event_statuses a)")
       (auto simp: GetAppResponseStatus_def first_error_status_None [symmetric] first_error_status_append simp del: list.pred_map
             dest: first_error_status_Some)
qed (simp add: GetAppResponseStatus_def)

lemma GetResult_codes:
  "fst (GetResult r appid name) \<noteq> S_OK \<Longrightarrow> FAILED (fst (GetResult r appid name))"
  "fst (GetResult r appid name) \<noteq> omaha_error 0x81c"
proof -
  have "(fst (GetResult r appid name) \<noteq> S_OK \<longrightarrow> FAILED (fst (GetResult r appid name)))
      \<and> fst (GetResult r appid name) \<noteq> omaha_error 0x81c"
  proof (cases "GetApp r appid")
    case (Some ra)
    then show ?thesis
      by (cases "EqualNoCase ''ok'' (GetAppResponseStatus ra)") (simp_all add: GetResult_def Let_def hresult_defs)
  qed (simp add: GetResult_def hresult_defs)
  then show "fst (GetResult r appid name) \<noteq> S_OK \<Longrightarrow> FAILED (fst (GetResult r appid name))"
    and "fst (GetResult r appid name) \<noteq> omaha_error 0x81c" by blast+
qed

lemma GetResult_found:
  "fst (GetResult r appid name) \<in> {S_OK, itf_error 0x809} \<Longrightarrow> \<exists>ra. GetApp r appid = Some ra"
  by (cases "GetApp r appid") (simp_all add: GetResult_def hresult_defs)

lemma GetResult_S_OK:
  "fst (GetResult r appid name) = S_OK \<longleftrightarrow>
     (\<exists>ra. GetApp r appid = Some ra \<and> EqualNoCase ''ok'' (GetAppResponseStatus ra))"
proof (cases "GetApp r appid")
  case (Some ra)
  then show ?thesis
    by (cases "EqualNoCase ''ok'' (GetAppResponseStatus ra)") (simp_all add: GetResult_def Let_def hresult_defs)
qed (simp add: GetResult_def hresult_defs)

lemma find_app_Some:
  "find_app appid as = Some ra \<longleftrightarrow>
     (\<exists>before after. as = before @ ra # after \<and> list_all (\<lambda>b. \<not> EqualNoCase appid (ra_appid b)) before
        \<and> EqualNoCase appid (ra_appid ra))"
proof (induction as)
  case (Cons a as)
  show ?case
  proof (cases "EqualNoCase appid (ra_appid a)")
    case True
    then show ?thesis by (auto simp: Cons_eq_append_conv)
  next
    case False
    then show ?thesis by (simp add: Cons Cons_eq_append_conv) (metis list.pred_inject)
  qed
qed simp

text \<open>C28. A response is an available update for an app (\<open>GetResult\<close> is \<open>S_OK\<close>) exactly when it has an element for the
  app, the status of that element is ok, and the status of every child element, in
  whatever letter case, is ok or absent: update check, data, ping and events. The first matching
  element decides.\<close>

theorem GetResult_available:
  "fst (GetResult r appid name) = S_OK \<longleftrightarrow>
     (\<exists>before ra after. resp_apps r = before @ ra # after \<and>
        list_all (\<lambda>b. \<not> EqualNoCase appid (ra_appid b)) before \<and> EqualNoCase appid (ra_appid ra) \<and>
        EqualNoCase ''ok'' (ra_status ra) \<and>
        list_all (\<lambda>s. IsEmpty s \<or> EqualNoCase ''ok'' s)
          (uc_status (ra_update_check ra) # map data_status (ra_data ra) @ ra_ping_status ra # ra_event_statuses ra))"
  unfolding GetResult_S_OK GetApp_def GetAppResponseStatus_ok find_app_Some by meson

lemma GetInstallData_failed: "GetInstallData ds index = Inl hr \<Longrightarrow> FAILED hr"
proof -
  have "find_install_data index ds = Inl hr \<Longrightarrow> FAILED hr"
    by (induction ds) (auto simp: hresult_defs split: if_splits)
  then show "GetInstallData ds index = Inl hr \<Longrightarrow> FAILED hr" by (auto simp: GetInstallData_def split: if_splits)
qed

lemma count_untrusted_filter:
  "count_untrusted ds st =
     (fst st + length (filter (\<lambda>d. data_name d = ''untrusted'') ds),
      if filter (\<lambda>d. data_name d = ''untrusted'') ds = [] then snd st
      else data_status (last (filter (\<lambda>d. data_name d = ''untrusted'') ds)) = ''ok'')"
  by (induction ds arbitrary: st) auto

text \<open>The data that an installer passed to the server is accepted back exactly when the response
  has one single element named untrusted, with status ok; several such elements are refused even when
  all are ok.\<close>

theorem ValidateUntrustedData_single:
  "ValidateUntrustedData ds = S_OK \<longleftrightarrow>
     (\<exists>d. filter (\<lambda>d. data_name d = ''untrusted'') ds = [d] \<and> data_status d = ''ok'')"
  by (auto simp: ValidateUntrustedData_def count_untrusted_filter hresult_defs length_Suc_conv)

end
