(* ===== verification/App_Model.thy ===== *)
theory App_Model
  imports Update_Response
begin

text \<open>
  The application object (\<open>goopdate/app.cc\<close>, \<open>goopdate/app_version.cc\<close>, \<open>common/ping_event.cc\<close>): its
  data members, the operations that read and set them, and building the app from an update
  response (\<open>update_response_utils::BuildApp\<close>).

  Calls into the registry, the package cache and the metrics have no result that the state
  machine uses; they are recorded, in order, in the member \<open>effects\<close>. The clock and the
  properties of the bundle and of the machine are a record \<open>app_env\<close>. Dereferencing the pointer of
  an app that the response does not contain is the effect \<open>Eff_NullDereference\<close>.
\<close>

section \<open>States and ping events\<close>

datatype CurrentState =
    STATE_INIT | STATE_WAITING_TO_CHECK_FOR_UPDATE | STATE_CHECKING_FOR_UPDATE | STATE_UPDATE_AVAILABLE
  | STATE_WAITING_TO_DOWNLOAD | STATE_RETRYING_DOWNLOAD | STATE_DOWNLOADING | STATE_DOWNLOAD_COMPLETE
  | STATE_EXTRACTING | STATE_APPLYING_DIFFERENTIAL_PATCH | STATE_READY_TO_INSTALL
  | STATE_WAITING_TO_INSTALL | STATE_INSTALLING | STATE_INSTALL_COMPLETE | STATE_PAUSED
  | STATE_NO_UPDATE | STATE_ERROR

fun state_value :: "CurrentState \<Rightarrow> 32 word" where
  "state_value STATE_INIT = 1"
| "state_value STATE_WAITING_TO_CHECK_FOR_UPDATE = 2"
| "state_value STATE_CHECKING_FOR_UPDATE = 3"
| "state_value STATE_UPDATE_AVAILABLE = 4"
| "state_value STATE_WAITING_TO_DOWNLOAD = 5"
| "state_value STATE_RETRYING_DOWNLOAD = 6"
| "state_value STATE_DOWNLOADING = 7"
| "state_value STATE_DOWNLOAD_COMPLETE = 8"
| "state_value STATE_EXTRACTING = 9"
| "state_value STATE_APPLYING_DIFFERENTIAL_PATCH = 10"
| "state_value STATE_READY_TO_INSTALL = 11"
| "state_value STATE_WAITING_TO_INSTALL = 12"
| "state_value STATE_INSTALLING = 13"
| "state_value STATE_INSTALL_COMPLETE = 14"
| "state_value STATE_PAUSED = 15"
| "state_value STATE_NO_UPDATE = 16"
| "state_value STATE_ERROR = 17"

datatype ping_type =
    EVENT_UNKNOWN | EVENT_INSTALL_DOWNLOAD_FINISH | EVENT_INSTALL_COMPLETE | EVENT_UPDATE_COMPLETE
  | EVENT_UNINSTALL | EVENT_INSTALL_DOWNLOAD_START | EVENT_INSTALL_INSTALLER_START
  | EVENT_INSTALL_APPLICATION_BEGIN | EVENT_UPDATE_APPLICATION_BEGIN | EVENT_UPDATE_DOWNLOAD_START
  | EVENT_UPDATE_DOWNLOAD_FINISH | EVENT_UPDATE_INSTALLER_START | EVENT_REGISTER_PRODUCT_COMPLETE
  | EVENT_INSTALL_OEM_FIRST_CHECK | EVENT_APP_COMMAND_BEGIN | EVENT_APP_COMMAND_COMPLETE | EVENT_DEBUG
  | EVENT_CHROME_RECOVERY_COMPONENT

datatype ping_result =
    EVENT_RESULT_ERROR | EVENT_RESULT_SUCCESS | EVENT_RESULT_SUCCESS_REBOOT | EVENT_RESULT_CANCELLED
  | EVENT_RESULT_INSTALLER_ERROR_MSI | EVENT_RESULT_INSTALLER_ERROR_OTHER
  | EVENT_RESULT_INSTALLER_ERROR_SYSTEM | EVENT_RESULT_UPDATE_DEFERRED | EVENT_RESULT_HANDOFF_ERROR

record PingEventCancel =
  is_bundled :: bool
  state_when_cancelled :: CurrentState
  time_since_update_available_ms :: int
  time_since_download_start_ms :: int

text \<open>A cancel ping is a ping event with the additional members.\<close>

record PingEvent =
  event_type :: ping_type
  event_result :: ping_result
  pe_error_code :: "32 word"
  pe_extra_code1 :: "32 word"
  pe_source_url_index :: int
  pe_update_check_time_ms :: int
  pe_download_time_ms :: int
  pe_num_bytes_downloaded :: "64 word"
  pe_app_size :: "64 word"
  pe_install_time_ms :: int
  pe_cancel :: "PingEventCancel option"

definition PingEvent4 :: "ping_type \<Rightarrow> ping_result \<Rightarrow> 32 word \<Rightarrow> 32 word \<Rightarrow> PingEvent" where
  "PingEvent4 type res code extra =
     \<lparr>event_type = type, event_result = res, pe_error_code = code, pe_extra_code1 = extra,
      pe_source_url_index = -1, pe_update_check_time_ms = 0, pe_download_time_ms = 0,
      pe_num_bytes_downloaded = 0, pe_app_size = 0, pe_install_time_ms = 0, pe_cancel = None\<rparr>"

section \<open>The app\<close>

record ErrorContext =
  error_code :: hresult
  extra_code1 :: "32 word"

definition ErrorContext1 :: "hresult \<Rightarrow> ErrorContext" where
  "ErrorContext1 hr = \<lparr>error_code = hr, extra_code1 = 0\<rparr>"

record Package =
  filename :: string
  expected_size :: "64 word"
  expected_hash :: string

record AppVersion =
  version :: string
  install_manifest :: "InstallManifest option"
  packages :: "Package list"
  download_base_urls :: "string list"

datatype TimeMetricType =
    TIME_UPDATE_AVAILABLE | TIME_DOWNLOAD_START | TIME_DOWNLOAD_COMPLETE | TIME_INSTALL_START
  | TIME_INSTALL_COMPLETE | TIME_UPDATE_CHECK_START | TIME_UPDATE_CHECK_COMPLETE | TIME_CANCELLED

datatype PostInstallAction =
    POST_INSTALL_ACTION_DEFAULT | POST_INSTALL_ACTION_EXIT_SILENTLY | POST_INSTALL_ACTION_LAUNCH_COMMAND
  | POST_INSTALL_ACTION_EXIT_SILENTLY_ON_LAUNCH_COMMAND | POST_INSTALL_ACTION_RESTART_BROWSER
  | POST_INSTALL_ACTION_RESTART_ALL_BROWSERS | POST_INSTALL_ACTION_REBOOT

datatype InstallerResultType =
    INSTALLER_RESULT_UNKNOWN | INSTALLER_RESULT_SUCCESS | INSTALLER_RESULT_ERROR_MSI
  | INSTALLER_RESULT_ERROR_SYSTEM | INSTALLER_RESULT_ERROR_OTHER

record InstallerResultInfo =
  ir_type :: InstallerResultType
  ir_code :: "32 word"
  ir_extra_code1 :: "32 word"
  ir_text :: ui_message
  ir_post_install_launch_command_line :: string
  ir_post_install_url :: string
  ir_post_install_action :: PostInstallAction

datatype app_effect =
    Eff_ResetInstallProgress | Eff_ResetCurrentStateKey | Eff_PurgeAppLowerVersions string
  | Eff_SynchronizeClientState | Eff_BuildRequest | Eff_PersistUpdateCheckSuccessfullySent int int
  | Eff_PersistSuccessfulUpdateCheckResponse bool | Eff_PersistSuccessfulInstall | Eff_PersistPing
  | Eff_StartCrashHandler | Eff_MetricAppsNotUpdatedEula | Eff_MetricSelfUpdatesAvailable
  | Eff_MetricAppUpdatesAvailable | Eff_NullDereference

record App =
  app_state :: CurrentState
  app_guid :: guid
  is_update :: bool
  has_update_available :: bool
  is_eula_accepted :: Tristate
  display_name :: string
  current_version :: string
  next_version :: AppVersion
  tt_token :: string
  cohort :: "string \<times> string \<times> string"
  untrusted_data :: string
  server_install_data_index :: string
  client_install_data :: string
  server_install_data :: string
  day_of_last_response :: int
  is_canceled :: bool
  error_context :: ErrorContext
  completion_message :: ui_message
  completion_result :: ping_result
  installer_result_code :: "32 word"
  installer_result_extra_code1 :: "32 word"
  post_install_launch_command_line :: string
  post_install_url :: string
  post_install_action :: PostInstallAction
  source_url_index :: int
  state_cancelled :: CurrentState
  num_bytes_downloaded :: "64 word"
  time_metrics :: "TimeMetricType \<Rightarrow> 64 word"
  ping_events :: "PingEvent list"
  event_log_text :: string
  effects :: "app_effect list"

record app_env =
  env_config :: ConfigManager
  env_memory :: "32 word"
  env_system :: system_info
  env_time :: "TimeMetricType \<Rightarrow> 64 word"
  env_error_extra_code1 :: "32 word"
  env_can_collect_stats :: bool
  env_is_running_as_system :: bool
  bundle_is_auto_update :: bool
  bundle_is_offline_install :: bool
  bundle_is_machine :: bool
  bundle_number_of_apps :: nat
  http_xdaynum :: int
  http_xdaystart :: int

definition new_App :: "guid \<Rightarrow> bool \<Rightarrow> App" where
  "new_App g upd =
     \<lparr>app_state = STATE_INIT, app_guid = g, is_update = upd, has_update_available = False,
      is_eula_accepted = TRISTATE_NONE, display_name = [], current_version = [],
      next_version = \<lparr>version = [], install_manifest = None, packages = [], download_base_urls = []\<rparr>,
      tt_token = [], cohort = ([], [], []), untrusted_data = [], server_install_data_index = [],
      client_install_data = [], server_install_data = [], day_of_last_response = 0,
      is_canceled = False, error_context = \<lparr>error_code = S_OK, extra_code1 = 0\<rparr>,
      completion_message = NoMessage, completion_result = EVENT_RESULT_SUCCESS,
      installer_result_code = 0, installer_result_extra_code1 = 0,
      post_install_launch_command_line = [], post_install_url = [],
      post_install_action = POST_INSTALL_ACTION_DEFAULT, source_url_index = -1,
      state_cancelled = STATE_ERROR, num_bytes_downloaded = 0, time_metrics = (\<lambda>_. 0),
      ping_events = [], event_log_text = [], effects = []\<rparr>"

definition add_effect :: "app_effect \<Rightarrow> App \<Rightarrow> App" where
  "add_effect e a = a\<lparr>effects := effects a @ [e]\<rparr>"

text \<open>\<open>0x%08x\<close>.\<close>

definition hex8 :: "32 word \<Rightarrow> string" where
  "hex8 w = map (\<lambda>i. ''0123456789abcdef'' ! unat (take_bit 4 (drop_bit (4 * i) w))) [7, 6, 5, 4, 3, 2, 1, 0]"

definition LogTextAppend :: "string \<Rightarrow> App \<Rightarrow> App" where
  "LogTextAppend s a =
     a\<lparr>event_log_text := event_log_text a @ ''App='' @ app_guid a @ '', Ver='' @ current_version a @ '', '' @ s @ [CHR 0x0A]\<rparr>"

definition FetchAndResetLogText :: "App \<Rightarrow> string \<times> App" where
  "FetchAndResetLogText a = (event_log_text a, a\<lparr>event_log_text := []\<rparr>)"

definition AddPingEvent :: "PingEvent \<Rightarrow> App \<Rightarrow> App" where
  "AddPingEvent p a = add_effect Eff_PersistPing (a\<lparr>ping_events := ping_events a @ [p]\<rparr>)"

definition CheckGroupPolicy :: "app_env \<Rightarrow> App \<Rightarrow> hresult" where
  "CheckGroupPolicy env a =
     (if is_update a then
        (if \<not> CanUpdateApp (env_memory env) (env_config env) (app_guid a) (\<not> bundle_is_auto_update env) then
           (if pv_value (GetEffectivePolicyForAppUpdates (env_memory env) (env_config env) (app_guid a))
                = kPolicyAutomaticUpdatesOnly
            then itf_error 0x81f else itf_error 0x813)
         else S_OK)
      else if \<not> CanInstallApp (env_memory env) (env_config env) (app_guid a) (bundle_is_machine env)
      then itf_error 0x812
      else S_OK)"

definition UpdateNumBytesDownloaded :: "64 word \<Rightarrow> App \<Rightarrow> App" where
  "UpdateNumBytesDownloaded n a = a\<lparr>num_bytes_downloaded := num_bytes_downloaded a + n\<rparr>"

definition GetPackagesTotalSize :: "App \<Rightarrow> 64 word" where
  "GetPackagesTotalSize a = foldl (+) 0 (map expected_size (packages (next_version a)))"

definition SetCurrentTimeAs :: "app_env \<Rightarrow> TimeMetricType \<Rightarrow> App \<Rightarrow> App" where
  "SetCurrentTimeAs env t a = a\<lparr>time_metrics := (time_metrics a)(t := env_time env t)\<rparr>"

definition GetTimeDifferenceMs :: "TimeMetricType \<Rightarrow> TimeMetricType \<Rightarrow> App \<Rightarrow> int" where
  "GetTimeDifferenceMs s e a =
     (let start_time = time_metrics a s; end_time = time_metrics a e
      in if start_time = 0 \<or> end_time < start_time then 0
         else sint (ucast (end_time - start_time) :: 32 word))"

definition GetDownloadTimeMs :: "App \<Rightarrow> int" where
  "GetDownloadTimeMs a = GetTimeDifferenceMs TIME_DOWNLOAD_START TIME_DOWNLOAD_COMPLETE a"

definition GetInstallTimeMs :: "App \<Rightarrow> int" where
  "GetInstallTimeMs a = GetTimeDifferenceMs TIME_INSTALL_START TIME_INSTALL_COMPLETE a"

definition GetUpdateCheckTimeMs :: "App \<Rightarrow> int" where
  "GetUpdateCheckTimeMs a = GetTimeDifferenceMs TIME_UPDATE_CHECK_START TIME_UPDATE_CHECK_COMPLETE a"

definition GetTimeSinceUpdateAvailable :: "App \<Rightarrow> int" where
  "GetTimeSinceUpdateAvailable a =
     (if time_metrics a TIME_UPDATE_AVAILABLE = 0 \<or> time_metrics a TIME_CANCELLED = 0 then -1
      else GetTimeDifferenceMs TIME_UPDATE_AVAILABLE TIME_CANCELLED a)"

definition GetTimeSinceDownloadStart :: "App \<Rightarrow> int" where
  "GetTimeSinceDownloadStart a =
     (if time_metrics a TIME_DOWNLOAD_START = 0 \<or> time_metrics a TIME_CANCELLED = 0 then -1
      else GetTimeDifferenceMs TIME_DOWNLOAD_START TIME_CANCELLED a)"

definition SetError :: "ErrorContext \<Rightarrow> ui_message \<Rightarrow> App \<Rightarrow> App" where
  "SetError ec message a =
     (let cancelled = (error_code ec = itf_error 0x810)
      in a\<lparr>error_context := ec, completion_message := message, is_canceled := cancelled,
           completion_result := (if cancelled then EVENT_RESULT_CANCELLED else EVENT_RESULT_ERROR)\<rparr>)"

definition SetNoUpdate :: "ErrorContext \<Rightarrow> ui_message \<Rightarrow> App \<Rightarrow> App" where
  "SetNoUpdate ec message a =
     a\<lparr>error_context := ec, completion_message := message,
       completion_result := (if error_code ec = omaha_error 0x81c then EVENT_RESULT_UPDATE_DEFERRED
                             else EVENT_RESULT_SUCCESS)\<rparr>"

definition SetInstallerResult :: "InstallerResultInfo \<Rightarrow> App \<Rightarrow> App" where
  "SetInstallerResult info a =
     (let a1 = a\<lparr>completion_message := ir_text info, installer_result_code := ir_code info,
                 installer_result_extra_code1 := ir_extra_code1 info,
                 post_install_launch_command_line := ir_post_install_launch_command_line info,
                 post_install_url := ir_post_install_url info,
                 post_install_action := ir_post_install_action info\<rparr>;
          set = (\<lambda>res hr. a1\<lparr>completion_result := res, error_context := (error_context a1)\<lparr>error_code := hr\<rparr>\<rparr>)
      in case ir_type info of
           INSTALLER_RESULT_SUCCESS \<Rightarrow>
             let a2 = set EVENT_RESULT_SUCCESS S_OK
             in if app_guid a2 \<noteq> kGoopdateGuid then add_effect Eff_PersistSuccessfulInstall a2 else a2
         | INSTALLER_RESULT_ERROR_MSI \<Rightarrow> set EVENT_RESULT_INSTALLER_ERROR_MSI (itf_error 0x902)
         | INSTALLER_RESULT_ERROR_SYSTEM \<Rightarrow> set EVENT_RESULT_INSTALLER_ERROR_SYSTEM (itf_error 0x902)
         | INSTALLER_RESULT_ERROR_OTHER \<Rightarrow> set EVENT_RESULT_INSTALLER_ERROR_OTHER (itf_error 0x902)
         | INSTALLER_RESULT_UNKNOWN \<Rightarrow> set EVENT_RESULT_ERROR E_FAIL)"

definition App_GetInstallData :: "App \<Rightarrow> string" where
  "App_GetInstallData a =
     (if \<not> IsEmpty (client_install_data a) then client_install_data a else server_install_data a)"

text \<open>The properties that a client sets before it starts the bundle.\<close>

definition put_isEulaAccepted :: "bool \<Rightarrow> App \<Rightarrow> App" where
  "put_isEulaAccepted b a = a\<lparr>is_eula_accepted := (if b then TRISTATE_TRUE else TRISTATE_FALSE)\<rparr>"

definition put_displayName :: "string \<Rightarrow> App \<Rightarrow> App" where
  "put_displayName s a = a\<lparr>display_name := s\<rparr>"

definition put_ttToken :: "string \<Rightarrow> App \<Rightarrow> App" where
  "put_ttToken s a = a\<lparr>tt_token := s\<rparr>"

definition put_clientInstallData :: "string \<Rightarrow> App \<Rightarrow> App" where
  "put_clientInstallData s a = a\<lparr>client_install_data := s\<rparr>"

definition put_serverInstallDataIndex :: "string \<Rightarrow> App \<Rightarrow> App" where
  "put_serverInstallDataIndex s a = a\<lparr>server_install_data_index := s\<rparr>"

definition put_untrustedData :: "string \<Rightarrow> App \<Rightarrow> App" where
  "put_untrustedData s a = a\<lparr>untrusted_data := s\<rparr>"

section \<open>Building the app from a response\<close>

definition AddPackage :: "string \<Rightarrow> int \<Rightarrow> string \<Rightarrow> AppVersion \<Rightarrow> hresult \<times> AppVersion" where
  "AddPackage name sz hash v =
     (if IsEmpty hash then (E_INVALIDARG, v)
      else (S_OK, v\<lparr>packages := packages v
              @ [\<lparr>filename = name, expected_size = ucast (word_of_int sz :: 32 word), expected_hash = hash\<rparr>]\<rparr>))"

definition AddDownloadBaseUrl :: "string \<Rightarrow> AppVersion \<Rightarrow> AppVersion" where
  "AddDownloadBaseUrl url v = v\<lparr>download_base_urls := download_base_urls v @ [url]\<rparr>"

fun add_packages :: "InstallPackage list \<Rightarrow> AppVersion \<Rightarrow> hresult \<times> AppVersion" where
  "add_packages [] v = (S_OK, v)"
| "add_packages (p # ps) v =
     (case AddPackage (ip_name p) (ip_size p) (hash_sha256 p) v of (hr, v') \<Rightarrow>
        if FAILED hr then (hr, v') else add_packages ps v')"

definition BuildApp :: "Response \<Rightarrow> hresult \<Rightarrow> App \<Rightarrow> hresult \<times> App" where
  "BuildApp response code a =
     (case GetApp response (app_guid a) of
        None \<Rightarrow> (E_POINTER, add_effect Eff_NullDereference a)
      | Some ra \<Rightarrow>
          let uc = ra_update_check ra;
              a1 = a\<lparr>tt_token := uc_tt_token uc, cohort := (ra_cohort ra, ra_cohort_hint ra, ra_cohort_name ra)\<rparr>
          in if code = itf_error 0x809 then (S_OK, a1)
             else
               let v1 = foldl (\<lambda>v u. AddDownloadBaseUrl u v) (next_version a1) (uc_urls uc)
               in case add_packages (im_packages (uc_install_manifest uc)) v1 of (hr, v2) \<Rightarrow>
                    let a2 = a1\<lparr>next_version := v2\<rparr>
                    in if FAILED hr then (hr, a2)
                       else if \<not> IsEmpty (untrusted_data a2) \<and> FAILED (ValidateUntrustedData (ra_data ra))
                       then (ValidateUntrustedData (ra_data ra), a2)
                       else case GetInstallData (ra_data ra) (server_install_data_index a2) of
                              Inl hr \<Rightarrow> (hr, a2)
                            | Inr d \<Rightarrow>
                                (S_OK, a2\<lparr>server_install_data := d,
                                         next_version := v2\<lparr>install_manifest := Some (uc_install_manifest uc),
                                                            version := im_version (uc_install_manifest uc)\<rparr>\<rparr>))"

end
