(* ===== verification/App_State.thy ===== *)
theory App_State
  imports App_Model "HOL-Library.Sublist"
begin

text \<open>
  The state machine of an app (\<open>goopdate/app_state*.cc\<close>). A state object has no data of its own, so
  the object is its number in the app; calling a virtual method is a case distinction on the
  number. A method that a state class does not override is that of the base class
  \<open>AppState\<close>, which for every transition is \<open>HandleInvalidStateTransition\<close>.

  The download and install managers are parameters of \<open>Download\<close> and \<open>Install\<close>, as in the code. The
  events of one app are the type \<open>app_event\<close> with the step function \<open>app_step\<close>.
\<close>

section \<open>Pings of a state\<close>

definition WaitingToDownload_CreatePingEvent :: "App \<Rightarrow> PingEvent option" where
  "WaitingToDownload_CreatePingEvent a =
     Some (PingEvent4 (if is_update a then EVENT_UPDATE_APPLICATION_BEGIN else EVENT_INSTALL_APPLICATION_BEGIN)
             (completion_result a) (error_code (error_context a)) 0)"

definition Downloading_CreatePingEvent :: "App \<Rightarrow> PingEvent option" where
  "Downloading_CreatePingEvent a =
     Some (PingEvent4 (if is_update a then EVENT_UPDATE_DOWNLOAD_START else EVENT_INSTALL_DOWNLOAD_START)
             (completion_result a) (error_code (error_context a)) 0)"

definition DownloadComplete_CreatePingEvent :: "App \<Rightarrow> PingEvent option" where
  "DownloadComplete_CreatePingEvent a =
     Some (PingEvent4 (if is_update a then EVENT_UPDATE_DOWNLOAD_FINISH else EVENT_INSTALL_DOWNLOAD_FINISH)
             (completion_result a) (error_code (error_context a)) 0)"

definition Installing_CreatePingEvent :: "App \<Rightarrow> PingEvent option" where
  "Installing_CreatePingEvent a =
     Some (PingEvent4 (if is_update a then EVENT_UPDATE_INSTALLER_START else EVENT_INSTALL_INSTALLER_START)
             (completion_result a) (error_code (error_context a)) 0)"

definition completion_type :: "App \<Rightarrow> ping_type" where
  "completion_type a = (if is_update a then EVENT_UPDATE_COMPLETE else EVENT_INSTALL_COMPLETE)"

definition completion_ping :: "App \<Rightarrow> 32 word \<Rightarrow> 32 word \<Rightarrow> PingEvent" where
  "completion_ping a code extra =
     \<lparr>event_type = completion_type a, event_result = completion_result a,
      pe_error_code = code, pe_extra_code1 = extra,
      pe_source_url_index = source_url_index a, pe_update_check_time_ms = GetUpdateCheckTimeMs a,
      pe_download_time_ms = GetDownloadTimeMs a, pe_num_bytes_downloaded = num_bytes_downloaded a,
      pe_app_size = GetPackagesTotalSize a, pe_install_time_ms = GetInstallTimeMs a, pe_cancel = None\<rparr>"

definition InstallComplete_CreatePingEvent :: "App \<Rightarrow> PingEvent option" where
  "InstallComplete_CreatePingEvent a =
     (if app_guid a \<noteq> kGoopdateGuid
      then Some (completion_ping a (error_code (error_context a)) (installer_result_extra_code1 a))
      else None)"

definition NoUpdate_CreatePingEvent :: "App \<Rightarrow> PingEvent option" where
  "NoUpdate_CreatePingEvent a =
     (if completion_result a = EVENT_RESULT_UPDATE_DEFERRED
      then Some (PingEvent4 EVENT_UPDATE_COMPLETE (completion_result a) (error_code (error_context a)) 0)
      else None)"

definition Error_CreatePingEvent :: "app_env \<Rightarrow> App \<Rightarrow> CurrentState \<Rightarrow> PingEvent option" where
  "Error_CreatePingEvent env a previous_state =
     (let result = completion_result a;
          is_installer_error = (result = EVENT_RESULT_INSTALLER_ERROR_MSI
            \<or> result = EVENT_RESULT_INSTALLER_ERROR_OTHER \<or> result = EVENT_RESULT_INSTALLER_ERROR_SYSTEM);
          code = (if is_installer_error then installer_result_code a else error_code (error_context a));
          extra = (if is_installer_error then installer_result_extra_code1 a
                   else if extra_code1 (error_context a) \<noteq> 0 then extra_code1 (error_context a)
                   else 0x10000000 OR state_value previous_state);
          extra' = (if code = omaha_error 0x50D \<or> code = itf_error 0x901
                    then env_error_extra_code1 env else extra);
          can_ping = (\<not> is_update a \<or> has_update_available a)
      in if \<not> can_ping then None
         else if result = EVENT_RESULT_CANCELLED then
           Some ((PingEvent4 (completion_type a) result code extra')
             \<lparr>pe_cancel := Some \<lparr>is_bundled = (1 < bundle_number_of_apps env),
                state_when_cancelled = state_cancelled a,
                time_since_update_available_ms = GetTimeSinceUpdateAvailable a,
                time_since_download_start_ms = GetTimeSinceDownloadStart a\<rparr>\<rparr>)
         else Some (completion_ping a code extra'))"

definition CreatePingEvent :: "app_env \<Rightarrow> App \<Rightarrow> CurrentState \<Rightarrow> PingEvent option" where
  "CreatePingEvent env a previous_state =
     (case app_state a of
        STATE_WAITING_TO_DOWNLOAD \<Rightarrow> WaitingToDownload_CreatePingEvent a
      | STATE_DOWNLOADING \<Rightarrow> Downloading_CreatePingEvent a
      | STATE_DOWNLOAD_COMPLETE \<Rightarrow> DownloadComplete_CreatePingEvent a
      | STATE_INSTALLING \<Rightarrow> Installing_CreatePingEvent a
      | STATE_INSTALL_COMPLETE \<Rightarrow> InstallComplete_CreatePingEvent a
      | STATE_NO_UPDATE \<Rightarrow> NoUpdate_CreatePingEvent a
      | STATE_ERROR \<Rightarrow> Error_CreatePingEvent env a previous_state
      | _ \<Rightarrow> None)"

definition ChangeState :: "app_env \<Rightarrow> CurrentState \<Rightarrow> App \<Rightarrow> App" where
  "ChangeState env s a =
     (let existing_state = app_state a; a1 = a\<lparr>app_state := s\<rparr>
      in case CreatePingEvent env a1 existing_state of
           None \<Rightarrow> a1
         | Some p \<Rightarrow> AddPingEvent p a1)"

section \<open>The base class\<close>

definition AppState_Error :: "app_env \<Rightarrow> ErrorContext \<Rightarrow> ui_message \<Rightarrow> App \<Rightarrow> App" where
  "AppState_Error env ec message a = ChangeState env STATE_ERROR (SetError ec message a)"

definition HandleInvalidStateTransition :: "app_env \<Rightarrow> App \<Rightarrow> App" where
  "HandleInvalidStateTransition env a =
     AppState_Error env \<lparr>error_code = omaha_error 0x818, extra_code1 = state_value (app_state a)\<rparr>
       (LoadString IDS_INSTALL_FAILED) a"

definition AppState_Cancel :: "app_env \<Rightarrow> App \<Rightarrow> App" where
  "AppState_Cancel env a =
     (let a1 = SetError (ErrorContext1 (itf_error 0x810)) (LoadString IDS_CANCELED) a;
          a2 = a1\<lparr>state_cancelled := app_state a1\<rparr>
      in ChangeState env STATE_ERROR (SetCurrentTimeAs env TIME_CANCELLED a2))"

definition HandleGroupPolicyError :: "app_env \<Rightarrow> hresult \<Rightarrow> App \<Rightarrow> App" where
  "HandleGroupPolicyError env code a =
     AppState_Error env (ErrorContext1 code) (LoadString IDS_APP_INSTALL_DISABLED_BY_GROUP_POLICY)
       (LogTextAppend (''Status='' @ (if is_update a then ''update'' else ''install'') @ ''-disabled'') a)"

section \<open>The states\<close>

definition Init_QueueUpdateCheck :: "app_env \<Rightarrow> App \<Rightarrow> App" where
  "Init_QueueUpdateCheck env a =
     ChangeState env STATE_WAITING_TO_CHECK_FOR_UPDATE
       (add_effect Eff_ResetCurrentStateKey (add_effect Eff_ResetInstallProgress a))"

definition WaitingToCheckForUpdate_PreUpdateCheck :: "app_env \<Rightarrow> App \<Rightarrow> App" where
  "WaitingToCheckForUpdate_PreUpdateCheck env a =
     (if \<not> bundle_is_auto_update env \<and> FAILED (CheckGroupPolicy env a)
      then HandleGroupPolicyError env (CheckGroupPolicy env a) a
      else
        let a1 = (if \<not> IsEmpty (current_version a)
                  then add_effect (Eff_PurgeAppLowerVersions (current_version a)) a else a);
            a2 = add_effect Eff_SynchronizeClientState a1
        in if is_eula_accepted a2 = TRISTATE_TRUE \<or> bundle_is_offline_install env
           then ChangeState env STATE_CHECKING_FOR_UPDATE
                  (SetCurrentTimeAs env TIME_UPDATE_CHECK_START (add_effect Eff_BuildRequest a2))
           else AppState_Error env (ErrorContext1 (itf_error 0x816)) (LoadString IDS_INSTALL_FAILED)
                  (add_effect Eff_MetricAppsNotUpdatedEula a2))"

definition GetUpdateResponseResult :: "app_env \<Rightarrow> App \<Rightarrow> Response \<Rightarrow> response_result" where
  "GetUpdateResponseResult env a response =
     (let sys = CheckSystemRequirements (env_system env) response
      in if FAILED (fst sys) then sys
         else let result = GetResult response (app_guid a) (display_name a);
                  is_omaha = (app_guid a = kGoopdateGuid);
                  has_update = (fst result = S_OK \<and> is_update a)
              in if \<not> is_omaha \<and> has_update \<and> IsOmahaUpdateAvailable response
                 then (omaha_error 0x81c, LoadString IDS_NO_UPDATE_RESPONSE)
                 else result)"

definition HandleUpdateAvailable :: "app_env \<Rightarrow> Response \<Rightarrow> hresult \<Rightarrow> App \<Rightarrow> App" where
  "HandleUpdateAvailable env response code a =
     (case BuildApp response code (a\<lparr>has_update_available := True\<rparr>) of (hr, a1) \<Rightarrow>
        if FAILED hr then AppState_Error env (ErrorContext1 hr) (LoadString IDS_UNKNOWN_APPLICATION) a1
        else
          let a2 = LogTextAppend (''Status='' @ (if is_update a1 then ''update'' else ''install'')) a1;
              a3 = add_effect (Eff_PersistSuccessfulUpdateCheckResponse True) a2;
              a4 = (if is_update a3 then
                      (if app_guid a3 = kGoopdateGuid then add_effect Eff_MetricSelfUpdatesAvailable a3
                       else add_effect Eff_MetricAppUpdatesAvailable a3)
                    else a3)
          in ChangeState env STATE_UPDATE_AVAILABLE a4)"

definition HandleUpdateDeferred :: "app_env \<Rightarrow> hresult \<Rightarrow> ui_message \<Rightarrow> App \<Rightarrow> App" where
  "HandleUpdateDeferred env code message a =
     ChangeState env STATE_NO_UPDATE (SetNoUpdate (ErrorContext1 code) message a)"

definition HandleNoUpdate :: "app_env \<Rightarrow> Response \<Rightarrow> hresult \<Rightarrow> ui_message \<Rightarrow> App \<Rightarrow> App" where
  "HandleNoUpdate env response code message a =
     (let a1 = LogTextAppend ''Status=no-update'' a
      in if \<not> is_update a1 then AppState_Error env (ErrorContext1 code) message a1
         else
           let a2 = snd (BuildApp response code a1);
               a3 = add_effect (Eff_PersistSuccessfulUpdateCheckResponse False) a2
           in ChangeState env STATE_NO_UPDATE (SetNoUpdate (ErrorContext1 S_OK) message a3))"

definition HandleErrorResponse :: "app_env \<Rightarrow> hresult \<Rightarrow> ui_message \<Rightarrow> App \<Rightarrow> App" where
  "HandleErrorResponse env code message a =
     (let log_status = (if code = itf_error 0x80F then ''no-response-received''
                        else if code = itf_error 0x806 then ''restricted''
                        else ''error'')
      in AppState_Error env (ErrorContext1 code) message
           (LogTextAppend (''Status='' @ log_status @ '', Code=0x'' @ hex8 code) a))"

definition PersistUpdateCheckValuesOnFailure :: "app_env \<Rightarrow> App \<Rightarrow> App" where
  "PersistUpdateCheckValuesOnFailure env a =
     (if http_xdaystart env = -1 \<or> http_xdaynum env = -1 then a
      else add_effect (Eff_PersistUpdateCheckSuccessfullySent (http_xdaynum env) (http_xdaystart env))
             (a\<lparr>day_of_last_response := http_xdaynum env\<rparr>))"

definition PersistUpdateCheckSuccessfullySent :: "app_env \<Rightarrow> Response \<Rightarrow> App \<Rightarrow> App" where
  "PersistUpdateCheckSuccessfullySent env response a =
     (if bundle_is_offline_install env then a
      else add_effect (Eff_PersistUpdateCheckSuccessfullySent (elapsed_days response) (elapsed_seconds response)) a)"

definition CheckingForUpdate_PostUpdateCheck :: "app_env \<Rightarrow> hresult \<Rightarrow> Response \<Rightarrow> App \<Rightarrow> App" where
  "CheckingForUpdate_PostUpdateCheck env update_check_result response a =
     (let a1 = SetCurrentTimeAs env TIME_UPDATE_CHECK_COMPLETE a
      in if FAILED update_check_result then
           AppState_Error env (ErrorContext1 update_check_result) (NetworkErrorMessage update_check_result)
             (PersistUpdateCheckValuesOnFailure env a1)
         else
           let a2 = PersistUpdateCheckSuccessfullySent env response
                      (a1\<lparr>day_of_last_response := elapsed_days response\<rparr>)
           in case GetUpdateResponseResult env a2 response of (code, message) \<Rightarrow>
                if SUCCEEDED code then HandleUpdateAvailable env response code a2
                else if code = omaha_error 0x81c then HandleUpdateDeferred env code message a2
                else if code = itf_error 0x809 then HandleNoUpdate env response code message a2
                else HandleErrorResponse env code message a2)"

definition UpdateAvailable_QueueDownload :: "app_env \<Rightarrow> App \<Rightarrow> App" where
  "UpdateAvailable_QueueDownload env a =
     (if FAILED (CheckGroupPolicy env a) then HandleGroupPolicyError env (CheckGroupPolicy env a) a
      else ChangeState env STATE_WAITING_TO_DOWNLOAD (SetCurrentTimeAs env TIME_UPDATE_AVAILABLE a))"

definition WaitingToDownload_Download :: "(App \<Rightarrow> hresult \<times> App) \<Rightarrow> App \<Rightarrow> App" where
  "WaitingToDownload_Download download_app a =
     (case download_app a of (hr, a1) \<Rightarrow> LogTextAppend (''Download result=0x'' @ hex8 hr) a1)"

text \<open>\<open>get_guid\<close> is the result of creating a fresh GUID, \<open>copy_packages\<close> that of \<open>CopyAppVersionPackages\<close> and
  \<open>install_app\<close> the call \<open>InstallApp\<close>, each on the directory made from the GUID.\<close>

record install_manager_ops =
  get_guid :: "hresult + string"
  copy_packages :: "AppVersion \<Rightarrow> string \<Rightarrow> hresult"
  install_app :: "App \<Rightarrow> string \<Rightarrow> App"

definition WaitingToInstall_Install :: "app_env \<Rightarrow> install_manager_ops \<Rightarrow> App \<Rightarrow> App" where
  "WaitingToInstall_Install env im a =
     (case get_guid im of
        Inl hr \<Rightarrow> AppState_Error env (ErrorContext1 hr) (LoadString IDS_INSTALL_FAILED) a
      | Inr dir \<Rightarrow>
          let hr = copy_packages im (next_version a) dir
          in if SUCCEEDED hr then install_app im a dir
             else AppState_Error env (ErrorContext1 hr) (LoadString IDS_INSTALL_FAILED) a)"

definition new_InstallComplete :: "app_env \<Rightarrow> App \<Rightarrow> App" where
  "new_InstallComplete env a =
     (let a1 = (if env_can_collect_stats env \<and> (\<not> bundle_is_machine env \<or> env_is_running_as_system env)
                then add_effect Eff_StartCrashHandler a else a)
      in add_effect (Eff_PurgeAppLowerVersions (version (next_version a1))) a1)"

definition Installing_ReportInstallerComplete :: "app_env \<Rightarrow> InstallerResultInfo \<Rightarrow> App \<Rightarrow> App" where
  "Installing_ReportInstallerComplete env info a =
     (let a1 = SetInstallerResult info a
      in if ir_type info = INSTALLER_RESULT_SUCCESS
         then ChangeState env STATE_INSTALL_COMPLETE (new_InstallComplete env a1)
         else ChangeState env STATE_ERROR a1)"

section \<open>The transitions of an app\<close>

definition App_Error :: "app_env \<Rightarrow> ErrorContext \<Rightarrow> ui_message \<Rightarrow> App \<Rightarrow> App" where
  "App_Error env ec message a =
     (case app_state a of
        STATE_INSTALL_COMPLETE \<Rightarrow> HandleInvalidStateTransition env a
      | STATE_NO_UPDATE \<Rightarrow> HandleInvalidStateTransition env a
      | STATE_ERROR \<Rightarrow> a
      | _ \<Rightarrow> AppState_Error env ec message a)"

definition AppState_QueueUpdateCheck :: "app_env \<Rightarrow> App \<Rightarrow> App" where
  "AppState_QueueUpdateCheck env a =
     (case app_state a of
        STATE_INIT \<Rightarrow> Init_QueueUpdateCheck env a
      | _ \<Rightarrow> HandleInvalidStateTransition env a)"

definition App_QueueUpdateCheck :: "app_env \<Rightarrow> App \<Rightarrow> App" where
  "App_QueueUpdateCheck env a =
     (let a1 = (if is_eula_accepted a = TRISTATE_NONE
                then App_Error env (ErrorContext1 (omaha_error 0x819)) (LoadString IDS_INSTALL_FAILED) a
                else a)
      in AppState_QueueUpdateCheck env a1)"

definition App_PreUpdateCheck :: "app_env \<Rightarrow> App \<Rightarrow> App" where
  "App_PreUpdateCheck env a =
     (case app_state a of
        STATE_WAITING_TO_CHECK_FOR_UPDATE \<Rightarrow> WaitingToCheckForUpdate_PreUpdateCheck env a
      | STATE_ERROR \<Rightarrow> a
      | _ \<Rightarrow> HandleInvalidStateTransition env a)"

definition App_PostUpdateCheck :: "app_env \<Rightarrow> hresult \<Rightarrow> Response \<Rightarrow> App \<Rightarrow> App" where
  "App_PostUpdateCheck env hr response a =
     (case app_state a of
        STATE_CHECKING_FOR_UPDATE \<Rightarrow> CheckingForUpdate_PostUpdateCheck env hr response a
      | STATE_ERROR \<Rightarrow> a
      | _ \<Rightarrow> HandleInvalidStateTransition env a)"

definition App_QueueDownload :: "app_env \<Rightarrow> App \<Rightarrow> App" where
  "App_QueueDownload env a =
     (case app_state a of
        STATE_UPDATE_AVAILABLE \<Rightarrow> UpdateAvailable_QueueDownload env a
      | STATE_NO_UPDATE \<Rightarrow> a
      | STATE_ERROR \<Rightarrow> a
      | _ \<Rightarrow> HandleInvalidStateTransition env a)"

definition App_QueueInstall :: "app_env \<Rightarrow> App \<Rightarrow> App" where
  "App_QueueInstall env a =
     (case app_state a of
        STATE_READY_TO_INSTALL \<Rightarrow> ChangeState env STATE_WAITING_TO_INSTALL a
      | STATE_WAITING_TO_INSTALL \<Rightarrow> a
      | STATE_NO_UPDATE \<Rightarrow> a
      | STATE_ERROR \<Rightarrow> a
      | _ \<Rightarrow> HandleInvalidStateTransition env a)"

definition App_QueueDownloadOrInstall :: "app_env \<Rightarrow> App \<Rightarrow> App" where
  "App_QueueDownloadOrInstall env a =
     (case app_state a of
        STATE_UPDATE_AVAILABLE \<Rightarrow> UpdateAvailable_QueueDownload env a
      | STATE_READY_TO_INSTALL \<Rightarrow> ChangeState env STATE_WAITING_TO_INSTALL a
      | STATE_NO_UPDATE \<Rightarrow> a
      | STATE_ERROR \<Rightarrow> a
      | _ \<Rightarrow> HandleInvalidStateTransition env a)"

definition App_Download :: "app_env \<Rightarrow> (App \<Rightarrow> hresult \<times> App) \<Rightarrow> App \<Rightarrow> App" where
  "App_Download env download_app a =
     (case app_state a of
        STATE_WAITING_TO_DOWNLOAD \<Rightarrow> WaitingToDownload_Download download_app a
      | STATE_WAITING_TO_INSTALL \<Rightarrow> a
      | STATE_NO_UPDATE \<Rightarrow> a
      | STATE_ERROR \<Rightarrow> a
      | _ \<Rightarrow> HandleInvalidStateTransition env a)"

definition App_Downloading :: "app_env \<Rightarrow> App \<Rightarrow> App" where
  "App_Downloading env a =
     (case app_state a of
        STATE_WAITING_TO_DOWNLOAD \<Rightarrow> ChangeState env STATE_DOWNLOADING a
      | _ \<Rightarrow> HandleInvalidStateTransition env a)"

definition App_DownloadComplete :: "app_env \<Rightarrow> App \<Rightarrow> App" where
  "App_DownloadComplete env a =
     (case app_state a of
        STATE_WAITING_TO_DOWNLOAD \<Rightarrow> ChangeState env STATE_DOWNLOAD_COMPLETE a
      | STATE_DOWNLOADING \<Rightarrow> ChangeState env STATE_DOWNLOAD_COMPLETE a
      | STATE_ERROR \<Rightarrow> a
      | _ \<Rightarrow> HandleInvalidStateTransition env a)"

definition App_MarkReadyToInstall :: "app_env \<Rightarrow> App \<Rightarrow> App" where
  "App_MarkReadyToInstall env a =
     (case app_state a of
        STATE_DOWNLOAD_COMPLETE \<Rightarrow> ChangeState env STATE_READY_TO_INSTALL a
      | STATE_ERROR \<Rightarrow> a
      | _ \<Rightarrow> HandleInvalidStateTransition env a)"

definition App_Install :: "app_env \<Rightarrow> install_manager_ops \<Rightarrow> App \<Rightarrow> App" where
  "App_Install env im a =
     (case app_state a of
        STATE_WAITING_TO_INSTALL \<Rightarrow> WaitingToInstall_Install env im a
      | STATE_NO_UPDATE \<Rightarrow> a
      | STATE_ERROR \<Rightarrow> a
      | _ \<Rightarrow> HandleInvalidStateTransition env a)"

definition App_Installing :: "app_env \<Rightarrow> App \<Rightarrow> App" where
  "App_Installing env a =
     (case app_state a of
        STATE_WAITING_TO_INSTALL \<Rightarrow> ChangeState env STATE_INSTALLING a
      | STATE_INSTALLING \<Rightarrow> a
      | _ \<Rightarrow> HandleInvalidStateTransition env a)"

definition App_ReportInstallerComplete :: "app_env \<Rightarrow> InstallerResultInfo \<Rightarrow> App \<Rightarrow> App" where
  "App_ReportInstallerComplete env info a =
     (case app_state a of
        STATE_INSTALLING \<Rightarrow> Installing_ReportInstallerComplete env info a
      | _ \<Rightarrow> HandleInvalidStateTransition env a)"

definition App_Pause :: "app_env \<Rightarrow> App \<Rightarrow> App" where
  "App_Pause env a = HandleInvalidStateTransition env a"

definition App_Cancel :: "app_env \<Rightarrow> App \<Rightarrow> App" where
  "App_Cancel env a =
     (case app_state a of
        STATE_INSTALLING \<Rightarrow> a
      | STATE_INSTALL_COMPLETE \<Rightarrow> a
      | STATE_NO_UPDATE \<Rightarrow> a
      | STATE_ERROR \<Rightarrow> a
      | _ \<Rightarrow> AppState_Cancel env a)"

text \<open>\<open>AppManager::ReadInstallerRegistrationValues\<close> gives the next version of the app the number that the installer has registered; the language
  of the app is not modelled.\<close>

definition ReadInstallerRegistrationValues :: "string option \<Rightarrow> App \<Rightarrow> hresult \<times> App" where
  "ReadInstallerRegistrationValues pv a =
     (case pv of
        None \<Rightarrow> (itf_error 0x905, a)
      | Some v \<Rightarrow> if IsEmpty v then (itf_error 0x905, a)
                  else (S_OK, a\<lparr>next_version := (next_version a)\<lparr>version := v\<rparr>\<rparr>))"

text \<open>The events of one app. The blocking calls \<open>Download\<close> and \<open>Install\<close> are sequences of these events,
  made by the managers while they run; the last one is made by the install manager once the installer has ended.\<close>

datatype app_event =
    QueueUpdateCheck | PreUpdateCheck | PostUpdateCheck hresult Response | QueueDownload
  | QueueDownloadOrInstall | Downloading | DownloadComplete | MarkReadyToInstall | QueueInstall
  | Installing | ReportInstallerComplete InstallerResultInfo | Pause | Cancel
  | Error ErrorContext ui_message
  | PutIsEulaAccepted bool | PutDisplayName string | PutTtToken string | PutClientInstallData string
  | PutServerInstallDataIndex string | PutUntrustedData string
  | ReadRegistration "string option"

fun app_step :: "App \<Rightarrow> app_env \<times> app_event \<Rightarrow> App" where
  "app_step a (env, QueueUpdateCheck) = App_QueueUpdateCheck env a"
| "app_step a (env, PreUpdateCheck) = App_PreUpdateCheck env a"
| "app_step a (env, PostUpdateCheck hr response) = App_PostUpdateCheck env hr response a"
| "app_step a (env, QueueDownload) = App_QueueDownload env a"
| "app_step a (env, QueueDownloadOrInstall) = App_QueueDownloadOrInstall env a"
| "app_step a (env, Downloading) = App_Downloading env a"
| "app_step a (env, DownloadComplete) = App_DownloadComplete env a"
| "app_step a (env, MarkReadyToInstall) = App_MarkReadyToInstall env a"
| "app_step a (env, QueueInstall) = App_QueueInstall env a"
| "app_step a (env, Installing) = App_Installing env a"
| "app_step a (env, ReportInstallerComplete info) = App_ReportInstallerComplete env info a"
| "app_step a (env, Pause) = App_Pause env a"
| "app_step a (env, Cancel) = App_Cancel env a"
| "app_step a (env, Error ec message) = App_Error env ec message a"
| "app_step a (env, PutIsEulaAccepted b) = put_isEulaAccepted b a"
| "app_step a (env, PutDisplayName s) = put_displayName s a"
| "app_step a (env, PutTtToken s) = put_ttToken s a"
| "app_step a (env, PutClientInstallData s) = put_clientInstallData s a"
| "app_step a (env, PutServerInstallDataIndex s) = put_serverInstallDataIndex s a"
| "app_step a (env, PutUntrustedData s) = put_untrustedData s a"
| "app_step a (env, ReadRegistration pv) = snd (ReadInstallerRegistrationValues pv a)"

text \<open>What \<open>get_currentState\<close> asserts of an app before it reports its state.\<close>

definition message_is_empty :: "ui_message \<Rightarrow> bool" where
  "message_is_empty m \<longleftrightarrow> m = NoMessage \<or> m = MessageText []"

fun currentState_assertions :: "App \<Rightarrow> bool" where
  "currentState_assertions a =
     (case app_state a of
        STATE_NO_UPDATE \<Rightarrow>
          error_code (error_context a) \<in> {S_OK, omaha_error 0x81c} \<and> \<not> message_is_empty (completion_message a)
          \<and> completion_result a \<in> {EVENT_RESULT_SUCCESS, EVENT_RESULT_UPDATE_DEFERRED}
          \<and> installer_result_code a = 0
      | STATE_INSTALL_COMPLETE \<Rightarrow>
          error_code (error_context a) = S_OK \<and> \<not> message_is_empty (completion_message a)
          \<and> completion_result a \<in> {EVENT_RESULT_SUCCESS, EVENT_RESULT_SUCCESS_REBOOT}
      | STATE_ERROR \<Rightarrow>
          error_code (error_context a) \<noteq> S_OK \<and> \<not> message_is_empty (completion_message a)
          \<and> completion_result a \<in> {EVENT_RESULT_ERROR, EVENT_RESULT_CANCELLED, EVENT_RESULT_INSTALLER_ERROR_MSI,
               EVENT_RESULT_INSTALLER_ERROR_OTHER, EVENT_RESULT_INSTALLER_ERROR_SYSTEM}
      | _ \<Rightarrow> True)"

section \<open>What the operations keep\<close>

named_theorems app_simps "how the operations change the members of an app"

lemma put_simps [app_simps]:
  "put_isEulaAccepted b a = a\<lparr>is_eula_accepted := (if b then TRISTATE_TRUE else TRISTATE_FALSE)\<rparr>"
  "put_displayName s a = a\<lparr>display_name := s\<rparr>" "put_ttToken s a = a\<lparr>tt_token := s\<rparr>"
  "put_clientInstallData s a = a\<lparr>client_install_data := s\<rparr>"
  "put_serverInstallDataIndex s a = a\<lparr>server_install_data_index := s\<rparr>"
  "put_untrustedData s a = a\<lparr>untrusted_data := s\<rparr>"
  by (simp_all add: put_isEulaAccepted_def put_displayName_def put_ttToken_def put_clientInstallData_def
        put_serverInstallDataIndex_def put_untrustedData_def)

lemma ReadRegistration_simps [app_simps]:
  "app_state (snd (ReadInstallerRegistrationValues pv a)) = app_state a" "app_guid (snd (ReadInstallerRegistrationValues pv a)) = app_guid a"
  "is_update (snd (ReadInstallerRegistrationValues pv a)) = is_update a"
  "has_update_available (snd (ReadInstallerRegistrationValues pv a)) = has_update_available a"
  "is_eula_accepted (snd (ReadInstallerRegistrationValues pv a)) = is_eula_accepted a"
  "install_manifest (next_version (snd (ReadInstallerRegistrationValues pv a))) = install_manifest (next_version a)"
  "is_canceled (snd (ReadInstallerRegistrationValues pv a)) = is_canceled a"
  "error_context (snd (ReadInstallerRegistrationValues pv a)) = error_context a"
  "completion_message (snd (ReadInstallerRegistrationValues pv a)) = completion_message a"
  "completion_result (snd (ReadInstallerRegistrationValues pv a)) = completion_result a"
  "installer_result_code (snd (ReadInstallerRegistrationValues pv a)) = installer_result_code a"
  "ping_events (snd (ReadInstallerRegistrationValues pv a)) = ping_events a"
  "effects (snd (ReadInstallerRegistrationValues pv a)) = effects a"
  by (simp_all add: ReadInstallerRegistrationValues_def split: option.split)

lemma add_effect_simps [app_simps]:
  "installer_result_code (add_effect e a) = installer_result_code a"
  "app_state (add_effect e a) = app_state a" "app_guid (add_effect e a) = app_guid a"
  "is_update (add_effect e a) = is_update a" "has_update_available (add_effect e a) = has_update_available a"
  "is_eula_accepted (add_effect e a) = is_eula_accepted a" "next_version (add_effect e a) = next_version a"
  "is_canceled (add_effect e a) = is_canceled a" "error_context (add_effect e a) = error_context a"
  "completion_message (add_effect e a) = completion_message a"
  "completion_result (add_effect e a) = completion_result a" "ping_events (add_effect e a) = ping_events a"
  "state_cancelled (add_effect e a) = state_cancelled a" "effects (add_effect e a) = effects a @ [e]"
  by (simp_all add: add_effect_def)

lemma ChangeState_simps [app_simps]:
  "installer_result_code (ChangeState env s a) = installer_result_code a"
  "app_state (ChangeState env s a) = s" "app_guid (ChangeState env s a) = app_guid a"
  "is_update (ChangeState env s a) = is_update a"
  "has_update_available (ChangeState env s a) = has_update_available a"
  "is_eula_accepted (ChangeState env s a) = is_eula_accepted a"
  "next_version (ChangeState env s a) = next_version a" "is_canceled (ChangeState env s a) = is_canceled a"
  "error_context (ChangeState env s a) = error_context a"
  "completion_message (ChangeState env s a) = completion_message a"
  "completion_result (ChangeState env s a) = completion_result a"
  "state_cancelled (ChangeState env s a) = state_cancelled a"
  "ping_events (ChangeState env s a) =
     ping_events a @ (case CreatePingEvent env (a\<lparr>app_state := s\<rparr>) (app_state a) of None \<Rightarrow> [] | Some p \<Rightarrow> [p])"
  "Eff_NullDereference \<in> set (effects (ChangeState env s a)) \<longleftrightarrow> Eff_NullDereference \<in> set (effects a)"
  by (auto simp: ChangeState_def Let_def AddPingEvent_def app_simps split: option.split)

lemma setters_simps [app_simps]:
  "installer_result_code (SetCurrentTimeAs env t a) = installer_result_code a"
  "installer_result_code (LogTextAppend s a) = installer_result_code a"
  "app_state (SetCurrentTimeAs env t a) = app_state a" "app_guid (SetCurrentTimeAs env t a) = app_guid a"
  "is_update (SetCurrentTimeAs env t a) = is_update a"
  "has_update_available (SetCurrentTimeAs env t a) = has_update_available a"
  "next_version (SetCurrentTimeAs env t a) = next_version a" "is_canceled (SetCurrentTimeAs env t a) = is_canceled a"
  "error_context (SetCurrentTimeAs env t a) = error_context a"
  "completion_message (SetCurrentTimeAs env t a) = completion_message a"
  "completion_result (SetCurrentTimeAs env t a) = completion_result a"
  "ping_events (SetCurrentTimeAs env t a) = ping_events a"
  "state_cancelled (SetCurrentTimeAs env t a) = state_cancelled a" "effects (SetCurrentTimeAs env t a) = effects a"
  "app_state (LogTextAppend s a) = app_state a" "app_guid (LogTextAppend s a) = app_guid a"
  "is_update (LogTextAppend s a) = is_update a" "has_update_available (LogTextAppend s a) = has_update_available a"
  "next_version (LogTextAppend s a) = next_version a" "is_canceled (LogTextAppend s a) = is_canceled a"
  "error_context (LogTextAppend s a) = error_context a" "completion_message (LogTextAppend s a) = completion_message a"
  "completion_result (LogTextAppend s a) = completion_result a" "ping_events (LogTextAppend s a) = ping_events a"
  "state_cancelled (LogTextAppend s a) = state_cancelled a" "effects (LogTextAppend s a) = effects a"
  by (simp_all add: SetCurrentTimeAs_def LogTextAppend_def)

lemma SetError_simps [app_simps]:
  "installer_result_code (SetError ec m a) = installer_result_code a"
  "app_state (SetError ec m a) = app_state a" "app_guid (SetError ec m a) = app_guid a"
  "is_update (SetError ec m a) = is_update a" "has_update_available (SetError ec m a) = has_update_available a"
  "next_version (SetError ec m a) = next_version a"
  "is_canceled (SetError ec m a) \<longleftrightarrow> error_code ec = itf_error 0x810"
  "error_context (SetError ec m a) = ec" "completion_message (SetError ec m a) = m"
  "completion_result (SetError ec m a) =
     (if error_code ec = itf_error 0x810 then EVENT_RESULT_CANCELLED else EVENT_RESULT_ERROR)"
  "ping_events (SetError ec m a) = ping_events a" "state_cancelled (SetError ec m a) = state_cancelled a"
  "effects (SetError ec m a) = effects a"
  by (simp_all add: SetError_def Let_def)

lemma SetNoUpdate_simps [app_simps]:
  "installer_result_code (SetNoUpdate ec m a) = installer_result_code a"
  "app_state (SetNoUpdate ec m a) = app_state a" "app_guid (SetNoUpdate ec m a) = app_guid a"
  "is_update (SetNoUpdate ec m a) = is_update a" "has_update_available (SetNoUpdate ec m a) = has_update_available a"
  "next_version (SetNoUpdate ec m a) = next_version a" "is_canceled (SetNoUpdate ec m a) = is_canceled a"
  "error_context (SetNoUpdate ec m a) = ec" "completion_message (SetNoUpdate ec m a) = m"
  "completion_result (SetNoUpdate ec m a) =
     (if error_code ec = omaha_error 0x81c then EVENT_RESULT_UPDATE_DEFERRED else EVENT_RESULT_SUCCESS)"
  "ping_events (SetNoUpdate ec m a) = ping_events a" "effects (SetNoUpdate ec m a) = effects a"
  by (simp_all add: SetNoUpdate_def)

lemma SetInstallerResult_simps [app_simps]:
  "app_state (SetInstallerResult r a) = app_state a" "app_guid (SetInstallerResult r a) = app_guid a"
  "is_update (SetInstallerResult r a) = is_update a"
  "has_update_available (SetInstallerResult r a) = has_update_available a"
  "next_version (SetInstallerResult r a) = next_version a" "is_canceled (SetInstallerResult r a) = is_canceled a"
  "ping_events (SetInstallerResult r a) = ping_events a"
  "Eff_NullDereference \<in> set (effects (SetInstallerResult r a)) \<longleftrightarrow> Eff_NullDereference \<in> set (effects a)"
  by (auto simp: SetInstallerResult_def Let_def app_simps split: InstallerResultType.split)

lemma new_InstallComplete_simps [app_simps]:
  "completion_message (new_InstallComplete env a) = completion_message a"
  "installer_result_code (new_InstallComplete env a) = installer_result_code a"
  "app_state (new_InstallComplete env a) = app_state a" "app_guid (new_InstallComplete env a) = app_guid a"
  "is_update (new_InstallComplete env a) = is_update a"
  "has_update_available (new_InstallComplete env a) = has_update_available a"
  "next_version (new_InstallComplete env a) = next_version a"
  "is_canceled (new_InstallComplete env a) = is_canceled a"
  "error_context (new_InstallComplete env a) = error_context a"
  "completion_result (new_InstallComplete env a) = completion_result a"
  "ping_events (new_InstallComplete env a) = ping_events a"
  "Eff_NullDereference \<in> set (effects (new_InstallComplete env a)) \<longleftrightarrow> Eff_NullDereference \<in> set (effects a)"
  by (auto simp: new_InstallComplete_def Let_def app_simps)

lemma Persist_simps [app_simps]:
  "installer_result_code (PersistUpdateCheckSuccessfullySent env r a) = installer_result_code a"
  "app_state (PersistUpdateCheckValuesOnFailure env a) = app_state a"
  "app_guid (PersistUpdateCheckValuesOnFailure env a) = app_guid a"
  "is_update (PersistUpdateCheckValuesOnFailure env a) = is_update a"
  "has_update_available (PersistUpdateCheckValuesOnFailure env a) = has_update_available a"
  "ping_events (PersistUpdateCheckValuesOnFailure env a) = ping_events a"
  "Eff_NullDereference \<in> set (effects (PersistUpdateCheckValuesOnFailure env a)) \<longleftrightarrow> Eff_NullDereference \<in> set (effects a)"
  "app_state (PersistUpdateCheckSuccessfullySent env r a) = app_state a"
  "app_guid (PersistUpdateCheckSuccessfullySent env r a) = app_guid a"
  "display_name (PersistUpdateCheckSuccessfullySent env r a) = display_name a"
  "is_update (PersistUpdateCheckSuccessfullySent env r a) = is_update a"
  "has_update_available (PersistUpdateCheckSuccessfullySent env r a) = has_update_available a"
  "next_version (PersistUpdateCheckSuccessfullySent env r a) = next_version a"
  "is_canceled (PersistUpdateCheckSuccessfullySent env r a) = is_canceled a"
  "error_context (PersistUpdateCheckSuccessfullySent env r a) = error_context a"
  "completion_result (PersistUpdateCheckSuccessfullySent env r a) = completion_result a"
  "ping_events (PersistUpdateCheckSuccessfullySent env r a) = ping_events a"
  "Eff_NullDereference \<in> set (effects (PersistUpdateCheckSuccessfullySent env r a)) \<longleftrightarrow> Eff_NullDereference \<in> set (effects a)"
  by (auto simp: PersistUpdateCheckValuesOnFailure_def PersistUpdateCheckSuccessfullySent_def add_effect_def)

lemma AppState_Error_simps [app_simps]:
  "app_state (AppState_Error env ec m a) = STATE_ERROR" "is_update (AppState_Error env ec m a) = is_update a"
  "app_guid (AppState_Error env ec m a) = app_guid a"
  "has_update_available (AppState_Error env ec m a) = has_update_available a"
  "error_context (AppState_Error env ec m a) = ec" "completion_message (AppState_Error env ec m a) = m"
  "is_canceled (AppState_Error env ec m a) \<longleftrightarrow> error_code ec = itf_error 0x810"
  "completion_result (AppState_Error env ec m a) =
     (if error_code ec = itf_error 0x810 then EVENT_RESULT_CANCELLED else EVENT_RESULT_ERROR)"
  "Eff_NullDereference \<in> set (effects (AppState_Error env ec m a)) \<longleftrightarrow> Eff_NullDereference \<in> set (effects a)"
  by (simp_all add: AppState_Error_def app_simps)

section \<open>The app built from a response\<close>

lemma GetUpdateResponseResult_cases:
  assumes "GetUpdateResponseResult env a response = (code, message)"
  obtains (available) ra where "code = S_OK" "GetApp response (app_guid a) = Some ra"
    | (deferred) "code = omaha_error 0x81c" "is_update a"
    | (no_update) ra where "code = itf_error 0x809" "GetApp response (app_guid a) = Some ra"
    | (failed) "FAILED code" "code \<notin> {omaha_error 0x81c, itf_error 0x809}"
proof (cases "FAILED (fst (CheckSystemRequirements (env_system env) response))")
  case True
  then show ?thesis using assms failed
    by (auto simp: GetUpdateResponseResult_def Let_def CheckSystemRequirements_def hresult_defs split: if_splits)
next
  case ok: False
  let ?r = "GetResult response (app_guid a) (display_name a)"
  show ?thesis
  proof (cases "(code, message) = ?r")
    case True
    then have r: "fst ?r = code" by (metis fst_conv)
    show ?thesis
    proof (cases "code = S_OK \<or> code = itf_error 0x809")
      case True
      then show ?thesis using GetResult_found [of response "app_guid a" "display_name a"] r available no_update by auto
    next
      case False
      then show ?thesis using GetResult_codes [of response "app_guid a" "display_name a"] r failed by auto
    qed
  next
    case False
    then show ?thesis using assms ok deferred by (auto simp: GetUpdateResponseResult_def Let_def split: if_splits)
  qed
qed

lemma BuildApp_keeps:
  assumes "BuildApp r c a = (hr, a')"
  shows "app_state a' = app_state a" "app_guid a' = app_guid a" "is_update a' = is_update a"
    "has_update_available a' = has_update_available a" "is_canceled a' = is_canceled a"
    "error_context a' = error_context a" "completion_result a' = completion_result a"
    "ping_events a' = ping_events a" "installer_result_code a' = installer_result_code a"
    "completion_message a' = completion_message a"
  using assms
  by (auto simp: BuildApp_def Let_def add_effect_def split: option.splits prod.splits if_splits sum.splits)

lemma BuildApp_effects:
  "BuildApp r c a = (hr, a') \<Longrightarrow> GetApp r (app_guid a) = Some ra \<Longrightarrow> effects a' = effects a"
  by (auto simp: BuildApp_def Let_def split: prod.splits if_splits sum.splits)

lemma BuildApp_manifest:
  "BuildApp r c a = (hr, a') \<Longrightarrow> SUCCEEDED hr \<Longrightarrow> c \<noteq> itf_error 0x809 \<Longrightarrow>
     \<exists>ra. GetApp r (app_guid a) = Some ra \<and> install_manifest (next_version a') = Some (uc_install_manifest (ra_update_check ra))
        \<and> version (next_version a') = im_version (uc_install_manifest (ra_update_check ra))"
  by (auto simp: BuildApp_def Let_def split: option.splits prod.splits if_splits sum.splits
           dest!: GetInstallData_failed)


section \<open>The state diagram\<close>

text \<open>The states that one operation can move an app to, in the order of a successful run.\<close>

fun next_states :: "CurrentState \<Rightarrow> CurrentState list" where
  "next_states STATE_INIT = [STATE_WAITING_TO_CHECK_FOR_UPDATE, STATE_ERROR]"
| "next_states STATE_WAITING_TO_CHECK_FOR_UPDATE = [STATE_CHECKING_FOR_UPDATE, STATE_ERROR]"
| "next_states STATE_CHECKING_FOR_UPDATE = [STATE_UPDATE_AVAILABLE, STATE_NO_UPDATE, STATE_ERROR]"
| "next_states STATE_UPDATE_AVAILABLE = [STATE_WAITING_TO_DOWNLOAD, STATE_ERROR]"
| "next_states STATE_WAITING_TO_DOWNLOAD = [STATE_DOWNLOADING, STATE_DOWNLOAD_COMPLETE, STATE_ERROR]"
| "next_states STATE_DOWNLOADING = [STATE_DOWNLOAD_COMPLETE, STATE_ERROR]"
| "next_states STATE_DOWNLOAD_COMPLETE = [STATE_READY_TO_INSTALL, STATE_ERROR]"
| "next_states STATE_READY_TO_INSTALL = [STATE_WAITING_TO_INSTALL, STATE_ERROR]"
| "next_states STATE_WAITING_TO_INSTALL = [STATE_INSTALLING, STATE_ERROR]"
| "next_states STATE_INSTALLING = [STATE_INSTALL_COMPLETE, STATE_ERROR]"
| "next_states STATE_ERROR = []"
| "next_states _ = [STATE_ERROR]"

lemmas transition_defs =
  App_QueueUpdateCheck_def AppState_QueueUpdateCheck_def App_PreUpdateCheck_def App_PostUpdateCheck_def
  App_QueueDownload_def App_QueueDownloadOrInstall_def App_Downloading_def App_DownloadComplete_def
  App_MarkReadyToInstall_def App_QueueInstall_def App_Installing_def App_ReportInstallerComplete_def
  App_Pause_def App_Cancel_def App_Error_def

lemmas handler_defs =
  Init_QueueUpdateCheck_def WaitingToCheckForUpdate_PreUpdateCheck_def UpdateAvailable_QueueDownload_def
  HandleGroupPolicyError_def HandleInvalidStateTransition_def Installing_ReportInstallerComplete_def
  AppState_Cancel_def

lemma PostUpdateCheck_state:
  "app_state (CheckingForUpdate_PostUpdateCheck env hr r a)
     \<in> {STATE_UPDATE_AVAILABLE, STATE_NO_UPDATE, STATE_ERROR}"
  by (auto simp: CheckingForUpdate_PostUpdateCheck_def Let_def HandleUpdateAvailable_def HandleUpdateDeferred_def
        HandleNoUpdate_def HandleErrorResponse_def app_simps split: prod.split)

lemma app_step_state:
  "app_state (app_step a e) \<in> insert (app_state a) (set (next_states (app_state a)))"
proof (cases "(a, e)" rule: app_step.cases)
  case (3 a env hr r)
  then show ?thesis using PostUpdateCheck_state [of env hr r a]
    by (cases "app_state a") (auto simp: transition_defs handler_defs app_simps)
qed (cases "app_state a"; simp add: transition_defs handler_defs Let_def app_simps)+

subsection \<open>The order of the phases\<close>

fun app_states :: "App \<Rightarrow> (app_env \<times> app_event) list \<Rightarrow> CurrentState list" where
  "app_states a [] = [app_state a]"
| "app_states a (e # es) = app_state a # app_states (app_step a e) es"

text \<open>The states that an app in a given state has been in, the optional one left out.\<close>

fun passed :: "CurrentState \<Rightarrow> CurrentState list" where
  "passed STATE_ERROR = []"
| "passed STATE_NO_UPDATE =
     [STATE_INIT, STATE_WAITING_TO_CHECK_FOR_UPDATE, STATE_CHECKING_FOR_UPDATE, STATE_NO_UPDATE]"
| "passed STATE_DOWNLOADING =
     [STATE_INIT, STATE_WAITING_TO_CHECK_FOR_UPDATE, STATE_CHECKING_FOR_UPDATE, STATE_UPDATE_AVAILABLE,
      STATE_WAITING_TO_DOWNLOAD, STATE_DOWNLOADING]"
| "passed s =
     takeWhile (\<lambda>t. t \<noteq> s)
       [STATE_INIT, STATE_WAITING_TO_CHECK_FOR_UPDATE, STATE_CHECKING_FOR_UPDATE, STATE_UPDATE_AVAILABLE,
        STATE_WAITING_TO_DOWNLOAD, STATE_DOWNLOAD_COMPLETE, STATE_READY_TO_INSTALL, STATE_WAITING_TO_INSTALL,
        STATE_INSTALLING, STATE_INSTALL_COMPLETE] @ [s]"

lemma subseq_extend:
  "subseq xs ys \<Longrightarrow> subseq xs (ys @ zs)"
  "subseq xs ys \<Longrightarrow> subseq (xs @ [z]) (ys @ [z])"
  by (auto intro: list_emb_append_mono list_emb_append2 subseq_rev_drop_many)

lemma passed_step:
  assumes "t \<in> insert s (set (next_states s))" "subseq (passed s) ss"
  shows "subseq (passed t) (ss @ [t])"
proof (cases "t = s")
  case True
  then show ?thesis using assms subseq_extend(1) by blast
next
  case False
  then have "passed t = [] \<or> passed t = passed s @ [t] \<or> (passed s = butlast (passed t) @ [s] \<and> passed t \<noteq> [] \<and> last (passed t) = t)"
    using assms(1) by (cases s) auto
  then show ?thesis
    using assms(2) subseq_extend [of "passed s" ss]
      subseq_extend(2) [of "butlast (passed t)" ss t] list_emb_append_mono
    by (metis append_butlast_last_id list_emb_Nil subseq_append' subseq_order.trans list_emb_append2 subseq_extend(1) subseq_order.refl)
qed

lemma app_states_snoc: "app_states a (es @ [e]) = app_states a es @ [app_state (foldl app_step a (es @ [e]))]"
  by (induction es arbitrary: a) auto

lemma app_states_passed:
  "subseq (passed (app_state a)) [app_state a] \<Longrightarrow>
     subseq (passed (app_state (foldl app_step a es))) (app_states a es)"
proof (induction es rule: rev_induct)
  case (snoc e es)
  then show ?case
    using passed_step [OF app_step_state [of "foldl app_step a es" e]] by (simp add: app_states_snoc)
qed simp

text \<open>C4. The life of an app is ordered. Whatever operations are called, in whatever order and with
  whatever arguments and environment, an app whose installer has been started has been through the
  update check, the update was available, the download was queued and completed and the install was
  queued, in this order; calling an operation too early never skips a phase.\<close>

theorem app_lifecycle:
  assumes "app_state (foldl app_step (new_App g upd) es) \<in> {STATE_INSTALLING, STATE_INSTALL_COMPLETE}"
  shows "subseq
      [STATE_INIT, STATE_WAITING_TO_CHECK_FOR_UPDATE, STATE_CHECKING_FOR_UPDATE, STATE_UPDATE_AVAILABLE,
       STATE_WAITING_TO_DOWNLOAD, STATE_DOWNLOAD_COMPLETE, STATE_READY_TO_INSTALL, STATE_WAITING_TO_INSTALL,
       STATE_INSTALLING] (app_states (new_App g upd) es)"
proof -
  have "subseq (passed (app_state (foldl app_step (new_App g upd) es))) (app_states (new_App g upd) es)"
    by (rule app_states_passed) (simp add: new_App_def)
  then show ?thesis
    using assms subseq_order.trans [OF subseq_extend(1) [OF subseq_order.refl]] by fastforce
qed

subsection \<open>A sample run\<close>

definition sample_env :: app_env where
  "sample_env =
     \<lparr>env_config = sample_config, env_memory = 0,
      env_system = \<lparr>os_info = Inr ''10.0'', architecture = ''x64'', is_architecture_supported = (\<lambda>s. s = ''x86'')\<rparr>,
      env_time = (\<lambda>_. 5), env_error_extra_code1 = 0, env_can_collect_stats = False,
      env_is_running_as_system = False, bundle_is_auto_update = False, bundle_is_offline_install = False,
      bundle_is_machine = False, bundle_number_of_apps = 1, http_xdaynum = -1, http_xdaystart = -1\<rparr>"

definition sample_response :: Response where
  "sample_response =
     \<lparr>resp_protocol = ''3.0'', elapsed_seconds = 0, elapsed_days = 0,
      sys_req = \<lparr>sr_platform = ''win'', sr_arch = [], sr_min_os_version = []\<rparr>,
      resp_apps =
       [\<lparr>ra_status = ''ok'', ra_appid = ''{a}'', ra_experiments = [], ra_cohort = [], ra_cohort_hint = [],
         ra_cohort_name = [],
         ra_update_check =
           \<lparr>uc_status = ''ok'', uc_tt_token = [], uc_error_url = [], uc_urls = [''http://d/''],
            uc_install_manifest =
              \<lparr>im_name = ''m'', im_version = ''1.2'',
               im_packages = [\<lparr>ip_name = ''a.exe'', ip_version = [], ip_is_required = True, ip_size = 7,
                                hash_sha1 = [], hash_sha256 = ''00''\<rparr>],
               install_actions = []\<rparr>\<rparr>,
         ra_data = [], ra_ping_status = [], ra_event_statuses = []\<rparr>]\<rparr>"

definition sample_events :: "(app_env \<times> app_event) list" where
  "sample_events = map (Pair sample_env)
     [PutIsEulaAccepted True, QueueUpdateCheck, PreUpdateCheck, PostUpdateCheck 0 sample_response,
      QueueDownload, Downloading, DownloadComplete, MarkReadyToInstall, QueueInstall, Installing]"

lemma sample_run: "app_state (foldl app_step (new_App ''{A}'' False) sample_events) = STATE_INSTALLING"
  by code_simp

theorem app_lifecycle_witness:
  "subseq
      [STATE_INIT, STATE_WAITING_TO_CHECK_FOR_UPDATE, STATE_CHECKING_FOR_UPDATE, STATE_UPDATE_AVAILABLE,
       STATE_WAITING_TO_DOWNLOAD, STATE_DOWNLOAD_COMPLETE, STATE_READY_TO_INSTALL, STATE_WAITING_TO_INSTALL,
       STATE_INSTALLING] (app_states (new_App ''{A}'' False) sample_events)"
  by (rule app_lifecycle) (simp add: sample_run)

section \<open>The invariant of an app\<close>

definition has_manifest :: "AppVersion \<Rightarrow> bool" where
  "has_manifest v \<longleftrightarrow> (case install_manifest v of None \<Rightarrow> False | Some m \<Rightarrow> version v = im_version m)"

text \<open>
  The flag says whether the number that an installer registered may have replaced that of the manifest.
\<close>

definition manifest_known :: "bool \<Rightarrow> AppVersion \<Rightarrow> bool" where
  "manifest_known registered v \<longleftrightarrow> install_manifest v \<noteq> None \<and> (registered \<or> has_manifest v)"

definition no_result :: "App \<Rightarrow> bool" where
  "no_result a \<longleftrightarrow> error_code (error_context a) = S_OK \<and> completion_result a = EVENT_RESULT_SUCCESS
     \<and> installer_result_code a = 0"

fun state_ok :: "bool \<Rightarrow> CurrentState \<Rightarrow> App \<Rightarrow> bool" where
  "state_ok registered STATE_ERROR a =
     (FAILED (error_code (error_context a)) \<and> \<not> message_is_empty (completion_message a)
      \<and> completion_result a \<in> {EVENT_RESULT_ERROR, EVENT_RESULT_CANCELLED, EVENT_RESULT_INSTALLER_ERROR_MSI,
           EVENT_RESULT_INSTALLER_ERROR_OTHER, EVENT_RESULT_INSTALLER_ERROR_SYSTEM})"
| "state_ok registered STATE_NO_UPDATE a =
     (is_update a \<and> \<not> has_update_available a \<and> \<not> message_is_empty (completion_message a) \<and> installer_result_code a = 0
      \<and> (error_code (error_context a), completion_result a)
          \<in> {(S_OK, EVENT_RESULT_SUCCESS), (omaha_error 0x81c, EVENT_RESULT_UPDATE_DEFERRED)})"
| "state_ok registered STATE_INSTALL_COMPLETE a =
     (error_code (error_context a) = S_OK \<and> completion_result a = EVENT_RESULT_SUCCESS
      \<and> \<not> message_is_empty (completion_message a) \<and> has_update_available a \<and> manifest_known registered (next_version a))"
| "state_ok registered s a =
     (no_result a \<and>
      (if s \<in> {STATE_INIT, STATE_WAITING_TO_CHECK_FOR_UPDATE, STATE_CHECKING_FOR_UPDATE}
       then \<not> has_update_available a
       else s \<notin> {STATE_RETRYING_DOWNLOAD, STATE_EXTRACTING, STATE_APPLYING_DIFFERENTIAL_PATCH, STATE_PAUSED}
         \<and> has_update_available a \<and> manifest_known registered (next_version a)))"

definition app_ok :: "bool \<Rightarrow> App \<Rightarrow> bool" where
  "app_ok registered a \<longleftrightarrow> state_ok registered (app_state a) a \<and> (is_canceled a \<longleftrightarrow> error_code (error_context a) = itf_error 0x810)
     \<and> Eff_NullDereference \<notin> set (effects a)"

text \<open>What a caller owes: an error is reported with a failure code and every final message is a text.\<close>

fun event_ok :: "app_env \<times> app_event \<Rightarrow> bool" where
  "event_ok (env, Error ec m) = (FAILED (error_code ec) \<and> \<not> message_is_empty m)"
| "event_ok (env, ReportInstallerComplete info) = (\<not> message_is_empty (ir_text info))"
| "event_ok _ = True"

fun registers :: "app_env \<times> app_event \<Rightarrow> bool" where
  "registers (env, ReadRegistration pv) = True"
| "registers _ = False"

lemma AppState_Error_ok:
  "FAILED (error_code ec) \<Longrightarrow> \<not> message_is_empty m \<Longrightarrow> Eff_NullDereference \<notin> set (effects a) \<Longrightarrow>
     app_ok reg (AppState_Error env ec m a)"
  by (simp add: app_ok_def app_simps)

lemma HandleInvalidStateTransition_ok:
  "app_ok reg a \<Longrightarrow> app_ok reg (HandleInvalidStateTransition env a)"
  unfolding HandleInvalidStateTransition_def
  by (rule AppState_Error_ok) (simp_all add: app_ok_def message_is_empty_def hresult_defs)

lemma AppState_Cancel_ok: "app_ok reg a \<Longrightarrow> app_ok reg (AppState_Cancel env a)"
  by (simp add: app_ok_def AppState_Cancel_def Let_def app_simps ErrorContext1_def message_is_empty_def hresult_defs)

lemma CheckGroupPolicy_codes: "CheckGroupPolicy env a \<in> {S_OK, itf_error 0x812, itf_error 0x813, itf_error 0x81f}"
  by (simp add: CheckGroupPolicy_def)

lemma HandleGroupPolicyError_ok:
  "app_ok reg a \<Longrightarrow> FAILED hr \<Longrightarrow> app_ok reg (HandleGroupPolicyError env hr a)"
  unfolding HandleGroupPolicyError_def
  by (rule AppState_Error_ok) (simp_all add: app_ok_def ErrorContext1_def message_is_empty_def app_simps)

lemma QueueUpdateCheck_ok: "app_ok reg a \<Longrightarrow> app_ok reg (AppState_QueueUpdateCheck env a)"
  by (cases "app_state a")
     (auto simp: AppState_QueueUpdateCheck_def Init_QueueUpdateCheck_def HandleInvalidStateTransition_ok,
      auto simp: app_ok_def app_simps no_result_def)

lemma PreUpdateCheck_ok: "app_ok reg a \<Longrightarrow> app_ok reg (App_PreUpdateCheck env a)"
proof (cases "app_state a = STATE_WAITING_TO_CHECK_FOR_UPDATE")
  case True
  moreover assume "app_ok reg a"
  ultimately show ?thesis
    by (simp add: App_PreUpdateCheck_def WaitingToCheckForUpdate_PreUpdateCheck_def HandleGroupPolicyError_ok Let_def)
       (simp add: app_ok_def app_simps no_result_def ErrorContext1_def message_is_empty_def hresult_defs)
next
  case False
  moreover assume "app_ok reg a"
  ultimately show ?thesis
    by (cases "app_state a") (simp_all add: App_PreUpdateCheck_def HandleInvalidStateTransition_ok)
qed

lemma UpdateAvailable_QueueDownload_ok:
  "app_ok reg a \<Longrightarrow> app_state a = STATE_UPDATE_AVAILABLE \<Longrightarrow> app_ok reg (UpdateAvailable_QueueDownload env a)"
  by (simp add: UpdateAvailable_QueueDownload_def HandleGroupPolicyError_ok)
     (simp add: app_ok_def app_simps no_result_def)

lemma Installing_ReportInstallerComplete_ok:
  "app_ok reg a \<Longrightarrow> app_state a = STATE_INSTALLING \<Longrightarrow> \<not> message_is_empty (ir_text info) \<Longrightarrow>
     app_ok reg (Installing_ReportInstallerComplete env info a)"
  by (cases "ir_type info")
     (auto simp: app_ok_def Installing_ReportInstallerComplete_def Let_def app_simps SetInstallerResult_def
        no_result_def hresult_defs)

lemma HandleUpdateAvailable_ok:
  assumes "Eff_NullDereference \<notin> set (effects a)" "no_result a" "\<not> is_canceled a" "GetApp r (app_guid a) = Some ra"
    and "code \<noteq> itf_error 0x809"
  shows "app_ok reg (HandleUpdateAvailable env r code a)"
proof -
  obtain hr b where b: "BuildApp r code (a\<lparr>has_update_available := True\<rparr>) = (hr, b)" by fastforce
  note keeps = BuildApp_keeps [OF b] BuildApp_effects [OF b]
  show ?thesis
  proof (cases "SUCCEEDED hr")
    case True
    then have "manifest_known reg (next_version b)"
      using BuildApp_manifest [OF b] assms(5) by (auto simp: manifest_known_def has_manifest_def)
    then show ?thesis
      using True assms keeps b
      by (simp add: HandleUpdateAvailable_def Let_def app_ok_def app_simps no_result_def hresult_defs)
  next
    case False
    then show ?thesis
      using assms keeps b
      by (simp add: HandleUpdateAvailable_def, intro AppState_Error_ok)
         (simp_all add: ErrorContext1_def message_is_empty_def)
  qed
qed

lemma HandleNoUpdate_ok:
  assumes "Eff_NullDereference \<notin> set (effects a)" "no_result a" "\<not> is_canceled a" "\<not> has_update_available a"
    and "GetApp r (app_guid a) = Some ra" "\<not> message_is_empty m"
  shows "app_ok reg (HandleNoUpdate env r (itf_error 0x809) m a)"
proof (cases "is_update a")
  case True
  obtain hr b where b: "BuildApp r (itf_error 0x809) (LogTextAppend ''Status=no-update'' a) = (hr, b)" by fastforce
  show ?thesis
    using True assms BuildApp_keeps [OF b] BuildApp_effects [OF b] b
    by (simp add: HandleNoUpdate_def Let_def app_ok_def app_simps no_result_def ErrorContext1_def hresult_defs)
next
  case False
  then show ?thesis
    using assms by (simp add: HandleNoUpdate_def app_simps, intro AppState_Error_ok)
      (simp_all add: ErrorContext1_def app_simps hresult_defs)
qed

lemma GetUpdateResponseResult_message:
  "FAILED code \<Longrightarrow> GetUpdateResponseResult env a response = (code, message) \<Longrightarrow> \<not> message_is_empty message"
proof -
  have "FAILED (fst (GetResult r g n)) \<Longrightarrow> \<not> message_is_empty (snd (GetResult r g n))" for r g n
  proof (cases "GetApp r g")
    case (Some ra)
    moreover assume "FAILED (fst (GetResult r g n))"
    ultimately show ?thesis
      by (cases "EqualNoCase ''ok'' (GetAppResponseStatus ra)")
         (simp_all add: GetResult_def Let_def message_is_empty_def)
  qed (simp add: GetResult_def message_is_empty_def)
  then show "FAILED code \<Longrightarrow> GetUpdateResponseResult env a response = (code, message) \<Longrightarrow> \<not> message_is_empty message"
    by (auto simp: GetUpdateResponseResult_def Let_def CheckSystemRequirements_def message_is_empty_def
             split: if_splits) (metis fst_conv snd_conv)+
qed

abbreviation after_check :: "app_env \<Rightarrow> Response \<Rightarrow> App \<Rightarrow> App" where
  "after_check env r a \<equiv> PersistUpdateCheckSuccessfullySent env r
     ((SetCurrentTimeAs env TIME_UPDATE_CHECK_COMPLETE a)\<lparr>day_of_last_response := elapsed_days r\<rparr>)"

lemma PostUpdateCheck_cases:
  obtains (network) "FAILED hr" "CheckingForUpdate_PostUpdateCheck env hr r a =
      AppState_Error env (ErrorContext1 hr) (NetworkErrorMessage hr)
        (PersistUpdateCheckValuesOnFailure env (SetCurrentTimeAs env TIME_UPDATE_CHECK_COMPLETE a))"
    | (available) ra where "GetApp r (app_guid a) = Some ra"
        "CheckingForUpdate_PostUpdateCheck env hr r a = HandleUpdateAvailable env r S_OK (after_check env r a)"
    | (deferred) m where "is_update a" "\<not> message_is_empty m" "CheckingForUpdate_PostUpdateCheck env hr r a =
        HandleUpdateDeferred env (omaha_error 0x81c) m (after_check env r a)"
    | (no_update) ra m where "GetApp r (app_guid a) = Some ra" "\<not> message_is_empty m"
        "CheckingForUpdate_PostUpdateCheck env hr r a =
           HandleNoUpdate env r (itf_error 0x809) m (after_check env r a)"
    | (failed) code m where "FAILED code" "\<not> message_is_empty m"
        "CheckingForUpdate_PostUpdateCheck env hr r a = HandleErrorResponse env code m (after_check env r a)"
proof (cases "SUCCEEDED hr")
  case True
  obtain code m where cm: "GetUpdateResponseResult env (after_check env r a) r = (code, m)" by fastforce
  have step: "CheckingForUpdate_PostUpdateCheck env hr r a =
      (if SUCCEEDED code then HandleUpdateAvailable env r code (after_check env r a)
       else if code = omaha_error 0x81c then HandleUpdateDeferred env code m (after_check env r a)
       else if code = itf_error 0x809 then HandleNoUpdate env r code m (after_check env r a)
       else HandleErrorResponse env code m (after_check env r a))"
    using True cm by (simp add: CheckingForUpdate_PostUpdateCheck_def)
  note [simp] = GetUpdateResponseResult_message [OF _ cm]
  have [simp]: "\<not> SUCCEEDED (itf_error 0x809)" "\<not> SUCCEEDED (omaha_error 0x81c)" "itf_error 0x809 \<noteq> omaha_error 0x81c"
    by (simp_all add: hresult_defs)
  from cm show ?thesis
  proof (cases rule: GetUpdateResponseResult_cases)
    case available
    then show ?thesis using step that(2) by (simp add: app_simps)
  next
    case deferred
    then show ?thesis using step that(3) [of m] by (simp add: app_simps)
  next
    case no_update
    then show ?thesis using step that(4) [of _ m] by (simp add: app_simps)
  next
    case failed
    then show ?thesis using step that(5) [of code m] by (simp add: app_simps)
  qed
qed (simp add: that(1) CheckingForUpdate_PostUpdateCheck_def)

lemma CheckingForUpdate_PostUpdateCheck_ok:
  assumes "app_ok reg a" "app_state a = STATE_CHECKING_FOR_UPDATE"
  shows "app_ok reg (CheckingForUpdate_PostUpdateCheck env hr r a)"
proof -
  have b: "Eff_NullDereference \<notin> set (effects (after_check env r a))" "no_result (after_check env r a)"
    "\<not> is_canceled (after_check env r a)" "\<not> has_update_available (after_check env r a)"
    using assms by (auto simp: app_ok_def no_result_def app_simps hresult_defs)
  show ?thesis
  proof (cases rule: PostUpdateCheck_cases [of hr env r a])
    case network
    then show ?thesis
      using assms by (simp, intro AppState_Error_ok) (simp_all add: ErrorContext1_def message_is_empty_def app_ok_def app_simps)
  next
    case available
    then show ?thesis using b by (auto intro!: HandleUpdateAvailable_ok simp: hresult_defs app_simps)
  next
    case deferred
    then show ?thesis using b
      by (simp add: HandleUpdateDeferred_def app_ok_def no_result_def app_simps ErrorContext1_def hresult_defs)
  next
    case no_update
    then show ?thesis using b HandleNoUpdate_ok by (simp add: app_simps)
  next
    case failed
    then show ?thesis using b
      by (auto simp: HandleErrorResponse_def Let_def intro!: AppState_Error_ok) (simp_all add: ErrorContext1_def app_simps)
  qed
qed

lemma app_ok_other:
  "app_ok reg a \<Longrightarrow> app_state a = STATE_WAITING_TO_DOWNLOAD \<Longrightarrow> s \<in> {STATE_DOWNLOADING, STATE_DOWNLOAD_COMPLETE} \<Longrightarrow> app_ok reg (ChangeState env s a)"
  "app_ok reg a \<Longrightarrow> app_state a = STATE_DOWNLOADING \<Longrightarrow> app_ok reg (ChangeState env STATE_DOWNLOAD_COMPLETE a)"
  "app_ok reg a \<Longrightarrow> app_state a = STATE_DOWNLOAD_COMPLETE \<Longrightarrow> app_ok reg (ChangeState env STATE_READY_TO_INSTALL a)"
  "app_ok reg a \<Longrightarrow> app_state a = STATE_READY_TO_INSTALL \<Longrightarrow> app_ok reg (ChangeState env STATE_WAITING_TO_INSTALL a)"
  "app_ok reg a \<Longrightarrow> app_state a = STATE_WAITING_TO_INSTALL \<Longrightarrow> app_ok reg (ChangeState env STATE_INSTALLING a)"
  by (auto simp: app_ok_def app_simps no_result_def)

lemma App_Error_ok:
  "app_ok reg a \<Longrightarrow> FAILED (error_code ec) \<Longrightarrow> \<not> message_is_empty m \<Longrightarrow> app_ok reg (App_Error env ec m a)"
proof -
  assume a: "app_ok reg a" and e: "FAILED (error_code ec)" "\<not> message_is_empty m"
  then have "app_ok reg (AppState_Error env ec m a)" by (intro AppState_Error_ok) (simp_all add: app_ok_def)
  then show ?thesis using a by (cases "app_state a") (simp_all add: App_Error_def HandleInvalidStateTransition_ok)
qed

lemma App_QueueUpdateCheck_ok: "app_ok reg a \<Longrightarrow> app_ok reg (App_QueueUpdateCheck env a)"
  by (simp add: App_QueueUpdateCheck_def QueueUpdateCheck_ok)
     (intro QueueUpdateCheck_ok App_Error_ok impI; simp add: ErrorContext1_def message_is_empty_def hresult_defs)

lemma app_ok_put:
  "app_ok reg (put_isEulaAccepted b a) = app_ok reg a" "app_ok reg (put_displayName s a) = app_ok reg a"
  "app_ok reg (put_ttToken s a) = app_ok reg a" "app_ok reg (put_clientInstallData s a) = app_ok reg a"
  "app_ok reg (put_serverInstallDataIndex s a) = app_ok reg a" "app_ok reg (put_untrustedData s a) = app_ok reg a"
  by (cases "app_state a"; simp add: app_ok_def put_simps no_result_def)+

lemma ReadRegistration_ok: "app_ok True a \<Longrightarrow> app_ok True (snd (ReadInstallerRegistrationValues pv a))"
  by (cases "app_state a"; simp add: app_ok_def app_simps no_result_def manifest_known_def)

lemmas app_ok_rules =
  ReadRegistration_ok app_ok_put App_QueueUpdateCheck_ok PreUpdateCheck_ok CheckingForUpdate_PostUpdateCheck_ok
  UpdateAvailable_QueueDownload_ok Installing_ReportInstallerComplete_ok AppState_Cancel_ok App_Error_ok
  HandleInvalidStateTransition_ok app_ok_other

lemma app_step_ok: "app_ok reg a \<Longrightarrow> event_ok e \<Longrightarrow> reg \<or> \<not> registers e \<Longrightarrow> app_ok reg (app_step a e)"
  by (cases "(a, e)" rule: app_step.cases)
     (simp add: app_ok_rules App_PostUpdateCheck_def App_QueueDownload_def App_QueueDownloadOrInstall_def
        App_Downloading_def App_DownloadComplete_def App_MarkReadyToInstall_def App_QueueInstall_def
        App_Installing_def App_ReportInstallerComplete_def App_Pause_def App_Cancel_def split: CurrentState.split)+

interpretation app: invariant_machine app_step "\<lambda>e. event_ok e \<and> (reg \<or> \<not> registers e)" "app_ok reg" for reg
  by unfold_locales (simp add: app_step_ok)

lemma new_App_ok: "app_ok reg (new_App g upd)"
  by (simp add: app_ok_def new_App_def no_result_def hresult_defs)

lemma app_ok_assertions: "app_ok reg a \<Longrightarrow> currentState_assertions a"
  by (cases "app_state a") (auto simp: app_ok_def)

text \<open>C5. The assertions that \<open>get_currentState\<close> makes of an app hold at every moment of every run:
  a failed app has a failure code, a text and a result that is an error or a cancellation; an
  up-to-date app has no failure code but that of a deferred update; an installed app has none. It is enough
  that errors are reported with a failure code and that final messages are texts. Moreover the app is
  never in one of the four states that have no implementation; an app that is being downloaded
  or installed has an install manifest, and its next version is that of the manifest as long as no version that an installer registered was read; an app is canceled exactly when its
  error code says so, and building an app never dereferences a missing element of the response.\<close>

theorem app_assertions:
  fixes g :: guid and upd :: bool
  assumes "list_all event_ok es"
  defines "a \<equiv> foldl app_step (new_App g upd) es"
  shows "currentState_assertions a
    \<and> app_state a \<notin> {STATE_RETRYING_DOWNLOAD, STATE_EXTRACTING, STATE_APPLYING_DIFFERENTIAL_PATCH, STATE_PAUSED}
    \<and> (app_state a \<in> {STATE_UPDATE_AVAILABLE, STATE_WAITING_TO_DOWNLOAD, STATE_DOWNLOADING, STATE_DOWNLOAD_COMPLETE,
          STATE_READY_TO_INSTALL, STATE_WAITING_TO_INSTALL, STATE_INSTALLING, STATE_INSTALL_COMPLETE}
        \<longrightarrow> install_manifest (next_version a) \<noteq> None \<and> (list_ex registers es \<or> has_manifest (next_version a)))
    \<and> (is_canceled a \<longleftrightarrow> error_code (error_context a) = itf_error 0x810)
    \<and> Eff_NullDereference \<notin> set (effects a)"
proof -
  have "list_all (\<lambda>e. event_ok e \<and> (list_ex registers es \<or> \<not> registers e)) es" using assms(1) by (auto simp: list_all_iff list_ex_iff)
  then have "app_ok (list_ex registers es) a" unfolding a_def by (intro app.inv_run new_App_ok)
  then show ?thesis using app_ok_assertions [of _ a] by (cases "app_state a") (simp_all add: app_ok_def manifest_known_def)
qed

theorem app_assertions_witness:
  "has_manifest (next_version (foldl app_step (new_App ''{A}'' False) sample_events))"
  using app_assertions [of sample_events "''{A}''" False] sample_run
  by (simp add: sample_events_def)

end
