(* ===== verification/App_Pings.thy ===== *)
theory App_Pings
  imports App_State
begin

text \<open>
  What an app reports and when it may go on: the completion pings of the legal runs of an app,
  cancellation, the group policy, and the two places where an operation called in the wrong state
  hides the error that was reported.
\<close>

section \<open>Legal calls\<close>

text \<open>The calls that the state of an app implements: the others are \<open>HandleInvalidStateTransition\<close>.\<close>

fun implemented :: "CurrentState \<Rightarrow> app_event \<Rightarrow> bool" where
  "implemented s QueueUpdateCheck = (s = STATE_INIT)"
| "implemented s PreUpdateCheck = (s \<in> {STATE_WAITING_TO_CHECK_FOR_UPDATE, STATE_ERROR})"
| "implemented s (PostUpdateCheck hr r) = (s \<in> {STATE_CHECKING_FOR_UPDATE, STATE_ERROR})"
| "implemented s QueueDownload = (s \<in> {STATE_UPDATE_AVAILABLE, STATE_NO_UPDATE, STATE_ERROR})"
| "implemented s QueueDownloadOrInstall =
     (s \<in> {STATE_UPDATE_AVAILABLE, STATE_READY_TO_INSTALL, STATE_NO_UPDATE, STATE_ERROR})"
| "implemented s Downloading = (s = STATE_WAITING_TO_DOWNLOAD)"
| "implemented s DownloadComplete = (s \<in> {STATE_WAITING_TO_DOWNLOAD, STATE_DOWNLOADING, STATE_ERROR})"
| "implemented s MarkReadyToInstall = (s \<in> {STATE_DOWNLOAD_COMPLETE, STATE_ERROR})"
| "implemented s QueueInstall =
     (s \<in> {STATE_READY_TO_INSTALL, STATE_WAITING_TO_INSTALL, STATE_NO_UPDATE, STATE_ERROR})"
| "implemented s Installing = (s \<in> {STATE_WAITING_TO_INSTALL, STATE_INSTALLING})"
| "implemented s (ReportInstallerComplete info) = (s = STATE_INSTALLING)"
| "implemented s Pause = False"
| "implemented s (Error ec m) = (s \<notin> {STATE_INSTALL_COMPLETE, STATE_NO_UPDATE})"
| "implemented s _ = True"

definition legal_call :: "App \<Rightarrow> app_event \<Rightarrow> bool" where
  "legal_call a e \<longleftrightarrow> implemented (app_state a) e \<and> (e = QueueUpdateCheck \<longrightarrow> is_eula_accepted a \<noteq> TRISTATE_NONE)"

inductive legal_run :: "App \<Rightarrow> App \<Rightarrow> bool" for a0 where
  start: "legal_run a0 a0"
| call: "legal_run a0 a \<Longrightarrow> legal_call a e \<Longrightarrow> legal_run a0 (app_step a (env, e))"

section \<open>Completion pings\<close>

definition is_completion :: "PingEvent \<Rightarrow> bool" where
  "is_completion p \<longleftrightarrow> event_type p \<in> {EVENT_INSTALL_COMPLETE, EVENT_UPDATE_COMPLETE}"

definition completions :: "App \<Rightarrow> (ping_type \<times> ping_result) list" where
  "completions a = map (\<lambda>p. (event_type p, event_result p)) (filter is_completion (ping_events a))"

text \<open>The apps whose end is reported to the server.\<close>

fun reports :: "CurrentState \<Rightarrow> App \<Rightarrow> bool" where
  "reports STATE_ERROR a = (\<not> is_update a \<or> has_update_available a)"
| "reports STATE_INSTALL_COMPLETE a = (app_guid a \<noteq> kGoopdateGuid)"
| "reports STATE_NO_UPDATE a = (completion_result a = EVENT_RESULT_UPDATE_DEFERRED)"
| "reports _ a = False"

lemmas create_ping_defs =
  CreatePingEvent_def WaitingToDownload_CreatePingEvent_def Downloading_CreatePingEvent_def
  DownloadComplete_CreatePingEvent_def Installing_CreatePingEvent_def InstallComplete_CreatePingEvent_def
  NoUpdate_CreatePingEvent_def Error_CreatePingEvent_def completion_ping_def PingEvent4_def completion_type_def

lemma completions_ChangeState:
  assumes "s = STATE_NO_UPDATE \<longrightarrow> is_update a"
  shows "completions (ChangeState env s a) =
     completions a @ (if reports s a then [(completion_type a, completion_result a)] else [])"
  using assms
  by (cases s) (simp_all add: completions_def app_simps is_completion_def create_ping_defs Let_def)

definition completions_ok :: "App \<Rightarrow> bool" where
  "completions_ok a \<longleftrightarrow>
     completions a = (if reports (app_state a) a then [(completion_type a, completion_result a)] else [])"

lemma reports_app_state [simp]: "reports s (a\<lparr>app_state := t\<rparr>) = reports s a"
  by (cases s) simp_all

lemma ChangeState_completions_ok:
  "completions a = [] \<Longrightarrow> s = STATE_NO_UPDATE \<longrightarrow> is_update a \<Longrightarrow> completions_ok (ChangeState env s a)"
proof -
  assume "completions a = []" "s = STATE_NO_UPDATE \<longrightarrow> is_update a"
  moreover have "reports s (ChangeState env s a) = reports s a" by (cases s) (simp_all add: app_simps)
  ultimately show ?thesis
    by (simp add: completions_ok_def completions_ChangeState app_simps completion_type_def)
qed

lemma AppState_Error_completions_ok: "completions a = [] \<Longrightarrow> completions_ok (AppState_Error env ec m a)"
  unfolding AppState_Error_def by (rule ChangeState_completions_ok) (simp_all add: completions_def app_simps)

lemma completions_keeps: "ping_events b = ping_events a \<Longrightarrow> completions b = completions a"
  by (simp add: completions_def)

lemma HandleUpdateAvailable_completions_ok:
  assumes "completions a = []"
  shows "completions_ok (HandleUpdateAvailable env r code a)"
proof -
  obtain hr b where b: "BuildApp r code (a\<lparr>has_update_available := True\<rparr>) = (hr, b)" by fastforce
  have "completions b = []" using assms BuildApp_keeps(8) [OF b] by (simp add: completions_def)
  then show ?thesis
    by (simp add: HandleUpdateAvailable_def b Let_def AppState_Error_completions_ok)
       (intro impI conjI ChangeState_completions_ok; simp add: completions_def app_simps)
qed

lemma HandleNoUpdate_completions_ok:
  assumes "completions a = []"
  shows "completions_ok (HandleNoUpdate env r code m a)"
proof (cases "is_update a")
  case True
  obtain hr b where b: "BuildApp r code (LogTextAppend ''Status=no-update'' a) = (hr, b)" by fastforce
  have "completions b = []" "is_update b"
    using True assms BuildApp_keeps [OF b] by (simp_all add: completions_def app_simps)
  then show ?thesis using True
    by (simp add: HandleNoUpdate_def b Let_def app_simps)
       (intro impI conjI ChangeState_completions_ok; simp add: completions_def app_simps)
next
  case False
  then show ?thesis using assms
    by (simp add: HandleNoUpdate_def Let_def app_simps, intro AppState_Error_completions_ok)
       (simp add: completions_def app_simps)
qed

lemma PostUpdateCheck_completions_ok:
  assumes "completions a = []"
  shows "completions_ok (CheckingForUpdate_PostUpdateCheck env hr r a)"
proof -
  have b: "completions (after_check env r a) = []" using assms by (simp add: completions_def app_simps)
  show ?thesis
  proof (cases rule: PostUpdateCheck_cases [of hr env r a])
    case network
    then show ?thesis
      using assms by (simp, intro AppState_Error_completions_ok) (simp add: completions_def app_simps)
  next
    case available
    then show ?thesis using b HandleUpdateAvailable_completions_ok by simp
  next
    case deferred
    then show ?thesis using b
      by (simp add: HandleUpdateDeferred_def, intro ChangeState_completions_ok) (simp_all add: completions_def app_simps)
  next
    case no_update
    then show ?thesis using b HandleNoUpdate_completions_ok by simp
  next
    case failed
    then show ?thesis using b
      by (simp add: HandleErrorResponse_def Let_def)
         (intro conjI impI AppState_Error_completions_ok; simp add: completions_def app_simps)
  qed
qed

lemma completions_ok_open:
  "completions_ok a \<Longrightarrow> app_state a \<notin> {STATE_ERROR, STATE_INSTALL_COMPLETE, STATE_NO_UPDATE} \<Longrightarrow> completions a = []"
  by (cases "app_state a") (simp_all add: completions_ok_def)

lemma completions_put:
  "completions_ok (put_isEulaAccepted b a) = completions_ok a" "completions_ok (put_displayName s a) = completions_ok a"
  "completions_ok (put_ttToken s a) = completions_ok a" "completions_ok (put_clientInstallData s a) = completions_ok a"
  "completions_ok (put_serverInstallDataIndex s a) = completions_ok a"
  "completions_ok (put_untrustedData s a) = completions_ok a"
  "completions_ok (snd (ReadInstallerRegistrationValues pv a)) = completions_ok a"
  by (cases "app_state a"; simp add: completions_ok_def completions_def completion_type_def put_simps ReadRegistration_simps)+

lemma handlers_completions_ok:
  assumes "completions a = []"
  shows "completions_ok (Init_QueueUpdateCheck env a)"
    "completions_ok (WaitingToCheckForUpdate_PreUpdateCheck env a)"
    "completions_ok (UpdateAvailable_QueueDownload env a)"
    "completions_ok (Installing_ReportInstallerComplete env info a)"
    "completions_ok (AppState_Cancel env a)"
  unfolding handler_defs Let_def
  by (simp_all split: if_split)
     (use assms in \<open>(intro conjI impI ChangeState_completions_ok AppState_Error_completions_ok; simp add: completions_def app_simps)+\<close>)

lemma legal_call_completions_ok:
  assumes "completions_ok a" "legal_call a e"
  shows "completions_ok (app_step a (env, e))"
  using assms completions_ok_open [of a] completions_put [of _ a]
  by (cases e; cases "app_state a")
     (simp_all add: legal_call_def transition_defs handlers_completions_ok PostUpdateCheck_completions_ok
        ChangeState_completions_ok AppState_Error_completions_ok)

text \<open>C2. The server hears of the end of an app exactly once. In every run that calls only operations
  that the state of the app implements, no completion ping is made before the app is
  finished. A finished app has made exactly one, of the type that fits (install or update) and with the
  final result, if it is a failed install, a failed update that was available, a
  deferred update, or an installed app other than the updater itself; otherwise it has made none.\<close>

theorem completion_ping_once:
  assumes "legal_run (new_App g upd) a"
  shows "completions a =
    (if reports (app_state a) a then [(completion_type a, completion_result a)] else [])"
  using assms
proof (induction rule: legal_run.induct)
  case (call a e env)
  then show ?case using legal_call_completions_ok by (simp add: completions_ok_def)
qed (simp add: completions_def new_App_def)

fun legal_events :: "App \<Rightarrow> (app_env \<times> app_event) list \<Rightarrow> bool" where
  "legal_events a [] = True"
| "legal_events a (e # es) = (legal_call a (snd e) \<and> legal_events (app_step a e) es)"

lemma legal_events_run: "legal_events a es \<Longrightarrow> legal_run a0 a \<Longrightarrow> legal_run a0 (foldl app_step a es)"
proof (induction es arbitrary: a)
  case (Cons e es)
  then show ?case using legal_run.call [of a0 a "snd e" "fst e"] by simp
qed simp

definition sample_success :: "app_env \<times> app_event" where
  "sample_success = (sample_env, ReportInstallerComplete
     \<lparr>ir_type = INSTALLER_RESULT_SUCCESS, ir_code = 0, ir_extra_code1 = 0, ir_text = MessageText ''done'',
      ir_post_install_launch_command_line = [], ir_post_install_url = [],
      ir_post_install_action = POST_INSTALL_ACTION_DEFAULT\<rparr>)"

theorem completion_ping_once_witness:
  "completions (foldl app_step (new_App ''{A}'' False) (sample_events @ [sample_success]))
     = [(EVENT_INSTALL_COMPLETE, EVENT_RESULT_SUCCESS)]"
proof -
  let ?a = "foldl app_step (new_App ''{A}'' False) (sample_events @ [sample_success])"
  have "legal_events (new_App ''{A}'' False) (sample_events @ [sample_success])" by code_simp
  then have "legal_run (new_App ''{A}'' False) ?a" by (rule legal_events_run) (rule legal_run.start)
  from completion_ping_once [OF this] show ?thesis
  proof -
    assume c: "completions ?a = (if reports (app_state ?a) ?a then [(completion_type ?a, completion_result ?a)] else [])"
    have "reports (app_state ?a) ?a \<and> completion_type ?a = EVENT_INSTALL_COMPLETE
        \<and> completion_result ?a = EVENT_RESULT_SUCCESS" by code_simp
    then show ?thesis using c by simp
  qed
qed

section \<open>Cancellation\<close>

text \<open>Cancelling an app that is being installed or is finished changes nothing. In any earlier state
  the app fails with the cancellation code and result, remembers the state it was cancelled in, and, for
  an install or an available update, reports a cancel ping that carries that state.\<close>

theorem App_Cancel_spec:
  "(app_state a \<in> {STATE_INSTALLING, STATE_INSTALL_COMPLETE, STATE_NO_UPDATE, STATE_ERROR} \<longrightarrow> App_Cancel env a = a)
   \<and> (app_state a \<notin> {STATE_INSTALLING, STATE_INSTALL_COMPLETE, STATE_NO_UPDATE, STATE_ERROR} \<longrightarrow>
       (let b = App_Cancel env a
        in app_state b = STATE_ERROR \<and> is_canceled b \<and> error_code (error_context b) = itf_error 0x810
           \<and> completion_result b = EVENT_RESULT_CANCELLED \<and> state_cancelled b = app_state a
           \<and> (if is_update a \<and> \<not> has_update_available a then ping_events b = ping_events a
              else \<exists>p. ping_events b = ping_events a @ [p] \<and> event_type p = completion_type a
                    \<and> event_result p = EVENT_RESULT_CANCELLED
                    \<and> map_option state_when_cancelled (pe_cancel p) = Some (app_state a))))"
  by (cases "app_state a")
     (simp_all add: App_Cancel_def AppState_Cancel_def Let_def app_simps ErrorContext1_def CreatePingEvent_def
        Error_CreatePingEvent_def PingEvent4_def completion_type_def)

theorem App_Cancel_spec_witness:
  "state_cancelled (App_Cancel sample_env (new_App ''{A}'' False)) = STATE_INIT"
  using App_Cancel_spec [of "new_App ''{A}'' False" sample_env] by (simp add: new_App_def Let_def)

section \<open>Group policy\<close>

definition permitted :: "app_env \<Rightarrow> guid \<Rightarrow> bool \<Rightarrow> bool" where
  "permitted env g upd =
     (if upd then CanUpdateApp (env_memory env) (env_config env) g (\<not> bundle_is_auto_update env)
      else CanInstallApp (env_memory env) (env_config env) g (bundle_is_machine env))"

lemma CheckGroupPolicy_permitted: "SUCCEEDED (CheckGroupPolicy env a) \<longleftrightarrow> permitted env (app_guid a) (is_update a)"
  by (simp add: CheckGroupPolicy_def permitted_def hresult_defs)

lemma PostUpdateCheck_keeps:
  "app_guid (CheckingForUpdate_PostUpdateCheck env hr r a) = app_guid a"
  "is_update (CheckingForUpdate_PostUpdateCheck env hr r a) = is_update a"
proof -
  have "app_guid (CheckingForUpdate_PostUpdateCheck env hr r a) = app_guid a
      \<and> is_update (CheckingForUpdate_PostUpdateCheck env hr r a) = is_update a"
    using BuildApp_keeps [OF surjective_pairing]
    by (cases rule: PostUpdateCheck_cases [of hr env r a])
       (simp_all add: HandleUpdateAvailable_def HandleUpdateDeferred_def HandleNoUpdate_def HandleErrorResponse_def
          Let_def app_simps case_prod_beta)
  then show "app_guid (CheckingForUpdate_PostUpdateCheck env hr r a) = app_guid a"
    "is_update (CheckingForUpdate_PostUpdateCheck env hr r a) = is_update a" by blast+
qed

lemma app_step_keeps: "app_guid (app_step a e) = app_guid a \<and> is_update (app_step a e) = is_update a"
  by (cases "(a, e)" rule: app_step.cases; cases "app_state a")
     (simp_all add: transition_defs handler_defs Let_def app_simps PostUpdateCheck_keeps)

lemma app_run_keeps: "app_guid (foldl app_step a es) = app_guid a \<and> is_update (foldl app_step a es) = is_update a"
  by (induction es arbitrary: a) (simp_all add: app_step_keeps)

lemma enters_download:
  assumes "app_state (app_step a (env, e)) = STATE_WAITING_TO_DOWNLOAD" "app_state a \<noteq> STATE_WAITING_TO_DOWNLOAD"
  shows "permitted env (app_guid a) (is_update a)"
proof -
  have [simp]: "app_state (CheckingForUpdate_PostUpdateCheck env hr r a) \<noteq> STATE_WAITING_TO_DOWNLOAD" for hr r
    using PostUpdateCheck_state [of env hr r a] by auto
  show ?thesis using assms
    by (cases e; cases "app_state a")
       (auto simp: transition_defs handler_defs Let_def app_simps CheckGroupPolicy_permitted [symmetric] split: if_splits)
qed

fun past_policy :: "CurrentState \<Rightarrow> bool" where
  "past_policy s \<longleftrightarrow> s \<in> {STATE_WAITING_TO_DOWNLOAD, STATE_DOWNLOADING, STATE_DOWNLOAD_COMPLETE,
     STATE_READY_TO_INSTALL, STATE_WAITING_TO_INSTALL, STATE_INSTALLING, STATE_INSTALL_COMPLETE}"

lemma enters_past_policy:
  "past_policy (app_state (app_step a e)) \<Longrightarrow> \<not> past_policy (app_state a) \<Longrightarrow>
     app_state (app_step a e) = STATE_WAITING_TO_DOWNLOAD"
  using app_step_state [of a e] by (cases "app_state a") auto

text \<open>C3. Nothing is downloaded or installed against the group policy. In every run of every app, with
  operations called in any order, an app in the download or install phase passed a policy
  check: among the calls made there is one in whose environment the policy
  permits this app, as an update or as an install, whichever it is.\<close>

theorem install_is_permitted:
  assumes "past_policy (app_state (foldl app_step (new_App g upd) es))"
  shows "\<exists>(env, e) \<in> set es. permitted env g upd"
  using assms
proof (induction es rule: rev_induct)
  case (snoc e es)
  let ?a = "foldl app_step (new_App g upd) es"
  have keeps: "app_guid ?a = g" "is_update ?a = upd"
    using app_run_keeps [of "new_App g upd" es] by (simp_all add: new_App_def)
  show ?case
  proof (cases "past_policy (app_state ?a)")
    case True
    then show ?thesis using snoc.IH by auto
  next
    case False
    then have "app_state (app_step ?a e) = STATE_WAITING_TO_DOWNLOAD" using snoc.prems enters_past_policy by simp
    then show ?thesis using enters_download [of ?a "fst e" "snd e"] False keeps by auto
  qed
qed (simp add: new_App_def)

theorem install_is_permitted_witness: "\<exists>(env, e) \<in> set sample_events. permitted env ''{A}'' False"
  by (rule install_is_permitted) (simp add: sample_run)

section \<open>Errors that are hidden\<close>

text \<open>Queueing the update check of an app whose license state was never set reports the
  unexpected call, but the code goes on with the transition: the error that remains is the
  invalid state transition, and a new install reports both failures to the server.\<close>

theorem QueueUpdateCheck_hides_error:
  "error_code (error_context (App_QueueUpdateCheck env (new_App g upd))) = omaha_error 0x818
   \<and> map pe_error_code (ping_events (App_QueueUpdateCheck env (new_App g False))) = [omaha_error 0x819, omaha_error 0x818]"
  by (simp add: App_QueueUpdateCheck_def App_Error_def AppState_QueueUpdateCheck_def HandleInvalidStateTransition_def
        AppState_Error_def app_simps new_App_def CreatePingEvent_def Error_CreatePingEvent_def completion_ping_def
        PingEvent4_def ErrorContext1_def hresult_defs)

text \<open>Reporting an error to an app that is installed or up to date does move it to the
  failed state, and with the code of an invalid transition instead of the reported one; the failure
  of an installed app is reported to the server although its success was reported before.\<close>

theorem terminal_Error_fails:
  assumes "app_state a \<in> {STATE_INSTALL_COMPLETE, STATE_NO_UPDATE}"
  shows "app_state (App_Error env ec m a) = STATE_ERROR
    \<and> error_context (App_Error env ec m a) = \<lparr>error_code = omaha_error 0x818, extra_code1 = state_value (app_state a)\<rparr>
    \<and> (has_update_available a \<longrightarrow> completions (App_Error env ec m a) = completions a @ [(completion_type a, EVENT_RESULT_ERROR)])"
  using assms
  by (auto simp: App_Error_def HandleInvalidStateTransition_def app_simps)
     (simp_all add: AppState_Error_def completions_ChangeState app_simps hresult_defs completion_type_def,
      simp_all add: completions_def app_simps)

theorem terminal_Error_fails_witness:
  "app_state (App_Error sample_env (ErrorContext1 E_FAIL) NoMessage
     (foldl app_step (new_App ''{A}'' False) (sample_events @ [sample_success]))) = STATE_ERROR"
proof -
  have "app_state (foldl app_step (new_App ''{A}'' False) (sample_events @ [sample_success])) = STATE_INSTALL_COMPLETE"
    by code_simp
  then show ?thesis using terminal_Error_fails by blast
qed

end
