(* ===== verification/Sha256.thy ===== *)
theory Sha256
  imports Omaha_Prelude
begin

text \<open>
  The hash functions of the updater (\<open>base/security/sha256.c\<close> and \<open>base/security/hmac.c\<close>). The
  context of a computation is a record with the members of \<open>HASH_CTX\<close>; bytes are 8-bit words and the
  arithmetic is that of 32-bit and 64-bit words. The reference is the textbook definition: pad the whole
  message, cut it into blocks, fold the compression function over them.
\<close>

unbundle bit_operations_syntax

type_synonym byte = "8 word"

section \<open>The code\<close>

record HASH_CTX =
  count :: "64 word"
  buf :: "byte list"
  state :: "32 word list"

definition ror :: "32 word \<Rightarrow> nat \<Rightarrow> 32 word" where
  "ror v bits = drop_bit bits v OR push_bit (32 - bits) v"

definition shr :: "32 word \<Rightarrow> nat \<Rightarrow> 32 word" where
  "shr v bits = drop_bit bits v"

definition K :: "32 word list" where
  "K = concat [
     [0x428a2f98, 0x71374491, 0xb5c0fbcf, 0xe9b5dba5],
     [0x3956c25b, 0x59f111f1, 0x923f82a4, 0xab1c5ed5],
     [0xd807aa98, 0x12835b01, 0x243185be, 0x550c7dc3],
     [0x72be5d74, 0x80deb1fe, 0x9bdc06a7, 0xc19bf174],
     [0xe49b69c1, 0xefbe4786, 0x0fc19dc6, 0x240ca1cc],
     [0x2de92c6f, 0x4a7484aa, 0x5cb0a9dc, 0x76f988da],
     [0x983e5152, 0xa831c66d, 0xb00327c8, 0xbf597fc7],
     [0xc6e00bf3, 0xd5a79147, 0x06ca6351, 0x14292967],
     [0x27b70a85, 0x2e1b2138, 0x4d2c6dfc, 0x53380d13],
     [0x650a7354, 0x766a0abb, 0x81c2c92e, 0x92722c85],
     [0xa2bfe8a1, 0xa81a664b, 0xc24b8b70, 0xc76c51a3],
     [0xd192e819, 0xd6990624, 0xf40e3585, 0x106aa070],
     [0x19a4c116, 0x1e376c08, 0x2748774c, 0x34b0bcb5],
     [0x391c0cb3, 0x4ed8aa4a, 0x5b9cca4f, 0x682e6ff3],
     [0x748f82ee, 0x78a5636f, 0x84c87814, 0x8cc70208],
     [0x90befffa, 0xa4506ceb, 0xbef9a3f7, 0xc67178f2]]"

text \<open>The first loop of the transformation, over the bytes of the buffer.\<close>

fun load_words :: "nat \<Rightarrow> byte list \<Rightarrow> 32 word list" where
  "load_words 0 p = []"
| "load_words (Suc n) p =
     (let tmp = push_bit 24 (ucast (p ! 0));
          tmp = tmp OR push_bit 16 (ucast (p ! 1));
          tmp = tmp OR push_bit 8 (ucast (p ! 2));
          tmp = tmp OR ucast (p ! 3)
      in tmp # load_words n (drop 4 p))"

text \<open>The second loop: \<open>n\<close> more words.\<close>

fun extend_words :: "nat \<Rightarrow> 32 word list \<Rightarrow> 32 word list" where
  "extend_words 0 W = W"
| "extend_words (Suc n) W =
     (let t = length W;
          s0 = ror (W ! (t - 15)) 7 XOR ror (W ! (t - 15)) 18 XOR shr (W ! (t - 15)) 3;
          s1 = ror (W ! (t - 2)) 17 XOR ror (W ! (t - 2)) 19 XOR shr (W ! (t - 2)) 10
      in extend_words n (W @ [W ! (t - 16) + s0 + W ! (t - 7) + s1]))"

type_synonym working = "32 word \<times> 32 word \<times> 32 word \<times> 32 word \<times> 32 word \<times> 32 word \<times> 32 word \<times> 32 word"

definition transform_round :: "32 word list \<Rightarrow> nat \<Rightarrow> working \<Rightarrow> working" where
  "transform_round W t = (\<lambda>(A, B, C, D, E, F, G, H).
     let s0 = ror A 2 XOR ror A 13 XOR ror A 22;
         maj = (A AND B) XOR (A AND C) XOR (B AND C);
         t2 = s0 + maj;
         s1 = ror E 6 XOR ror E 11 XOR ror E 25;
         ch = (E AND F) XOR (NOT E AND G);
         t1 = H + s1 + ch + K ! t + W ! t
     in (t1 + t2, A, B, C, D + t1, E, F, G))"

definition transform_rounds :: "32 word list \<Rightarrow> working \<Rightarrow> working" where
  "transform_rounds W s = fold (transform_round W) [0..<64] s"

definition SHA256_Transform :: "HASH_CTX \<Rightarrow> HASH_CTX" where
  "SHA256_Transform ctx =
     (let W = extend_words 48 (load_words 16 (buf ctx));
          st = state ctx
      in case transform_rounds W (st ! 0, st ! 1, st ! 2, st ! 3, st ! 4, st ! 5, st ! 6, st ! 7) of
           (A, B, C, D, E, F, G, H) \<Rightarrow>
             ctx\<lparr>state := [st ! 0 + A, st ! 1 + B, st ! 2 + C, st ! 3 + D, st ! 4 + E, st ! 5 + F, st ! 6 + G, st ! 7 + H]\<rparr>)"

definition SHA256_init :: "HASH_CTX \<Rightarrow> HASH_CTX" where
  "SHA256_init ctx =
     ctx\<lparr>state := [0x6a09e667, 0xbb67ae85, 0x3c6ef372, 0xa54ff53a, 0x510e527f, 0x9b05688c, 0x1f83d9ab, 0x5be0cd19],
         count := 0\<rparr>"

fun update_loop :: "nat \<Rightarrow> byte list \<Rightarrow> HASH_CTX \<Rightarrow> HASH_CTX" where
  "update_loop i [] ctx = ctx"
| "update_loop i (b # bs) ctx =
     (let ctx1 = ctx\<lparr>buf := (buf ctx)[i := b]\<rparr>
      in if i + 1 = 64 then update_loop 0 bs (SHA256_Transform ctx1) else update_loop (i + 1) bs ctx1)"

definition SHA256_update :: "HASH_CTX \<Rightarrow> byte list \<Rightarrow> HASH_CTX" where
  "SHA256_update ctx data =
     update_loop (unat (count ctx AND 63)) data (ctx\<lparr>count := count ctx + of_nat (length data)\<rparr>)"

lemma count_update_loop [simp]: "count (update_loop i bs ctx) = count ctx"
  by (induction i bs ctx rule: update_loop.induct) (simp_all add: Let_def SHA256_Transform_def split: prod.split)

lemma count_SHA256_update [simp]: "count (SHA256_update ctx data) = count ctx + of_nat (length data)"
  by (simp add: SHA256_update_def)

lemma unat_and_63: "unat (w AND 63 :: 64 word) = unat w mod 64"
proof -
  have m: "(63 :: 64 word) = mask 6" by (simp add: mask_eq_exp_minus_1)
  show ?thesis unfolding m take_bit_eq_mask [symmetric] unsigned_take_bit_eq by (simp add: take_bit_eq_mod)
qed

lemma and_63_eq_56: "w AND 63 = (56 :: 64 word) \<longleftrightarrow> unat w mod 64 = 56"
  unfolding word_unat_eq_iff unat_and_63 by simp

lemma unat_Suc_mod_64: "unat (w + 1 :: 64 word) mod 64 = Suc (unat w) mod 64"
  by (simp add: unat_word_ariths mod_mod_cancel)

text \<open>The bytes that the padding loop of \<open>SHA256_final\<close> still has to append.\<close>

definition pad_todo :: "64 word \<Rightarrow> nat" where
  "pad_todo n = (if unat n mod 64 \<le> 56 then 56 - unat n mod 64 else 120 - unat n mod 64)"

lemma pad_todo_step: "n AND 63 \<noteq> 56 \<Longrightarrow> pad_todo n = Suc (pad_todo (n + 1))"
proof -
  assume "n AND 63 \<noteq> 56"
  moreover have "unat n mod 64 < 64" by simp
  ultimately show ?thesis by (auto simp: pad_todo_def unat_Suc_mod_64 mod_Suc and_63_eq_56)
qed

function pad_loop :: "HASH_CTX \<Rightarrow> HASH_CTX" where
  "pad_loop ctx = (if count ctx AND 63 = 56 then ctx else pad_loop (SHA256_update ctx [0]))"
  by pat_completeness auto

termination
  by (relation "measure (\<lambda>ctx. pad_todo (count ctx))") (simp_all add: pad_todo_step)

fun length_loop :: "nat \<Rightarrow> 64 word \<Rightarrow> HASH_CTX \<Rightarrow> HASH_CTX" where
  "length_loop 0 cnt ctx = ctx"
| "length_loop (Suc n) cnt ctx =
     (let tmp = ucast (drop_bit 56 cnt) in length_loop n (push_bit 8 cnt) (SHA256_update ctx [tmp]))"

definition word_bytes :: "32 word \<Rightarrow> byte list" where
  "word_bytes w = [ucast (drop_bit 24 w), ucast (drop_bit 16 w), ucast (drop_bit 8 w), ucast w]"

text \<open>The result is the context; the digest that the function returns a pointer to is the start of its buffer.\<close>

definition SHA256_final :: "HASH_CTX \<Rightarrow> HASH_CTX" where
  "SHA256_final ctx =
     (let cnt = push_bit 3 (count ctx);
          ctx1 = pad_loop (SHA256_update ctx [0x80]);
          ctx2 = length_loop 8 cnt ctx1
      in ctx2\<lparr>buf := concat (map word_bytes (state ctx2)) @ drop 32 (buf ctx2)\<rparr>)"

definition digest :: "HASH_CTX \<Rightarrow> byte list" where
  "digest ctx = take 32 (buf ctx)"

definition SHA256_hash :: "byte list \<Rightarrow> HASH_CTX \<Rightarrow> byte list" where
  "SHA256_hash data ctx = digest (SHA256_final (SHA256_update (SHA256_init ctx) data))"

record LITE_HMAC_CTX =
  hash :: HASH_CTX
  opad :: "byte list"

definition HMAC_init :: "LITE_HMAC_CTX \<Rightarrow> byte list \<Rightarrow> LITE_HMAC_CTX" where
  "HMAC_init ctx key =
     (let (h, pad) =
        (if length key > 64
         then let h = SHA256_final (SHA256_update (SHA256_init (hash ctx)) key)
              in (h, digest h @ replicate 32 0)
         else (hash ctx, key @ replicate (64 - length key) 0));
          pad = map (\<lambda>b. b XOR 0x36) pad;
          h = SHA256_update (SHA256_init h) pad;
          pad = map (\<lambda>b. b XOR (0x36 XOR 0x5c)) pad
      in ctx\<lparr>hash := h, opad := pad\<rparr>)"

definition HMAC_SHA256_init :: "LITE_HMAC_CTX \<Rightarrow> byte list \<Rightarrow> LITE_HMAC_CTX" where
  "HMAC_SHA256_init ctx key = HMAC_init (ctx\<lparr>hash := SHA256_init (hash ctx)\<rparr>) key"

definition HMAC_update :: "LITE_HMAC_CTX \<Rightarrow> byte list \<Rightarrow> LITE_HMAC_CTX" where
  "HMAC_update ctx data = ctx\<lparr>hash := SHA256_update (hash ctx) data\<rparr>"

definition HMAC_final :: "LITE_HMAC_CTX \<Rightarrow> LITE_HMAC_CTX" where
  "HMAC_final ctx =
     (let h = SHA256_final (hash ctx);
          d = digest h;
          h = SHA256_update (SHA256_update (SHA256_init h) (opad ctx)) d
      in ctx\<lparr>opad := replicate 64 0, hash := SHA256_final h\<rparr>)"

section \<open>The reference\<close>

definition be32 :: "byte list \<Rightarrow> 32 word" where
  "be32 bs = of_nat (foldl (\<lambda>n b. 256 * n + unat b) 0 bs)"

definition be_bytes :: "nat \<Rightarrow> nat \<Rightarrow> byte list" where
  "be_bytes k n = map (\<lambda>i. of_nat (n div 256 ^ (k - 1 - i))) [0..<k]"

fun schedule :: "byte list \<Rightarrow> nat \<Rightarrow> 32 word" where
  "schedule M t =
     (if t < 16 then be32 (take 4 (drop (4 * t) M))
      else let w2 = schedule M (t - 2); w15 = schedule M (t - 15)
           in (word_rotr 17 w2 XOR word_rotr 19 w2 XOR drop_bit 10 w2) + schedule M (t - 7)
              + (word_rotr 7 w15 XOR word_rotr 18 w15 XOR drop_bit 3 w15) + schedule M (t - 16))"

declare schedule.simps [simp del]

definition sha_round :: "32 word \<Rightarrow> working \<Rightarrow> working" where
  "sha_round kw = (\<lambda>(a, b, c, d, e, f, g, h).
     let T1 = h + (word_rotr 6 e XOR word_rotr 11 e XOR word_rotr 25 e) + ((e AND f) XOR (NOT e AND g)) + kw;
         T2 = (word_rotr 2 a XOR word_rotr 13 a XOR word_rotr 22 a) + ((a AND b) XOR (a AND c) XOR (b AND c))
     in (T1 + T2, a, b, c, d + T1, e, f, g))"

definition compress :: "32 word list \<Rightarrow> byte list \<Rightarrow> 32 word list" where
  "compress H M =
     (case fold (\<lambda>t. sha_round (K ! t + schedule M t)) [0..<64]
             (H ! 0, H ! 1, H ! 2, H ! 3, H ! 4, H ! 5, H ! 6, H ! 7) of
        (a, b, c, d, e, f, g, h) \<Rightarrow>
          [H ! 0 + a, H ! 1 + b, H ! 2 + c, H ! 3 + d, H ! 4 + e, H ! 5 + f, H ! 6 + g, H ! 7 + h])"

definition blocks :: "byte list \<Rightarrow> byte list list" where
  "blocks m = map (\<lambda>i. take 64 (drop (64 * i) m)) [0..<length m div 64]"

definition sha_pad :: "byte list \<Rightarrow> byte list" where
  "sha_pad m = m @ [0x80] @ replicate ((119 - length m mod 64) mod 64) 0 @ be_bytes 8 (8 * length m)"

definition sha256_iv :: "32 word list" where
  "sha256_iv = [0x6a09e667, 0xbb67ae85, 0x3c6ef372, 0xa54ff53a, 0x510e527f, 0x9b05688c, 0x1f83d9ab, 0x5be0cd19]"

definition sha256 :: "byte list \<Rightarrow> byte list" where
  "sha256 m = concat (map (\<lambda>w. be_bytes 4 (unat w)) (foldl compress sha256_iv (blocks (sha_pad m))))"

definition hmac_sha256 :: "byte list \<Rightarrow> byte list \<Rightarrow> byte list" where
  "hmac_sha256 key m =
     (let k0 = (if length key > 64 then sha256 key else key);
          k = k0 @ replicate (64 - length k0) 0
      in sha256 (map (\<lambda>b. b XOR 0x5c) k @ sha256 (map (\<lambda>b. b XOR 0x36) k @ m)))"

section \<open>The compression function\<close>

lemma ror_rotr: "0 < n \<Longrightarrow> n < 32 \<Longrightarrow> ror v n = word_rotr n v"
proof (rule bit_word_eqI)
  fix i
  assume n: "0 < n" "n < 32" and i: "i < LENGTH(32)"
  show "bit (ror v n) i = bit (word_rotr n v) i"
  proof (cases "i + n < 32")
    case True
    then show ?thesis using n i
      by (auto simp: ror_def bit_or_iff bit_drop_bit_eq bit_push_bit_iff bit_word_rotr_iff add.commute)
  next
    case False
    then have "\<not> bit v (n + i)" using bit_imp_le_length [of v "n + i"] by auto
    moreover have "(i + n) mod 32 = i - (32 - n)" using False n i by (simp add: mod_if)
    ultimately show ?thesis using n i False
      by (auto simp: ror_def bit_or_iff bit_drop_bit_eq bit_push_bit_iff bit_word_rotr_iff)
  qed
qed

lemma be32_word:
  "((push_bit 24 (ucast a) OR push_bit 16 (ucast b)) OR push_bit 8 (ucast c)) OR ucast d = be32 [a, b, c, d]"
proof -
  have small: "n < 8" if "bit (x :: byte) n" for x n using bit_imp_le_length [OF that] by simp
  have "((push_bit 24 (ucast a) OR push_bit 16 (ucast b)) OR push_bit 8 (ucast c)) OR ucast d
      = push_bit 24 (ucast a) + push_bit 16 (ucast b) + push_bit 8 (ucast c) + (ucast d :: 32 word)"
    by (subst disjunctive_add [symmetric],
        force simp: bit_or_iff bit_push_bit_iff bit_ucast_iff dest: small)+ simp
  also have "\<dots> = be32 [a, b, c, d]"
    by (simp add: be32_def push_bit_eq_mult algebra_simps)
  finally show ?thesis .
qed

lemma load_words_schedule:
  "4 * (k + n) \<le> length M \<Longrightarrow> k + n \<le> 16 \<Longrightarrow>
     load_words n (drop (4 * k) M) = map (schedule M) [k..<k + n]"
proof (induction n arbitrary: k)
  case (Suc n)
  have "drop (4 * k) M = [M ! (4 * k), M ! (4 * k + 1), M ! (4 * k + 2), M ! (4 * k + 3)] @ drop (4 * Suc k) M"
    using Suc.prems by (simp add: Cons_nth_drop_Suc numeral_eq_Suc)
  moreover have "schedule M k = be32 (take 4 (drop (4 * k) M))" using Suc.prems by (simp add: schedule.simps)
  moreover have "load_words n (drop (4 * Suc k) M) = map (schedule M) [Suc k..<Suc k + n]"
    using Suc.prems by (intro Suc.IH) simp_all
  ultimately show ?case
    by (simp add: Let_def be32_word upt_conv_Cons del: upt_Suc)
qed simp

lemma extend_words_schedule:
  "W = map (schedule M) [0..<m] \<Longrightarrow> 16 \<le> m \<Longrightarrow> extend_words n W = map (schedule M) [0..<m + n]"
proof (induction n arbitrary: m W)
  case (Suc n)
  have W: "W ! (m - j) = schedule M (m - j)" if "0 < j" "j \<le> 16" for j using Suc.prems that by simp
  have "schedule M m = W ! (m - 16) + (ror (W ! (m - 15)) 7 XOR ror (W ! (m - 15)) 18 XOR shr (W ! (m - 15)) 3)
      + W ! (m - 7) + (ror (W ! (m - 2)) 17 XOR ror (W ! (m - 2)) 19 XOR shr (W ! (m - 2)) 10)"
    using Suc.prems(2) by (subst schedule.simps) (simp add: W Let_def ror_rotr shr_def del: schedule.simps)
  then have "extend_words (Suc n) W = extend_words n (map (schedule M) [0..<Suc m])"
    using Suc.prems by (simp add: Let_def)
  then show ?case using Suc.IH [OF refl, of "Suc m"] Suc.prems(2) by simp
qed simp

lemma transform_rounds_sha:
  assumes "W = map (schedule M) [0..<64]"
  shows "transform_rounds W s = fold (\<lambda>t. sha_round (K ! t + schedule M t)) [0..<64] s"
proof -
  have "transform_round W t s = sha_round (K ! t + schedule M t) s" if "t < 64" for t s
    using assms that by (cases s) (simp add: transform_round_def sha_round_def ror_rotr Let_def add.assoc)
  then show ?thesis unfolding transform_rounds_def by (intro fold_cong) (auto simp del: upt_Suc)
qed

lemma SHA256_Transform_compress:
  assumes "length (buf ctx) = 64"
  shows "SHA256_Transform ctx = ctx\<lparr>state := compress (state ctx) (buf ctx)\<rparr>"
proof -
  have "load_words 16 (buf ctx) = map (schedule (buf ctx)) [0..<16]"
    using load_words_schedule [of 0 16 "buf ctx"] assms by simp
  then have "extend_words 48 (load_words 16 (buf ctx)) = map (schedule (buf ctx)) [0..<64]"
    using extend_words_schedule [of _ "buf ctx" 16 48] by simp
  from transform_rounds_sha [OF this] show ?thesis
    unfolding SHA256_Transform_def compress_def Let_def by (simp split: prod.split del: upt_Suc)
qed

section \<open>Buffering\<close>

definition absorbed :: "HASH_CTX \<Rightarrow> byte list \<Rightarrow> bool" where
  "absorbed ctx m \<longleftrightarrow> length (buf ctx) = 64 \<and> take (length m mod 64) (buf ctx) = drop (64 * (length m div 64)) m
     \<and> state ctx = foldl compress sha256_iv (blocks m)"

lemma blocks_snoc:
  assumes "length m mod 64 = 63"
  shows "blocks (m @ [b]) = blocks m @ [drop (64 * (length m div 64)) m @ [b]]"
proof -
  have len: "length m = 64 * (length m div 64) + 63" using assms by presburger
  have "length (m @ [b]) div 64 = Suc (length m div 64)" using assms by (simp add: div_Suc mod_Suc)
  moreover have "take 64 (drop (64 * i) (m @ [b])) = take 64 (drop (64 * i) m)" if "i < length m div 64" for i
    using that len by simp
  moreover have "take 64 (drop (64 * (length m div 64)) (m @ [b])) = drop (64 * (length m div 64)) m @ [b]"
    using len by simp
  ultimately show ?thesis by (simp add: blocks_def cong: map_cong)
qed

lemma blocks_snoc_partial:
  assumes "length m mod 64 < 63"
  shows "blocks (m @ [b]) = blocks m"
proof -
  have len: "length (m @ [b]) div 64 = length m div 64" using assms by (simp add: div_Suc mod_Suc)
  moreover have "take 64 (drop (64 * i) (m @ [b])) = take 64 (drop (64 * i) m)" if "i < length m div 64" for i
    using that mult_div_mod_eq [of 64 "length m"] by simp
  ultimately show ?thesis by (simp add: blocks_def cong: map_cong)
qed

lemma absorbed_byte:
  fixes b :: byte
  assumes "absorbed ctx m"
  defines "ctx1 \<equiv> ctx\<lparr>buf := (buf ctx)[length m mod 64 := b]\<rparr>"
  shows "length m mod 64 + 1 = 64 \<Longrightarrow> absorbed (SHA256_Transform ctx1) (m @ [b])"
    and "length m mod 64 + 1 \<noteq> 64 \<Longrightarrow> absorbed ctx1 (m @ [b])"
proof -
  let ?i = "length m mod 64"
  have i: "?i < 64" and buf: "length (buf ctx) = 64" using assms(1) by (simp_all add: absorbed_def)
  then have t: "take (Suc ?i) (buf ctx1) = drop (64 * (length m div 64)) m @ [b]"
    using assms(1) by (simp add: ctx1_def absorbed_def take_Suc_conv_app_nth)
  show "absorbed (SHA256_Transform ctx1) (m @ [b])" if "?i + 1 = 64"
  proof -
    have T: "SHA256_Transform ctx1 = ctx1\<lparr>state := compress (state ctx1) (buf ctx1)\<rparr>"
      using buf by (intro SHA256_Transform_compress) (simp add: ctx1_def)
    have b: "buf ctx1 = drop (64 * (length m div 64)) m @ [b]" using t that buf by (simp add: ctx1_def)
    have "length (m @ [b]) mod 64 = 0" using that by (simp add: mod_Suc)
    moreover from this have "length (m @ [b]) \<le> 64 * (length (m @ [b]) div 64)"
      using mult_div_mod_eq [of 64 "length (m @ [b])"] by linarith
    moreover have "state ctx1 = foldl compress sha256_iv (blocks m)" "length (buf ctx1) = 64"
      using assms(1) by (simp_all add: ctx1_def absorbed_def)
    ultimately show ?thesis
      unfolding absorbed_def T using that b by (simp add: blocks_snoc)
  qed
  show "absorbed ctx1 (m @ [b])" if "?i + 1 \<noteq> 64"
  proof -
    have "length (m @ [b]) mod 64 = Suc ?i" "length (m @ [b]) div 64 = length m div 64"
      using that i by (simp_all add: mod_Suc div_Suc)
    then show ?thesis
      using assms(1) that i t buf by (simp add: absorbed_def ctx1_def blocks_snoc_partial)
  qed
qed

lemma absorbed_loop: "absorbed ctx m \<Longrightarrow> i = length m mod 64 \<Longrightarrow> absorbed (update_loop i bs ctx) (m @ bs)"
proof (induction i bs ctx arbitrary: m rule: update_loop.induct)
  case (2 i b bs ctx)
  note step = absorbed_byte [OF 2(3), of b]
  show ?case
  proof (cases "i + 1 = 64")
    case True
    then show ?thesis using 2(1) [OF refl True, of "m @ [b]"] step(1) 2(4) by (simp add: mod_Suc)
  next
    case False
    then show ?thesis using 2(2) [OF refl False, of "m @ [b]"] step(2) 2(4) by (simp add: mod_Suc)
  qed
qed simp

declare pad_loop.simps [simp del]

definition absorbs :: "HASH_CTX \<Rightarrow> byte list \<Rightarrow> bool" where
  "absorbs ctx m \<longleftrightarrow> absorbed ctx m \<and> count ctx = of_nat (length m)"

lemma absorbs_init: "length (buf ctx) = 64 \<Longrightarrow> absorbs (SHA256_init ctx) []"
  by (simp add: absorbs_def absorbed_def SHA256_init_def blocks_def sha256_iv_def)

lemma unat_of_nat_mod_64: "unat (of_nat n :: 64 word) mod 64 = n mod 64"
  by (simp add: unat_of_nat mod_mod_cancel)

lemma absorbs_update: "absorbs ctx m \<Longrightarrow> absorbs (SHA256_update ctx data) (m @ data)"
proof -
  assume a: "absorbs ctx m"
  then have "absorbed (ctx\<lparr>count := count ctx + of_nat (length data)\<rparr>) m" by (simp add: absorbs_def absorbed_def)
  from absorbed_loop [OF this] a show ?thesis
    by (simp add: absorbs_def SHA256_update_def unat_and_63 unat_of_nat_mod_64)
qed

lemma absorbs_pad_loop: "absorbs ctx m \<Longrightarrow> absorbs (pad_loop ctx) (m @ replicate (pad_todo (count ctx)) 0)"
proof (induction ctx arbitrary: m rule: pad_loop.induct)
  case (1 ctx)
  show ?case
  proof (cases "count ctx AND 63 = 56")
    case True
    then have "pad_todo (count ctx) = 0" by (simp add: pad_todo_def and_63_eq_56)
    then show ?thesis using 1(2) True by (subst pad_loop.simps) simp
  next
    case False
    then show ?thesis
      using 1(1) [OF False absorbs_update [OF 1(2), of "[0]"]]
      by (subst pad_loop.simps) (simp add: pad_todo_step)
  qed
qed

lemma absorbs_length_loop:
  "absorbs ctx m \<Longrightarrow>
     absorbs (length_loop n cnt ctx) (m @ map (\<lambda>i. ucast (drop_bit 56 (push_bit (8 * i) cnt))) [0..<n])"
proof (induction n arbitrary: m cnt ctx)
  case (Suc n)
  have "map (\<lambda>i. ucast (drop_bit 56 (push_bit (8 * i) cnt)) :: byte) [0..<Suc n] =
      [ucast (drop_bit 56 cnt)] @ map (\<lambda>i. ucast (drop_bit 56 (push_bit (8 * i) (push_bit 8 cnt)))) [0..<n]"
    by (subst upt_conv_Cons) (simp_all add: map_Suc_upt [symmetric] push_bit_push_bit comp_def add.commute del: upt_Suc)
  then show ?case
    using Suc.IH [OF absorbs_update [OF Suc.prems, of "[ucast (drop_bit 56 cnt)]"], of "push_bit 8 cnt"]
    by (simp only: length_loop.simps append_assoc Let_def)
qed simp

lemma ucast_drop_bit: "(ucast (drop_bit k w) :: byte) = of_nat (unat (w :: 'a::len word) div 2 ^ k)"
  by (metis drop_bit_eq_div of_nat_unat unsigned_drop_bit_eq take_bit_nat_eq_self unsigned_less)

lemma length_byte:
  assumes "i < 8"
  shows "ucast (drop_bit 56 (push_bit (8 * i) cnt)) = (of_nat (unat (cnt :: 64 word) div 256 ^ (7 - i)) :: byte)"
proof -
  have p: "(256 :: nat) ^ (7 - i) = 2 ^ (56 - 8 * i)" 
    using assms power_mult [of "2 :: nat" 8 "7 - i"] by (simp add: diff_mult_distrib2)
  have "(ucast (drop_bit 56 (push_bit (8 * i) cnt)) :: byte) = ucast (drop_bit (56 - 8 * i) cnt)"
    using assms by (intro bit_word_eqI) (auto simp: bit_ucast_iff bit_drop_bit_eq bit_push_bit_iff)
  then show ?thesis by (simp only: ucast_drop_bit p)
qed

lemma word_bytes_be: "word_bytes w = be_bytes 4 (unat w)"
  using ucast_drop_bit [of 24 w] ucast_drop_bit [of 16 w] ucast_drop_bit [of 8 w] ucast_drop_bit [of 0 w]
  by (simp add: word_bytes_def be_bytes_def upt_rec)


lemma absorbs_state:
  assumes "absorbs ctx m"
  shows "state ctx = foldl compress sha256_iv (blocks m)" "length (buf ctx) = 64"
  using assms by (simp_all add: absorbs_def absorbed_def)

lemma length_compress: "length h = 8 \<Longrightarrow> length (compress h b) = 8"
  by (simp add: compress_def Let_def split: prod.splits)

lemma length_foldl_compress: "length h = 8 \<Longrightarrow> length (foldl compress h bs) = 8"
  by (induction bs arbitrary: h) (simp_all add: length_compress)

lemma length_sha256: "length (sha256 m) = 32"
proof -
  have "length (concat (map (\<lambda>w. be_bytes 4 (unat w)) ws)) = 4 * length ws" for ws :: "32 word list"
    by (induction ws) (simp_all add: be_bytes_def)
  then show ?thesis using length_foldl_compress [of sha256_iv] by (simp add: sha256_def sha256_iv_def)
qed

lemma pad_todo_Suc: "pad_todo (of_nat n + 1) = (119 - n mod 64) mod 64"
proof -
  define r where "r = n mod 64"
  have r: "r < 64" by (simp add: r_def)
  have u: "unat (of_nat n + 1 :: 64 word) mod 64 = (if r = 63 then 0 else Suc r)"
    using unat_of_nat_mod_64 [of "Suc n"] by (simp add: add.commute r_def mod_Suc)
  show ?thesis
  proof (cases "r \<le> 55")
    case True
    then have "119 - r = (55 - r) + 64" by simp
    then have "(119 - r) mod 64 = 55 - r" by (simp only: mod_add_self2) simp
    then show ?thesis using True unfolding pad_todo_def u r_def [symmetric] by simp
  next
    case False
    then have "(119 - r) mod 64 = 119 - r" by simp
    then show ?thesis using False r unfolding pad_todo_def u r_def [symmetric] by simp
  qed
qed

lemma unat_bit_count:
  assumes "length m < 2 ^ 61"
  shows "unat (push_bit 3 (of_nat (length m) :: 64 word)) = 8 * length m"
proof -
  have "push_bit 3 (of_nat (length m) :: 64 word) = of_nat (8 * length m)"
    by (simp add: push_bit_eq_mult mult.commute)
  moreover have "8 * length m < 2 ^ LENGTH(64)" using assms by simp
  ultimately show ?thesis by (simp only: unat_of_nat mod_less)
qed

lemma length_bytes:
  "map (\<lambda>i. ucast (drop_bit 56 (push_bit (8 * i) cnt))) [0..<8] = be_bytes 8 (unat (cnt :: 64 word))"
  unfolding be_bytes_def
proof (rule map_cong)
  fix i assume "i \<in> set [0..<8]"
  then have "i < 8" by (simp only: set_upt atLeastLessThan_iff)
  then show "ucast (drop_bit 56 (push_bit (8 * i) cnt)) = (of_nat (unat cnt div 256 ^ (8 - 1 - i)) :: byte)"
    using length_byte [of i cnt] by (simp del: unsigned_drop_bit_eq)
qed simp

lemma absorbs_padded:
  assumes a: "absorbs ctx m" and n: "length m < 2 ^ 61"
  shows "absorbs (length_loop 8 (push_bit 3 (count ctx)) (pad_loop (SHA256_update ctx [0x80]))) (sha_pad m)"
proof -
  have c: "count ctx = of_nat (length m)" using a by (simp only: absorbs_def)
  have u: "absorbs (SHA256_update ctx [0x80]) (m @ [0x80])" by (rule absorbs_update [OF a])
  have "count (SHA256_update ctx [0x80]) = of_nat (length (m @ [0x80]))" using u by (simp only: absorbs_def)
  also have "\<dots> = of_nat (length m) + 1" by (simp add: add.commute)
  finally have p: "pad_todo (count (SHA256_update ctx [0x80])) = (119 - length m mod 64) mod 64" by (simp only: pad_todo_Suc)
  show ?thesis
    using absorbs_length_loop [OF absorbs_pad_loop [OF u], of 8 "push_bit 3 (count ctx)"]
    unfolding p length_bytes unfolding c unat_bit_count [OF n] sha_pad_def append_assoc .
qed

lemma SHA256_final_absorbs:
  assumes "absorbs ctx m" and "length m < 2 ^ 61"
  shows "digest (SHA256_final ctx) = sha256 m" "length (buf (SHA256_final ctx)) = 64"
proof -
  have "length (concat (map word_bytes (foldl compress sha256_iv (blocks (sha_pad m))))) = 32"
    using length_sha256 [of m] by (simp only: sha256_def word_bytes_be [abs_def])
  then show "digest (SHA256_final ctx) = sha256 m" "length (buf (SHA256_final ctx)) = 64"
    using absorbs_state [OF absorbs_padded [OF assms]]
    by (simp_all add: SHA256_final_def digest_def Let_def sha256_def flip: word_bytes_be)
qed

lemma absorbs_updates: "absorbs ctx m \<Longrightarrow> absorbs (foldl SHA256_update ctx chunks) (m @ concat chunks)"
proof (induction chunks arbitrary: ctx m)
  case (Cons c cs)
  from Cons.IH [OF absorbs_update [OF Cons.prems, of c]] show ?case by simp
qed simp

text \<open>C9. Feeding a message to the SHA-256 context in chunks of any sizes, from a context whose previous content
  is arbitrary, and finishing it gives the digest of the standard for the whole message: the ring buffer, the
  padding and the rounds compute the reference function. The message must be shorter
  than \<^term>\<open>2 ^ 61\<close> bytes, the limit of the 64-bit bit count.\<close>

theorem SHA256_correct:
  assumes "length (buf ctx) = 64" and "length (concat chunks) < 2 ^ 61"
  shows "digest (SHA256_final (foldl SHA256_update (SHA256_init ctx) chunks)) = sha256 (concat chunks)"
  using SHA256_final_absorbs(1) [OF absorbs_updates [OF absorbs_init]] assms by simp

definition sample_ctx :: HASH_CTX where
  "sample_ctx = \<lparr>count = 5, buf = replicate 64 0xff, state = []\<rparr>"

lemma SHA256_hash_abc:
  "SHA256_hash [0x61, 0x62, 0x63] sample_ctx =
     [0xba, 0x78, 0x16, 0xbf, 0x8f, 0x01, 0xcf, 0xea, 0x41, 0x41, 0x40, 0xde, 0x5d, 0xae, 0x22, 0x23,
      0xb0, 0x03, 0x61, 0xa3, 0x96, 0x17, 0x7a, 0x9c, 0xb4, 0x10, 0xff, 0x61, 0xf2, 0x00, 0x15, 0xad]"
  by code_simp


theorem SHA256_correct_witness:
  "digest (SHA256_final (foldl SHA256_update (SHA256_init sample_ctx) [[0x61], [], [0x62, 0x63]])) =
     sha256 [0x61, 0x62, 0x63] \<and>
   digest (SHA256_final (foldl SHA256_update (SHA256_init sample_ctx) [[0x61, 0x62, 0x63]])) =
     [0xba, 0x78, 0x16, 0xbf, 0x8f, 0x01, 0xcf, 0xea, 0x41, 0x41, 0x40, 0xde, 0x5d, 0xae, 0x22, 0x23,
      0xb0, 0x03, 0x61, 0xa3, 0x96, 0x17, 0x7a, 0x9c, 0xb4, 0x10, 0xff, 0x61, 0xf2, 0x00, 0x15, 0xad]"
  using SHA256_correct [of sample_ctx "[[0x61], [], [0x62, 0x63]]"] SHA256_hash_abc
  by (simp add: SHA256_hash_def sample_ctx_def)

lemma SHA256_hash_correct:
  assumes "length (buf ctx) = 64" and "length m < 2 ^ 61"
  shows "digest (SHA256_final (SHA256_update (SHA256_init ctx) m)) = sha256 m"
    "length (buf (SHA256_final (SHA256_update (SHA256_init ctx) m))) = 64"
  using SHA256_final_absorbs [OF absorbs_update [OF absorbs_init [OF assms(1)], of m]] assms(2) by simp_all

definition hmac_pad :: "byte list \<Rightarrow> byte list" where
  "hmac_pad key = (let k0 = (if length key > 64 then sha256 key else key) in k0 @ replicate (64 - length k0) 0)"

lemma length_hmac_pad: "length (hmac_pad key) = 64"
  by (simp add: hmac_pad_def Let_def length_sha256)

lemma xor_pads: "(b XOR 0x36) XOR (0x36 XOR 0x5c) = (b XOR 0x5c :: byte)"
  by (simp add: xor.assoc flip: xor.assoc [of "0x36 :: byte" "0x36 :: byte"])

lemma HMAC_init_state:
  assumes b: "length (buf (hash ctx)) = 64" and n: "length key < 2 ^ 61"
  shows "absorbs (hash (HMAC_init ctx key)) (map (\<lambda>b. b XOR 0x36) (hmac_pad key))"
    and "opad (HMAC_init ctx key) = map (\<lambda>b. b XOR 0x5c) (hmac_pad key)"
proof -
  define h where "h = (if length key > 64 then SHA256_final (SHA256_update (SHA256_init (hash ctx)) key) else hash ctx)"
  have p: "hmac_pad key = (if length key > 64 then digest h @ replicate 32 0 else key @ replicate (64 - length key) 0)"
    using SHA256_hash_correct [OF b n] by (simp add: hmac_pad_def h_def Let_def length_sha256)
  have l: "length (buf h) = 64" using SHA256_hash_correct [OF b n] b by (simp add: h_def)
  have i: "HMAC_init ctx key =
      ctx\<lparr>hash := SHA256_update (SHA256_init h) (map (\<lambda>b. b XOR 0x36) (hmac_pad key)),
          opad := map (\<lambda>b. b XOR (0x36 XOR 0x5c)) (map (\<lambda>b. b XOR 0x36) (hmac_pad key))\<rparr>"
    by (simp only: HMAC_init_def p h_def Let_def split: if_split prod.split) simp
  show "absorbs (hash (HMAC_init ctx key)) (map (\<lambda>b. b XOR 0x36) (hmac_pad key))"
    using absorbs_update [OF absorbs_init [OF l]] by (simp add: i)
  show "opad (HMAC_init ctx key) = map (\<lambda>b. b XOR 0x5c) (hmac_pad key)"
    unfolding i map_map o_def xor_pads by simp
qed

lemma absorbs_HMAC_updates:
  "absorbs (hash ctx) m \<Longrightarrow>
     absorbs (hash (foldl HMAC_update ctx chunks)) (m @ concat chunks) \<and>
     opad (foldl HMAC_update ctx chunks) = opad ctx"
proof (induction chunks arbitrary: ctx m)
  case (Cons c cs)
  have "absorbs (hash (HMAC_update ctx c)) (m @ c)" using absorbs_update [OF Cons.prems] by (simp add: HMAC_update_def)
  from Cons.IH [OF this] show ?case by (simp add: HMAC_update_def)
qed simp

lemma HMAC_final_absorbs:
  assumes "absorbs (hash ctx) m" and "length m < 2 ^ 61" and "length (opad ctx) = 64"
  shows "digest (hash (HMAC_final ctx)) = sha256 (opad ctx @ sha256 m)"
proof -
  let ?h = "SHA256_final (hash ctx)"
  have d: "digest ?h = sha256 m" "length (buf ?h) = 64" using SHA256_final_absorbs [OF assms(1,2)] by simp_all
  have "absorbs (SHA256_update (SHA256_update (SHA256_init ?h) (opad ctx)) (sha256 m)) (opad ctx @ sha256 m)"
    using absorbs_update [OF absorbs_update [OF absorbs_init [OF d(2)], of "opad ctx"], of "sha256 m"] by simp
  from SHA256_final_absorbs(1) [OF this] show ?thesis
    using assms(3) by (simp add: HMAC_final_def Let_def d length_sha256)
qed

text \<open>C33. HMAC over SHA-256, with a key of any length and the message given in chunks, is the MAC of RFC 2104,
  whatever the context held before, and after the final call the padded key is wiped from the context.\<close>

theorem HMAC_correct:
  assumes "length (buf (hash ctx)) = 64"
    and "length key < 2 ^ 61" and "length (concat chunks) + 64 < 2 ^ 61"
  defines "final \<equiv> HMAC_final (foldl HMAC_update (HMAC_SHA256_init ctx key) chunks)"
  shows "digest (hash final) = hmac_sha256 key (concat chunks) \<and> opad final = replicate 64 0"
proof -
  let ?i = "ctx\<lparr>hash := SHA256_init (hash ctx)\<rparr>"
  have "length (buf (hash ?i)) = 64" using assms(1) by (simp add: SHA256_init_def)
  note h = HMAC_init_state [OF this assms(2)]
  note u = absorbs_HMAC_updates [OF h(1), of chunks]
  from HMAC_final_absorbs [OF u [THEN conjunct1]] u h(2) assms(3) length_hmac_pad [of key]
  have "digest (hash final) = sha256 (map (\<lambda>b. b XOR 0x5c) (hmac_pad key) @
          sha256 (map (\<lambda>b. b XOR 0x36) (hmac_pad key) @ concat chunks))"
    by (simp add: final_def HMAC_SHA256_init_def add.commute)
  then show ?thesis by (simp add: hmac_sha256_def hmac_pad_def Let_def final_def HMAC_final_def)
qed

theorem HMAC_correct_witness:
  "digest (hash (HMAC_final (foldl HMAC_update (HMAC_SHA256_init \<lparr>hash = sample_ctx, opad = []\<rparr> [0x4a, 0x65, 0x66]) [[0x77], [0x68, 0x61]]))) =
   hmac_sha256 [0x4a, 0x65, 0x66] [0x77, 0x68, 0x61]"
  using HMAC_correct [of "\<lparr>hash = sample_ctx, opad = []\<rparr>" "[0x4a, 0x65, 0x66]" "[[0x77], [0x68, 0x61]]"]
  by (simp add: sample_ctx_def)

end
