(* ===== verification/P256.thy ===== *)
theory P256
  imports Sha256 "HOL-Library.Monad_Syntax"
begin

text \<open>
  The 256-bit integers of \<open>base/security/p256.c\<close>: eight digits of 32 bits, the least significant one first. Sums and products go
  through 64-bit words that carry, signed ones where there is a borrow. Results are new lists where the source writes through a pointer; the
  callers pass the same object as argument and result only where the loops allow it. An assertion that fails and a shift by the width of
  a digit, which is undefined, are the value \<open>None\<close>.
\<close>

unbundle bit_operations_syntax

section \<open>Numbers\<close>

type_synonym digit = "32 word"
type_synonym ddigit = "64 word"
type_synonym p256_int = "digit list"

definition P256_ZERO :: p256_int where
  "P256_ZERO = [0, 0, 0, 0, 0, 0, 0, 0]"

definition p256_one :: p256_int where
  "p256_one = [1, 0, 0, 0, 0, 0, 0, 0]"

definition SECP256r1_n :: p256_int where
  "SECP256r1_n = [0xfc632551, 0xf3b9cac2, 0xa7179e84, 0xbce6faad, -1, -1, 0, -1]"

definition SECP256r1_nMin2 :: p256_int where
  "SECP256r1_nMin2 = [0xfc632551 - 2, 0xf3b9cac2, 0xa7179e84, 0xbce6faad, -1, -1, 0, -1]"

definition SECP256r1_p :: p256_int where
  "SECP256r1_p = [-1, -1, -1, 0, 0, 0, 1, -1]"

definition SECP256r1_b :: p256_int where
  "SECP256r1_b =
     [0x27d2604b, 0x3bce3c3e, 0xcc53b0f6, 0x651d06b0,
      0x769886bc, 0xb3ebbd55, 0xaa3a93e7, 0x5ac635d8]"

section \<open>Loops over the digits\<close>

text \<open>Every loop adds a term to the carry, stores the low half as a digit and shifts the carry down, unsigned or signed.\<close>

fun carry_loop :: "(ddigit \<Rightarrow> ddigit) \<Rightarrow> ddigit \<Rightarrow> ddigit list \<Rightarrow> ddigit \<times> digit list" where
  "carry_loop shft carry [] = (carry, [])"
| "carry_loop shft carry (x # xs) =
     (let s = carry + x; (carry', ds) = carry_loop shft (shft s) xs in (carry', ucast s # ds))"

definition p256_init :: p256_int where
  "p256_init = P256_ZERO"

definition p256_get_bit :: "p256_int \<Rightarrow> nat \<Rightarrow> digit" where
  "p256_get_bit scalar i = drop_bit (i mod 32) (scalar ! (i div 32)) AND 1"

definition p256_is_zero :: "p256_int \<Rightarrow> bool" where
  "p256_is_zero a \<longleftrightarrow> foldl (OR) 0 a = 0"

text \<open>The loops change the first eight digits of the buffer at \<open>c\<close>.\<close>

definition mulAdd :: "p256_int \<Rightarrow> digit \<Rightarrow> digit \<Rightarrow> digit list \<Rightarrow> digit \<times> digit list" where
  "mulAdd a b tp c =
     (let (carry, ds) = carry_loop (drop_bit 32) 0 (map2 (\<lambda>y x. ucast y + ucast x * ucast b) (take 8 c) a)
      in (tp + ucast carry, ds @ drop 8 c))"

definition subTop :: "digit \<Rightarrow> digit list \<Rightarrow> digit \<Rightarrow> digit list \<Rightarrow> (digit \<times> digit list) option" where
  "subTop top_a a top_c c =
     (let (borrow, ds) = carry_loop (signed_drop_bit 32) 0 (map2 (\<lambda>y x. ucast y - ucast x) (take 8 c) a);
          borrow = borrow + ucast top_c - ucast top_a
      in if signed_drop_bit 32 borrow \<noteq> 0 then None else Some (ucast borrow, ds @ drop 8 c))"

definition subM :: "p256_int \<Rightarrow> digit \<Rightarrow> digit list \<Rightarrow> digit \<Rightarrow> digit \<times> digit list" where
  "subM MOD tp c msk =
     (let (borrow, ds) = carry_loop (signed_drop_bit 32) 0 (map2 (\<lambda>y m. ucast y - ucast (m AND msk)) (take 8 c) MOD)
      in (tp + ucast borrow, ds @ drop 8 c))"

definition addM :: "p256_int \<Rightarrow> digit \<Rightarrow> digit list \<Rightarrow> digit \<Rightarrow> digit \<times> digit list" where
  "addM MOD tp c msk =
     (let (carry, ds) = carry_loop (drop_bit 32) 0 (map2 (\<lambda>y m. ucast y + ucast (m AND msk)) (take 8 c) MOD)
      in (tp + ucast carry, ds @ drop 8 c))"

definition p256_mod :: "p256_int \<Rightarrow> p256_int \<Rightarrow> p256_int" where
  "p256_mod MOD inp =
     (let (msk, out) = subM MOD 0 inp (- 1) in snd (addM MOD 0 out msk))"

section \<open>Multiplication\<close>

text \<open>The rows of the product, from the digits of \<open>b\<close> that are left and the index of the first of them.\<close>

fun mul_rows :: "p256_int \<Rightarrow> digit list \<Rightarrow> nat \<Rightarrow> digit \<Rightarrow> digit list \<Rightarrow> digit \<times> digit list" where
  "mul_rows a [] i tp tmp = (tp, tmp)"
| "mul_rows a (b # bs) i tp tmp =
     (let tmp = (if i \<noteq> 0 then tmp[i + 8 - 1 := tp] else tmp); (tp, c) = mulAdd a b 0 (drop i tmp)
      in mul_rows a bs (i + 1) tp (take i tmp @ c))"

definition reduce_step :: "p256_int \<Rightarrow> nat \<Rightarrow> digit \<Rightarrow> digit list \<Rightarrow> (digit \<times> digit list) option" where
  "reduce_step MOD i tp tmp =
     (let (top_reducer, reducer) = mulAdd MOD tp 0 (replicate 8 0)
      in do { (tp, c) \<leftarrow> subTop top_reducer reducer tp (drop i tmp);
              if \<not> tp \<le> 1 then None
              else let (tp, c) = subM MOD tp c (NOT (tp - 1));
                       tmp = take i tmp @ c
                   in if tp \<noteq> 0 then None else Some (tmp ! (i + 8 - 1), tmp) })"

fun reduce_loop :: "p256_int \<Rightarrow> nat \<Rightarrow> digit \<Rightarrow> digit list \<Rightarrow> (digit \<times> digit list) option" where
  "reduce_loop MOD 0 tp tmp = reduce_step MOD 0 tp tmp"
| "reduce_loop MOD (Suc i) tp tmp = do { (tp, tmp) \<leftarrow> reduce_step MOD (Suc i) tp tmp; reduce_loop MOD i tp tmp }"

definition p256_modmul :: "p256_int \<Rightarrow> p256_int \<Rightarrow> digit \<Rightarrow> p256_int \<Rightarrow> p256_int option" where
  "p256_modmul MOD a top_b b =
     (let (tp, tmp) = mul_rows a b 0 0 (replicate 17 0);
          tmp = tmp[8 + 8 - 1 := tp];
          (tp, c) = mulAdd a top_b 0 (drop 8 tmp)
      in do { (_, tmp) \<leftarrow> reduce_loop MOD 8 tp (take 8 tmp @ c);
              let (msk, tmp) = subM MOD 0 tmp (- 1)
              in Some (take 8 (snd (addM MOD 0 tmp msk))) })"

section \<open>Shifts, comparison, sums\<close>

definition p256_is_even :: "p256_int \<Rightarrow> bool" where
  "p256_is_even a \<longleftrightarrow> a ! 0 AND 1 = 0"

text \<open>A digit with the bits that come from its neighbour below, or above.\<close>

fun shl_loop :: "nat \<Rightarrow> digit \<Rightarrow> digit list \<Rightarrow> digit list" where
  "shl_loop n lo [] = []"
| "shl_loop n lo (d # ds) = (push_bit n d OR drop_bit (32 - n) lo) # shl_loop n d ds"

fun shr_loop :: "nat \<Rightarrow> digit \<Rightarrow> digit list \<Rightarrow> digit list" where
  "shr_loop n hi [] = []"
| "shr_loop n hi (d # ds) = (drop_bit n d OR push_bit (32 - n) (case ds of [] \<Rightarrow> hi | e # _ \<Rightarrow> e)) # shr_loop n hi ds"

text \<open>The digits above the first one take bits from below; a shift by 32 is undefined.\<close>

definition p256_shl :: "p256_int \<Rightarrow> nat \<Rightarrow> (digit \<times> p256_int) option" where
  "p256_shl a n =
     (let n = n mod 32
      in if n = 0 then None
         else Some (drop_bit (32 - n) (a ! 7), push_bit n (a ! 0) # shl_loop n (a ! 0) (tl a)))"

definition p256_shr :: "p256_int \<Rightarrow> nat \<Rightarrow> p256_int option" where
  "p256_shr a n = (let n = n mod 32 in if n = 0 then None else Some (shr_loop n 0 a))"

definition p256_shr1 :: "p256_int \<Rightarrow> digit \<Rightarrow> p256_int" where
  "p256_shr1 a highbit = shr_loop 1 highbit a"

fun cmp_loop :: "ddigit \<Rightarrow> digit \<Rightarrow> (digit \<times> digit) list \<Rightarrow> ddigit \<times> digit" where
  "cmp_loop borrow notzero [] = (borrow, notzero)"
| "cmp_loop borrow notzero ((x, y) # ds) =
     (let borrow = borrow + (ucast x - ucast y)
      in cmp_loop (signed_drop_bit 32 borrow) (notzero OR (if (ucast borrow :: digit) = 0 then 0 else 1)) ds)"

definition p256_cmp :: "p256_int \<Rightarrow> p256_int \<Rightarrow> int" where
  "p256_cmp a b = (let (borrow, notzero) = cmp_loop 0 0 (zip a b) in sint ((ucast borrow :: digit) OR notzero))"

text \<open>The results with the borrow or the carry that the source returns.\<close>

definition p256_sub :: "p256_int \<Rightarrow> p256_int \<Rightarrow> int \<times> p256_int" where
  "p256_sub a b =
     (let (borrow, c) = carry_loop (signed_drop_bit 32) 0 (map2 (\<lambda>x y. ucast x - ucast y) a b) in (sint (ucast borrow :: digit), c))"

definition p256_add :: "p256_int \<Rightarrow> p256_int \<Rightarrow> int \<times> p256_int" where
  "p256_add a b =
     (let (carry, c) = carry_loop (drop_bit 32) 0 (map2 (\<lambda>x y. ucast x + ucast y) a b) in (sint (ucast carry :: digit), c))"

definition p256_add_d :: "p256_int \<Rightarrow> digit \<Rightarrow> int \<times> p256_int" where
  "p256_add_d a d =
     (let (carry, b) = carry_loop (drop_bit 32) (ucast d) (map ucast a) in (sint (ucast carry :: digit), b))"

section \<open>Inverses\<close>

definition copyConditional :: "p256_int \<Rightarrow> p256_int \<Rightarrow> digit \<Rightarrow> p256_int" where
  "copyConditional src dst msk = map2 (\<lambda>s d. (s AND msk) OR (d AND NOT msk)) src dst"

definition ZEROtoONES :: "digit \<Rightarrow> digit" where
  "ZEROtoONES x = signed_drop_bit 31 ((x AND 15) - 1)"

text \<open>The table is a list of 16 numbers.\<close>

definition set0ToIdx :: "p256_int list \<Rightarrow> digit \<Rightarrow> p256_int list" where
  "set0ToIdx tbl idx =
     foldl (\<lambda>t i. t[0 := copyConditional (t ! i) (t ! 0) (ZEROtoONES (of_nat i - idx))]) (tbl[0 := p256_one]) [1..<16]"

fun power_table :: "p256_int \<Rightarrow> p256_int \<Rightarrow> nat list \<Rightarrow> p256_int list \<Rightarrow> p256_int list option" where
  "power_table MOD a [] tbl = Some tbl"
| "power_table MOD a (i # ks) tbl = do { t \<leftarrow> p256_modmul MOD (tbl ! (i - 1)) 0 a; power_table MOD a ks (tbl[i := t]) }"

definition window_index :: "nat \<Rightarrow> digit" where
  "window_index i =
     push_bit 3 (p256_get_bit SECP256r1_nMin2 (i - 1)) OR push_bit 2 (p256_get_bit SECP256r1_nMin2 (i - 2))
     OR push_bit 1 (p256_get_bit SECP256r1_nMin2 (i - 3)) OR push_bit 0 (p256_get_bit SECP256r1_nMin2 (i - 4))"

text \<open>The argument is the number of windows of four bits that are left.\<close>

fun modinv_loop :: "p256_int \<Rightarrow> nat \<Rightarrow> p256_int list \<Rightarrow> p256_int \<Rightarrow> p256_int option" where
  "modinv_loop MOD 0 tbl b = Some b"
| "modinv_loop MOD (Suc w) tbl b =
     do { b \<leftarrow> p256_modmul MOD b 0 b;
          b \<leftarrow> p256_modmul MOD b 0 b;
          b \<leftarrow> p256_modmul MOD b 0 b;
          b \<leftarrow> p256_modmul MOD b 0 b;
          let idx = window_index (4 * Suc w); tbl = set0ToIdx tbl idx
          in do { t \<leftarrow> p256_modmul MOD b 0 (tbl ! 0);
                  modinv_loop MOD w (tbl[0 := t]) (copyConditional t b (NOT (ZEROtoONES idx))) } }"

definition p256_modinv :: "p256_int \<Rightarrow> p256_int \<Rightarrow> p256_int option" where
  "p256_modinv MOD a =
     do { tbl \<leftarrow> power_table MOD a [2..<16] ((replicate 16 P256_ZERO)[1 := a]); modinv_loop MOD 64 tbl p256_one }"

text \<open>Half of \<open>R\<close>, made even with the modulus.\<close>

definition half_mod :: "p256_int \<Rightarrow> p256_int \<Rightarrow> p256_int" where
  "half_mod MOD R = (if p256_is_even R then p256_shr1 R 0 else let (c, R1) = p256_add R MOD in p256_shr1 R1 (of_int c))"

definition sub_mod :: "p256_int \<Rightarrow> p256_int \<Rightarrow> p256_int \<Rightarrow> p256_int" where
  "sub_mod MOD S R = (let (bw, S1) = p256_sub S R in if bw \<noteq> 0 then snd (p256_add S1 MOD) else S1)"

partial_function (option) vartime_loop :: "p256_int \<Rightarrow> p256_int \<Rightarrow> p256_int \<Rightarrow> p256_int \<Rightarrow> p256_int \<Rightarrow> p256_int option" where
  "vartime_loop MOD R S U V =
     (if p256_is_even U then vartime_loop MOD (half_mod MOD R) S (p256_shr1 U 0) V
      else if p256_is_even V then vartime_loop MOD R (half_mod MOD S) U (p256_shr1 V 0)
      else if fst (p256_sub V U) = 0 then
        if p256_is_zero (snd (p256_sub V U)) then Some R
        else vartime_loop MOD R (sub_mod MOD S R) U (snd (p256_sub V U))
      else vartime_loop MOD (sub_mod MOD R S) S (snd (p256_sub U V)) V)"

definition p256_modinv_vartime :: "p256_int \<Rightarrow> p256_int \<Rightarrow> p256_int option" where
  "p256_modinv_vartime MOD a = map_option (p256_mod MOD) (vartime_loop MOD P256_ZERO p256_one MOD a)"

section \<open>Points and bytes\<close>

definition p256_is_valid_point :: "p256_int \<Rightarrow> p256_int \<Rightarrow> bool option" where
  "p256_is_valid_point x y =
     (if p256_cmp SECP256r1_p x \<le> 0 \<or> p256_cmp SECP256r1_p y \<le> 0 \<or> p256_is_zero x \<or> p256_is_zero y then Some False
      else do {
        y2 \<leftarrow> p256_modmul SECP256r1_p y 0 y;
        x3 \<leftarrow> p256_modmul SECP256r1_p x 0 x;
        x3 \<leftarrow> p256_modmul SECP256r1_p x 0 x3;
        let x3 = sub_mod SECP256r1_p x3 x;
            x3 = sub_mod SECP256r1_p x3 x;
            x3 = sub_mod SECP256r1_p x3 x;
            (c, x3) = p256_add x3 SECP256r1_b;
            x3 = (if c \<noteq> 0 then snd (p256_sub x3 SECP256r1_p) else x3);
            x3 = sub_mod SECP256r1_p x3 SECP256r1_p
        in Some (p256_cmp y2 x3 = 0) })"

definition p256_to_bin :: "p256_int \<Rightarrow> byte list" where
  "p256_to_bin src = concat (map word_bytes (rev src))"

definition p256_to_le_bin :: "p256_int \<Rightarrow> byte list" where
  "p256_to_le_bin src = concat (map (\<lambda>d. [ucast d, ucast (drop_bit 8 d), ucast (drop_bit 16 d), ucast (drop_bit 24 d)]) src)"

fun be_digits :: "byte list \<Rightarrow> digit list" where
  "be_digits (b0 # b1 # b2 # b3 # bs) =
     (((push_bit 24 (ucast b0) OR push_bit 16 (ucast b1)) OR push_bit 8 (ucast b2)) OR ucast b3) # be_digits bs"
| "be_digits _ = []"

fun le_digits :: "byte list \<Rightarrow> digit list" where
  "le_digits (b0 # b1 # b2 # b3 # bs) =
     (((ucast b0 OR push_bit 8 (ucast b1)) OR push_bit 16 (ucast b2)) OR push_bit 24 (ucast b3)) # le_digits bs"
| "le_digits _ = []"

definition p256_from_bin :: "byte list \<Rightarrow> p256_int" where
  "p256_from_bin src = rev (be_digits src)"

definition p256_from_le_bin :: "byte list \<Rightarrow> p256_int" where
  "p256_from_le_bin src = le_digits src"

section \<open>The value of a number\<close>

fun num_of :: "digit list \<Rightarrow> int" where
  "num_of [] = 0"
| "num_of (d # ds) = uint d + 2 ^ 32 * num_of ds"

lemma num_of_nonneg [simp]: "0 \<le> num_of ds"
  by (induction ds) auto

lemma num_of_not_neg [simp]: "\<not> num_of ds < 0"
  by (simp add: not_less)

lemma num_of_less: "num_of ds < 2 ^ (32 * length ds)"
proof (induction ds)
  case (Cons d ds)
  have "uint d < 2 ^ 32" using uint_lt2p [of d] by simp
  moreover have "num_of ds + 1 \<le> 2 ^ (32 * length ds)" using Cons by simp
  then have "2 ^ 32 * (num_of ds + 1) \<le> 2 ^ 32 * 2 ^ (32 * length ds)" by (rule mult_left_mono) simp
  ultimately have "num_of (d # ds) < 2 ^ 32 * 2 ^ (32 * length ds)" by simp
  then show ?case by (simp add: power_add)
qed simp

lemma num_of_append: "num_of (xs @ ys) = num_of xs + 2 ^ (32 * length xs) * num_of ys"
  by (induction xs) (simp_all add: power_add algebra_simps)

lemma num_of_replicate_0 [simp]: "num_of (replicate n 0) = 0"
  by (induction n) simp_all

lemma num_of_inject: "length xs = length ys \<Longrightarrow> num_of xs = num_of ys \<longleftrightarrow> xs = ys"
proof (induction xs ys rule: list_induct2)
  case (Cons x xs y ys)
  have b: "uint x < 2 ^ 32" "uint y < 2 ^ 32" using uint_lt2p [of x] uint_lt2p [of y] by simp_all
  have "x = y \<and> num_of xs = num_of ys" if e: "num_of (x # xs) = num_of (y # ys)"
  proof -
    from e have "(uint x + 2 ^ 32 * num_of xs) mod 2 ^ 32 = (uint y + 2 ^ 32 * num_of ys) mod 2 ^ 32" by simp
    with b have "uint x = uint y" by (simp only: mod_mult_self2 mod_pos_pos_trivial uint_ge_0)
    with e show ?thesis by (simp add: word_uint_eq_iff)
  qed
  with Cons.IH show ?case by auto
qed simp

fun sum_of :: "(ddigit \<Rightarrow> int) \<Rightarrow> ddigit list \<Rightarrow> int" where
  "sum_of num [] = 0"
| "sum_of num (x # xs) = num x + 2 ^ 32 * sum_of num xs"

section \<open>Loops that carry\<close>

text \<open>A way to carry: how the 64-bit words are read, which terms may be added, which carries come out.\<close>

locale carry_arith =
  fixes shft :: "ddigit \<Rightarrow> ddigit" and num :: "ddigit \<Rightarrow> int" and carries :: "ddigit \<Rightarrow> bool" and fits :: "ddigit \<Rightarrow> bool"
  assumes split_sum: "carries c \<Longrightarrow> fits x \<Longrightarrow> num c + num x = uint (ucast (c + x) :: digit) + 2 ^ 32 * num (shft (c + x))"
    and carries_on: "carries c \<Longrightarrow> fits x \<Longrightarrow> carries (shft (c + x))"
begin

lemma carry_loop_value:
  assumes "carry_loop shft c xs = (c', ds)" and "carries c" and "list_all fits xs"
  shows "length ds = length xs" and "carries c'" and "num_of ds + 2 ^ (32 * length xs) * num c' = num c + sum_of num xs"
proof -
  have "length ds = length xs \<and> carries c' \<and> num_of ds + 2 ^ (32 * length xs) * num c' = num c + sum_of num xs"
    using assms
  proof (induction xs arbitrary: c ds)
    case (Cons x xs)
    from Cons.prems(1) obtain ds1 where l: "carry_loop shft (shft (c + x)) xs = (c', ds1)" and d: "ds = ucast (c + x) # ds1"
      by (auto simp: Let_def split: prod.splits)
    from Cons.IH [OF l] Cons.prems(2,3) carries_on have
      i: "length ds1 = length xs" "carries c'" "num_of ds1 + 2 ^ (32 * length xs) * num c' = num (shft (c + x)) + sum_of num xs" by simp_all
    have "num c + num x = uint (ucast (c + x) :: digit) + 2 ^ 32 * num (shft (c + x))" using split_sum Cons.prems(2,3) by simp
    moreover have "2 ^ 32 * (num_of ds1 + 2 ^ (32 * length xs) * num c') = 2 ^ 32 * (num (shft (c + x)) + sum_of num xs)" using i(3) by simp
    ultimately show ?case using i(1,2) by (simp add: d power_add algebra_simps)
  qed simp
  then show "length ds = length xs" "carries c'" "num_of ds + 2 ^ (32 * length xs) * num c' = num c + sum_of num xs" by auto
qed

end

lemma ucast_low: "uint (ucast (w :: ddigit) :: digit) = uint w mod 2 ^ 32"
  by (simp add: unsigned_ucast_eq take_bit_eq_mod)

lemma uint_drop32: "uint (drop_bit 32 (w :: ddigit)) = uint w div 2 ^ 32"
  by (subst unsigned_drop_bit_eq) (simp add: drop_bit_eq_div bintr_uint)

interpretation ca: carry_arith "drop_bit 32" uint "\<lambda>c. uint c < 2 ^ 32" "\<lambda>x. uint x \<le> 2 ^ 64 - 2 ^ 32"
proof unfold_locales
  fix c x :: ddigit
  assume "uint c < 2 ^ 32" and "uint x \<le> 2 ^ 64 - 2 ^ 32"
  then have s: "uint (c + x) = uint c + uint x" by (subst uint_add_lem [THEN iffD1]) simp_all
  show "uint c + uint x = uint (ucast (c + x) :: digit) + 2 ^ 32 * uint (drop_bit 32 (c + x))"
    unfolding ucast_low uint_drop32 s by simp
  have "uint (c + x) < 2 ^ 64" using uint_lt2p [of "c + x"] by simp
  then show "uint (drop_bit 32 (c + x)) < 2 ^ 32" unfolding uint_drop32 by simp
qed

interpretation cs: carry_arith "signed_drop_bit 32" sint "\<lambda>c. sint c = 0 \<or> sint c = - 1" "\<lambda>x. \<bar>sint x\<bar> < 2 ^ 32"
proof unfold_locales
  fix c x :: ddigit
  assume c: "sint c = 0 \<or> sint c = - 1" and x: "\<bar>sint x\<bar> < 2 ^ 32"
  have s: "sint (c + x) = sint c + sint x"
    using c x by (subst sint_word_ariths(1)) (auto simp: signed_take_bit_int_eq_self_iff abs_if split: if_splits)
  have d: "sint (signed_drop_bit 32 (c + x)) = (sint c + sint x) div 2 ^ 32"
    by (simp add: sint_signed_drop_bit_eq drop_bit_eq_div s)
  have m: "uint (ucast (c + x) :: digit) = (sint c + sint x) mod 2 ^ 32"
    unfolding ucast_low uint_sint [of "c + x"] by (simp add: s mod_mod_cancel take_bit_eq_mod)
  show "sint c + sint x = uint (ucast (c + x) :: digit) + 2 ^ 32 * sint (signed_drop_bit 32 (c + x))"
    unfolding d m by simp
  have "- (2 ^ 32) \<le> sint c + sint x" "sint c + sint x < 2 ^ 32" using c x by (auto simp: abs_if split: if_splits)
  then show "sint (signed_drop_bit 32 (c + x)) = 0 \<or> sint (signed_drop_bit 32 (c + x)) = - 1"
    unfolding d by auto
qed

lemma uint_digit: "uint (d :: digit) < 2 ^ 32"
  using uint_lt2p [of d] by simp

lemma uint_muladd: "uint (ucast (x :: digit) + ucast (y :: digit) * ucast (b :: digit) :: ddigit) = uint x + uint y * uint b"
  and fits_muladd: "uint x + uint y * uint b \<le> 2 ^ 64 - 2 ^ 32"
proof -
  have "uint y * uint b \<le> (2 ^ 32 - 1) * (2 ^ 32 - 1)"
    using uint_digit [of y] uint_digit [of b] by (intro mult_mono) simp_all
  then show f: "uint x + uint y * uint b \<le> 2 ^ 64 - 2 ^ 32" using uint_digit [of x] by simp
  show "uint (ucast x + ucast y * ucast b :: ddigit) = uint x + uint y * uint b"
    using f by (simp add: uint_word_ariths unsigned_ucast_eq bintr_uint mod_simps)
qed

lemma uint_add2: "uint (ucast (x :: digit) + ucast (y :: digit) :: ddigit) = uint x + uint y"
  using uint_muladd [of x y 1] by simp

lemma sint_ucast: "sint (ucast (x :: digit) :: ddigit) = uint x"
  using uint_digit [of x] order_trans [of "- 9223372036854775808" 0 "uint x"]
  by (simp add: sint_uint unsigned_ucast_eq bintr_uint signed_take_bit_int_eq_self_iff)

lemma sint_sub2: "sint (ucast (x :: digit) - ucast (y :: digit) :: ddigit) = uint x - uint y"
proof -
  have "\<bar>uint x - uint y\<bar> < 2 ^ 32"
    using uint_digit [of x] uint_digit [of y] uint_ge_0 [of x] uint_ge_0 [of y] by linarith
  then have "- (2 ^ 63) \<le> uint x - uint y" "uint x - uint y < 2 ^ 63" by (auto simp: abs_less_iff)
  then show ?thesis by (subst sint_word_ariths(2)) (simp add: sint_ucast signed_take_bit_int_eq_self_iff)
qed

lemma sum_of_muladd:
  assumes "length c = length a"
  shows "sum_of uint (map2 (\<lambda>y x. ucast y + ucast x * ucast b) c a) = num_of c + num_of a * uint (b :: digit)"
    and "list_all (\<lambda>x :: ddigit. uint x \<le> 2 ^ 64 - 2 ^ 32) (map2 (\<lambda>y x. ucast (y :: digit) + ucast (x :: digit) * ucast b) c a)"
  using assms
proof (induction c a rule: list_induct2)
  case (Cons y c x a)
  { case 1 then show ?case using Cons by (simp add: uint_muladd algebra_simps) }
  { case 2 then show ?case using Cons fits_muladd [of y x b] by (simp add: uint_muladd) }
qed simp_all

lemma sum_of_add:
  assumes "length c = length a"
  shows "sum_of uint (map2 (\<lambda>y x. ucast y + ucast x) c a) = num_of c + num_of a"
    and "list_all (\<lambda>x :: ddigit. uint x \<le> 2 ^ 64 - 2 ^ 32) (map2 (\<lambda>y x. ucast (y :: digit) + ucast (x :: digit)) c a)"
  using sum_of_muladd [OF assms, of 1] by simp_all

lemma sum_of_sub:
  assumes "length c = length a"
  shows "sum_of sint (map2 (\<lambda>y x. ucast y - ucast x) c a) = num_of c - num_of a"
    and "list_all (\<lambda>x :: ddigit. \<bar>sint x\<bar> < 2 ^ 32) (map2 (\<lambda>y x. ucast (y :: digit) - ucast (x :: digit)) c a)"
proof -
  have "\<bar>uint x - uint y\<bar> < 2 ^ 32" for x y :: digit using uint_digit [of x] uint_digit [of y] uint_ge_0 [of x] uint_ge_0 [of y] by linarith
  with assms show "sum_of sint (map2 (\<lambda>y x. ucast y - ucast x) c a) = num_of c - num_of a"
    and "list_all (\<lambda>x :: ddigit. \<bar>sint x\<bar> < 2 ^ 32) (map2 (\<lambda>y x. ucast (y :: digit) - ucast (x :: digit)) c a)"
    by (induction c a rule: list_induct2) (simp_all add: sint_sub2 algebra_simps)
qed

lemma borrow_word: "sint (c :: ddigit) = 0 \<or> sint c = - 1 \<Longrightarrow> c = 0 \<or> c = - 1"
  by (metis signed_word_eqI signed_0 signed_minus_1)

section \<open>The loops with a carry, as arithmetic\<close>

abbreviation wf_int :: "digit list \<Rightarrow> bool" where
  "wf_int a \<equiv> length a = 8"

lemma mulAdd_value:
  assumes "wf_int a" and "8 \<le> length c"
  obtains tp' ds where "mulAdd a b 0 c = (tp', ds @ drop 8 c)" "wf_int ds"
    "num_of ds + 2 ^ 256 * uint tp' = num_of (take 8 c) + num_of a * uint b"
proof -
  let ?t = "map2 (\<lambda>y x. ucast y + ucast x * ucast b) (take 8 c) a"
  obtain carry ds where l: "carry_loop (drop_bit 32) 0 ?t = (carry, ds)" by force
  have t: "length (take 8 c) = length a" using assms by simp
  note v = ca.carry_loop_value [OF l _ sum_of_muladd(2) [OF t]]
  have "num_of ds + 2 ^ 256 * uint carry = num_of (take 8 c) + num_of a * uint b" "uint carry < 2 ^ 32" "wf_int ds"
    using v sum_of_muladd(1) [OF t, of b] assms by simp_all
  moreover have "uint (ucast carry :: digit) = uint carry" using calculation(2) by (simp add: ucast_low)
  ultimately show ?thesis using l assms by (intro that [of "ucast carry" ds]) (simp_all add: mulAdd_def Let_def)
qed

lemma sub_loop:
  assumes "wf_int a" and "8 \<le> length c"
  obtains bw ds where "carry_loop (signed_drop_bit 32) 0 (map2 (\<lambda>y x. ucast y - ucast x) (take 8 c) a) = (bw, ds)" "wf_int ds" "bw = 0 \<or> bw = - 1"
    "num_of ds + 2 ^ 256 * sint bw = num_of (take 8 c) - num_of a"
proof -
  obtain bw ds where l: "carry_loop (signed_drop_bit 32) 0 (map2 (\<lambda>y x. ucast y - ucast x) (take 8 c) a) = (bw, ds)" by force
  have t: "length (take 8 c) = length a" using assms by simp
  note v = cs.carry_loop_value [OF l _ sum_of_sub(2) [OF t]]
  have "num_of ds + 2 ^ 256 * sint bw = num_of (take 8 c) - num_of a" "sint bw = 0 \<or> sint bw = - 1" "wf_int ds"
    using v sum_of_sub(1) [OF t] assms by simp_all
  then show ?thesis using l borrow_word by (intro that [of bw ds]) auto
qed

lemma masked_num: "msk = 0 \<or> msk = - 1 \<Longrightarrow> num_of (map (\<lambda>m. m AND msk) MOD) = (if msk = 0 then 0 else num_of MOD)"
  by (induction MOD) auto

lemma ucast_minus_one [simp]: "(ucast (- 1 :: ddigit) :: digit) = - 1"
  by code_simp

lemma mod_once: "m \<le> x \<Longrightarrow> x < 2 * m \<Longrightarrow> x mod m = x - m" for x m :: int
  using mod_pos_pos_trivial [of "x - m" m] by simp

lemma subM_value:
  assumes "wf_int MOD" and "8 \<le> length c" and "msk = 0 \<or> msk = - 1"
  obtains bw ds where "subM MOD tp c msk = (tp + bw, ds @ drop 8 c)" "wf_int ds" "bw = 0 \<or> bw = - 1"
    "num_of ds = num_of (take 8 c) - (if msk = 0 then 0 else num_of MOD) + (if bw = 0 then 0 else 2 ^ 256)"
proof -
  let ?m = "map (\<lambda>m. m AND msk) MOD"
  have "wf_int ?m" using assms(1) by simp
  from sub_loop [OF this assms(2)] obtain bw ds where
    l: "carry_loop (signed_drop_bit 32) 0 (map2 (\<lambda>y x. ucast y - ucast x) (take 8 c) ?m) = (bw, ds)"
    and v: "wf_int ds" "bw = 0 \<or> bw = - 1" "num_of ds + 2 ^ 256 * sint bw = num_of (take 8 c) - num_of ?m" .
  have "map2 (\<lambda>y x. ucast y - ucast x) (take 8 c) ?m = map2 (\<lambda>y m. ucast y - ucast (m AND msk) :: ddigit) (take 8 c) MOD"
    by (simp add: zip_map2 case_prod_unfold comp_def)
  with l have "subM MOD tp c msk = (tp + ucast bw, ds @ drop 8 c)" by (simp add: subM_def Let_def)
  moreover have "ucast bw = (0 :: digit) \<or> ucast bw = (- 1 :: digit)" using v(2) by auto
  moreover have "num_of ds = num_of (take 8 c) - (if msk = 0 then 0 else num_of MOD) + (if ucast bw = (0 :: digit) then 0 else 2 ^ 256)"
    using v masked_num [OF assms(3), of MOD] by auto
  ultimately show ?thesis using v(1) that by blast
qed

lemma addM_value:
  assumes "wf_int MOD" and "8 \<le> length c" and "msk = 0 \<or> msk = - 1"
  obtains cy ds where "addM MOD tp c msk = (tp + cy, ds @ drop 8 c)" "wf_int ds"
    "num_of ds = (num_of (take 8 c) + (if msk = 0 then 0 else num_of MOD)) mod 2 ^ 256"
proof -
  let ?m = "map (\<lambda>m. m AND msk) MOD"
  obtain cy ds where l: "carry_loop (drop_bit 32) 0 (map2 (\<lambda>y x. ucast y + ucast x) (take 8 c) ?m) = (cy, ds)" by force
  have t: "length (take 8 c) = length ?m" using assms by simp
  from ca.carry_loop_value [OF l _ sum_of_add(2) [OF t]] sum_of_add(1) [OF t] assms(1,2)
  have v: "wf_int ds" "num_of ds + 2 ^ 256 * uint cy = num_of (take 8 c) + num_of ?m" by simp_all
  have e: "map2 (\<lambda>y x. ucast y + ucast x) (take 8 c) ?m = map2 (\<lambda>y m. ucast y + ucast (m AND msk) :: ddigit) (take 8 c) MOD"
    by (simp add: zip_map2 case_prod_unfold comp_def)
  from l e have "addM MOD tp c msk = (tp + ucast cy, ds @ drop 8 c)" by (simp add: addM_def Let_def)
  moreover have "num_of ds = (num_of ds + 2 ^ 256 * uint cy) mod 2 ^ 256" using num_of_less [of ds] v(1) by simp
  then have "num_of ds = (num_of (take 8 c) + num_of ?m) mod 2 ^ 256" by (simp only: v(2))
  ultimately show ?thesis using v(1) masked_num [OF assms(3), of MOD] by (intro that [of "ucast cy" ds]) auto
qed

lemma wf_num_less: "wf_int a \<Longrightarrow> num_of a < 2 ^ 256"
  using num_of_less [of a] by simp

text \<open>Two steps reduce a number below twice the modulus.\<close>

lemma final_reduction:
  assumes "wf_int MOD" and "8 \<le> length c" and "num_of (take 8 c) < 2 * num_of MOD" and "subM MOD 0 c (- 1) = (msk, c')"
  obtains ds where "snd (addM MOD 0 c' msk) = ds @ drop 8 c" "wf_int ds" "num_of ds = num_of (take 8 c) mod num_of MOD"
proof -
  from subM_value [OF assms(1,2), of "- 1" 0] obtain bw ds where s: "subM MOD 0 c (- 1) = (0 + bw, ds @ drop 8 c)" and w: "wf_int ds" "bw = 0 \<or> bw = - 1"
    and v: "num_of ds = num_of (take 8 c) - num_of MOD + (if bw = 0 then 0 else 2 ^ 256)" by auto
  from s assms(4) have m: "msk = bw" "c' = ds @ drop 8 c" by simp_all
  from addM_value [OF assms(1), of c' msk 0] m w obtain cy es where a: "addM MOD 0 c' msk = (0 + cy, es @ drop 8 c')" "wf_int es"
    and e: "num_of es = (num_of ds + (if bw = 0 then 0 else num_of MOD)) mod 2 ^ 256" by auto
  have b: "num_of ds < 2 ^ 256" "num_of (take 8 c) < 2 ^ 256" using wf_num_less [of ds] wf_num_less [of "take 8 c"] w(1) assms(2) by simp_all
  have "num_of es = num_of (take 8 c) mod num_of MOD"
  proof (cases "bw = 0")
    case True
    then have "num_of es = num_of (take 8 c) - num_of MOD" "num_of MOD \<le> num_of (take 8 c)" using e v b num_of_nonneg [of ds] by auto
    then show ?thesis using assms(3) by (simp add: mod_once)
  next
    case False
    then have "num_of es = num_of (take 8 c)" "num_of (take 8 c) < num_of MOD" using e v b num_of_nonneg [of ds] by auto
    then show ?thesis by simp
  qed
  then show ?thesis using a m w by (intro that [of es]) simp_all
qed

lemma p256_mod_value:
  assumes "wf_int MOD" and "wf_int a" and "2 ^ 255 \<le> num_of MOD"
  shows "wf_int (p256_mod MOD a)" and "num_of (p256_mod MOD a) = num_of a mod num_of MOD"
proof -
  obtain msk c' where s: "subM MOD 0 a (- 1) = (msk, c')" by force
  have "num_of (take 8 a) < 2 * num_of MOD" using wf_num_less [OF assms(2)] assms by simp
  from final_reduction [OF assms(1) _ this s] assms(2) obtain ds where
    "snd (addM MOD 0 c' msk) = ds" "wf_int ds" "num_of ds = num_of a mod num_of MOD" by auto
  then show "wf_int (p256_mod MOD a)" "num_of (p256_mod MOD a) = num_of a mod num_of MOD" by (simp_all add: p256_mod_def s)
qed

section \<open>The product modulo a number\<close>

lemma sint_bit: "0 \<le> sint (w :: ddigit) \<Longrightarrow> sint w < 2 \<Longrightarrow> w = 0 \<or> w = 1"
proof -
  assume "0 \<le> sint w" and "sint w < 2"
  then have "sint w = sint (0 :: ddigit) \<or> sint w = sint (1 :: ddigit)" by auto
  then show ?thesis using signed_word_eqI by blast
qed

lemma quotient_small: "n + B * s = D \<Longrightarrow> 0 \<le> n \<Longrightarrow> n < B \<Longrightarrow> 0 \<le> D \<Longrightarrow> D < 2 * B \<Longrightarrow> 0 \<le> s \<and> s < 2" for n B s D :: int
proof (rule conjI; rule ccontr)
  assume a: "n + B * s = D" "0 \<le> n" "n < B" "0 \<le> D" "D < 2 * B"
  { assume "\<not> 0 \<le> s" then have "B * s \<le> B * - 1" using a by (intro mult_left_mono) simp_all
    with a show False by simp }
  { assume "\<not> s < 2" then have "B * 2 \<le> B * s" using a by (intro mult_left_mono) simp_all
    with a show False by simp }
qed

lemma sint_borrow:
  assumes "bw = 0 \<or> bw = - 1"
  shows "sint (bw + ucast (x :: digit) - ucast (y :: digit) :: ddigit) = sint bw + uint x - uint y"
proof -
  have "\<bar>uint x - uint y\<bar> < 2 ^ 32"
    using uint_digit [of x] uint_digit [of y] uint_ge_0 [of x] uint_ge_0 [of y] by linarith
  then have b: "- (2 ^ 63) \<le> sint bw + (uint x - uint y)" "sint bw + (uint x - uint y) < 2 ^ 63" using assms by (auto simp: abs_less_iff)
  have "sint (bw + (ucast x - ucast y)) = sint bw + (uint x - uint y)"
    using b by (subst sint_word_ariths(1)) (simp add: sint_sub2 signed_take_bit_int_eq_self_iff)
  then show ?thesis by (simp add: algebra_simps)
qed

lemma signed_drop_one: "signed_drop_bit 32 (1 :: ddigit) = 0"
  by code_simp

lemma subTop_value:
  assumes "wf_int a" and "8 \<le> length c"
    and "num_of a + 2 ^ 256 * uint ta \<le> num_of (take 8 c) + 2 ^ 256 * uint tc"
    and "num_of (take 8 c) + 2 ^ 256 * uint tc < num_of a + 2 ^ 256 * uint ta + 2 * 2 ^ 256"
  obtains tp ds where "subTop ta a tc c = Some (tp, ds @ drop 8 c)" "wf_int ds" "tp = 0 \<or> tp = 1"
    "num_of ds + 2 ^ 256 * uint tp = num_of (take 8 c) + 2 ^ 256 * uint tc - (num_of a + 2 ^ 256 * uint ta)"
proof -
  from sub_loop [OF assms(1,2)] obtain bw ds where
    l: "carry_loop (signed_drop_bit 32) 0 (map2 (\<lambda>y x. ucast y - ucast x) (take 8 c) a) = (bw, ds)" and w: "wf_int ds" "bw = 0 \<or> bw = - 1"
    and v: "num_of ds + 2 ^ 256 * sint bw = num_of (take 8 c) - num_of a" .
  define w where "w = bw + ucast tc - ucast ta"
  have s: "sint w = sint bw + uint tc - uint ta" unfolding w_def by (rule sint_borrow [OF \<open>bw = 0 \<or> bw = - 1\<close>])
  have d: "num_of ds + 2 ^ 256 * sint w = num_of (take 8 c) + 2 ^ 256 * uint tc - (num_of a + 2 ^ 256 * uint ta)"
    using v by (simp add: s algebra_simps)
  have n: "0 \<le> num_of ds" "num_of ds < 2 ^ 256" using wf_num_less [OF \<open>wf_int ds\<close>] by simp_all
  have "0 \<le> sint w \<and> sint w < 2" by (rule quotient_small [OF d n]) (use assms(3,4) in linarith)+
  then have "w = 0 \<or> w = 1" using sint_bit by blast
  then have z: "signed_drop_bit 32 w = 0" "ucast w = (0 :: digit) \<or> ucast w = (1 :: digit)" "uint (ucast w :: digit) = sint w"
    by (auto simp: signed_drop_one)
  have "subTop ta a tc c = Some (ucast w, ds @ drop 8 c)" using l z(1) by (simp add: subTop_def Let_def flip: w_def)
  then show ?thesis using z d \<open>wf_int ds\<close> that by metis
qed

definition full_modulus :: "p256_int \<Rightarrow> bool" where
  "full_modulus MOD \<longleftrightarrow> wf_int MOD \<and> MOD ! 7 = - 1"

lemma full_modulus_bounds:
  assumes "full_modulus MOD"
  shows "wf_int MOD" and "2 ^ 256 - 2 ^ 224 \<le> num_of MOD" and "num_of MOD < 2 ^ 256"
proof -
  from assms show w: "wf_int MOD" by (simp add: full_modulus_def)
  then show "num_of MOD < 2 ^ 256" by (rule wf_num_less)
  have "MOD = take 7 MOD @ [MOD ! 7]" using w id_take_nth_drop [of 7 MOD] by simp
  then have "MOD = take 7 MOD @ [- 1]" using assms by (simp add: full_modulus_def)
  then have "num_of MOD = num_of (take 7 MOD) + 2 ^ 224 * uint (- 1 :: digit)" using w num_of_append [of "take 7 MOD" "[- 1]"] by simp
  then show "2 ^ 256 - 2 ^ 224 \<le> num_of MOD" using num_of_nonneg [of "take 7 MOD"] by (simp add: unsigned_minus_1_eq_mask mask_eq_exp_minus_1)
qed

lemma sub_mult_mod [simp]: "(x - m * k) mod m = x mod m" for x m k :: int
  using mod_mult_self2 [of x m "- k"] by simp

lemma not_pred: "tp = 0 \<or> tp = 1 \<Longrightarrow> NOT (tp - 1) = (if tp = 0 then 0 else - 1 :: digit)"
  by auto

lemma reduce_step_value:
  assumes "full_modulus MOD" and "i + 8 \<le> length tmp"
  obtains ds where "reduce_step MOD i tp tmp = Some (ds ! 7, take i tmp @ ds @ drop (i + 8) tmp)" "wf_int ds"
    "num_of ds mod num_of MOD = (num_of (take 8 (drop i tmp)) + 2 ^ 256 * uint tp) mod num_of MOD"
proof -
  note m = full_modulus_bounds [OF assms(1)]
  let ?c = "drop i tmp" and ?M = "num_of MOD"
  have c8: "8 \<le> length ?c" using assms(2) by simp
  from mulAdd_value [OF m(1), of "replicate 8 0" tp] obtain tr r where r: "mulAdd MOD tp 0 (replicate 8 0) = (tr, r)" "wf_int r"
    and rv: "num_of r + 2 ^ 256 * uint tr = ?M * uint tp" by auto
  have x: "0 \<le> num_of (take 8 ?c)" "num_of (take 8 ?c) < 2 ^ 256" using c8 wf_num_less [of "take 8 ?c"] by simp_all
  have "0 \<le> (2 ^ 256 - ?M) * uint tp" using m(3) by simp
  moreover have "(2 ^ 256 - ?M) * uint tp \<le> 2 ^ 224 * (2 ^ 32 - 1)" using m uint_digit [of tp] by (intro mult_mono) simp_all
  ultimately have p: "?M * uint tp \<le> 2 ^ 256 * uint tp" "2 ^ 256 * uint tp \<le> ?M * uint tp + (2 ^ 256 - 2 ^ 224)" by (simp_all add: algebra_simps)
  have lo: "num_of r + 2 ^ 256 * uint tr \<le> num_of (take 8 ?c) + 2 ^ 256 * uint tp" using p x unfolding rv by linarith
  have hi: "num_of (take 8 ?c) + 2 ^ 256 * uint tp < num_of r + 2 ^ 256 * uint tr + 2 * 2 ^ 256"
    using p x zero_less_power [of "2 :: int" 224] unfolding rv by linarith
  from subTop_value [OF r(2) c8 lo hi] obtain t1 d1 where s: "subTop tr r tp ?c = Some (t1, d1 @ drop 8 ?c)" "wf_int d1" "t1 = 0 \<or> t1 = 1"
    and sv: "num_of d1 + 2 ^ 256 * uint t1 = num_of (take 8 ?c) + 2 ^ 256 * uint tp - (num_of r + 2 ^ 256 * uint tr)" .
  define k where "k = NOT (t1 - 1)"
  have k: "k = 0 \<or> k = - 1" "k = 0 \<longleftrightarrow> t1 = 0" using not_pred [OF s(3)] by (auto simp: k_def)
  from subM_value [OF m(1) _ k(1), of "d1 @ drop 8 ?c" t1] s(2) obtain bw ds where u: "subM MOD t1 (d1 @ drop 8 ?c) k = (t1 + bw, ds @ drop 8 ?c)"
    "wf_int ds" "bw = 0 \<or> bw = - 1" and uv: "num_of ds = num_of d1 - (if t1 = 0 then 0 else ?M) + (if bw = 0 then 0 else 2 ^ 256)"
    by (auto simp: k(2))
  have n: "0 \<le> num_of d1" "num_of d1 < 2 ^ 256" "0 \<le> num_of ds" "num_of ds < 2 ^ 256" using wf_num_less s(2) u(2) by simp_all
  have q: "num_of d1 + 2 ^ 256 * uint t1 < 2 ^ 256 + (2 ^ 256 - 2 ^ 224)" using sv rv p x by linarith
  have z: "t1 + bw = 0" using s(3) u(3) uv n q m(2,3) by (auto split: if_splits)
  then have f: "num_of ds = num_of d1 + 2 ^ 256 * uint t1 - (if t1 = 0 then 0 else ?M)" using s(3) u(3) uv by (auto split: if_splits)
  have "num_of ds mod ?M = (num_of (take 8 ?c) + 2 ^ 256 * uint tp - ?M * uint tp - (if t1 = 0 then 0 else ?M)) mod ?M"
    using f sv rv by simp
  also have "\<dots> = (num_of (take 8 ?c) + 2 ^ 256 * uint tp) mod ?M" by (simp add: mod_simps)
  finally have fin: "num_of ds mod ?M = (num_of (take 8 ?c) + 2 ^ 256 * uint tp) mod ?M" .
  have "reduce_step MOD i tp tmp = Some (ds ! 7, take i tmp @ ds @ drop (i + 8) tmp)"
    using r(1) s(1,3) u(1,2) z assms(2) by (auto simp: reduce_step_def Let_def nth_append add.commute simp flip: k_def)
  then show ?thesis using u(2) fin by (rule that)
qed

lemma num_of_take_Suc: "n < length xs \<Longrightarrow> num_of (take (Suc n) xs) = num_of (take n xs) + 2 ^ (32 * n) * uint (xs ! n)"
  by (simp add: take_Suc_conv_app_nth num_of_append)

lemma num_of_take_add: "n + 8 \<le> length xs \<Longrightarrow> num_of (take (n + 8) xs) = num_of (take n xs) + 2 ^ (32 * n) * num_of (take 8 (drop n xs))"
  by (simp add: take_add num_of_append)

text \<open>Each turn takes the top digit off the number in the buffer and keeps its residue.\<close>

lemma reduce_loop_value:
  assumes "full_modulus MOD" and "i + 8 \<le> length tmp"
  obtains tp' tmp' where "reduce_loop MOD i tp tmp = Some (tp', tmp')" "length tmp' = length tmp"
    "num_of (take 8 tmp') mod num_of MOD = (num_of (take (i + 8) tmp) + 2 ^ (32 * (i + 8)) * uint tp) mod num_of MOD"
  using assms(2)
proof (induction i arbitrary: tp tmp thesis)
  case 0
  from reduce_step_value [OF assms(1) 0(2), of tp] obtain ds where
    "reduce_step MOD 0 tp tmp = Some (ds ! 7, ds @ drop 8 tmp)" "wf_int ds"
    "num_of ds mod num_of MOD = (num_of (take 8 tmp) + 2 ^ 256 * uint tp) mod num_of MOD" by auto
  then show ?case by (intro 0(1) [of "ds ! 7" "ds @ drop 8 tmp"]) (use 0(2) in simp_all)
next
  case (Suc i)
  let ?M = "num_of MOD" and ?n = "Suc i"
  from reduce_step_value [OF assms(1) Suc.prems(2), of tp] obtain ds where
    s: "reduce_step MOD ?n tp tmp = Some (ds ! 7, take ?n tmp @ ds @ drop (?n + 8) tmp)" "wf_int ds"
    and v: "num_of ds mod ?M = (num_of (take 8 (drop ?n tmp)) + 2 ^ 256 * uint tp) mod ?M" .
  define t where "t = take ?n tmp @ ds @ drop (?n + 8) tmp"
  have l: "length t = length tmp" using s(2) Suc.prems(2) by (simp add: t_def)
  have d7: "t ! (i + 8) = ds ! 7" using s(2) Suc.prems(2) by (simp add: t_def nth_append)
  have tt: "take (?n + 8) t = take ?n tmp @ ds" using s(2) Suc.prems(2) by (simp add: t_def)
  have "i + 8 \<le> length t" using l Suc.prems(2) by simp
  from Suc.IH [OF _ this, of "ds ! 7"] obtain tp' tmp' where r: "reduce_loop MOD i (ds ! 7) t = Some (tp', tmp')" "length tmp' = length t"
    "num_of (take 8 tmp') mod ?M = (num_of (take (i + 8) t) + 2 ^ (32 * (i + 8)) * uint (ds ! 7)) mod ?M" by metis
  have "num_of (take (i + 8) t) + 2 ^ (32 * (i + 8)) * uint (ds ! 7) = num_of (take (?n + 8) t)"
    using num_of_take_Suc [of "i + 8" t] l Suc.prems(2) d7 by simp
  also have "\<dots> = num_of (take ?n tmp) + 2 ^ (32 * ?n) * num_of ds"
    using Suc.prems(2) by (simp only: tt num_of_append) simp
  finally have "num_of (take 8 tmp') mod ?M = (num_of (take ?n tmp) + 2 ^ (32 * ?n) * (num_of ds mod ?M)) mod ?M"
    using r(3) by (simp only: mod_add_right_eq mod_mult_right_eq) (simp only: mod_add_right_eq [symmetric, of _ "_ * _"] mod_mult_right_eq)
  also have "\<dots> = (num_of (take ?n tmp) + 2 ^ (32 * ?n) * (num_of (take 8 (drop ?n tmp)) + 2 ^ 256 * uint tp)) mod ?M"
    unfolding v by (metis mod_add_right_eq mod_mult_right_eq)
  also have "\<dots> = (num_of (take (?n + 8) tmp) + 2 ^ (32 * (?n + 8)) * uint tp) mod ?M"
    using num_of_take_add [OF Suc.prems(2)] by (simp add: distrib_left power_add mult.assoc add.assoc)
  finally have e: "num_of (take 8 tmp') mod ?M = (num_of (take (?n + 8) tmp) + 2 ^ (32 * (?n + 8)) * uint tp) mod ?M" .
  have "reduce_loop MOD ?n tp tmp = Some (tp', tmp')" unfolding reduce_loop.simps s(1) [folded t_def] using r(1) by simp
  then show ?case using r(2) l e by (intro Suc.prems(1)) simp_all
qed

lemma mul_rows_value:
  assumes "wf_int a" and "i + length bs \<le> 8" and "length tmp = 17"
    and "num_of (take (i + 8) (if i \<noteq> 0 then tmp[i + 8 - 1 := tp] else tmp)) = num_of a * num_of cs" and "length cs = i"
  obtains tp' tmp' where "mul_rows a bs i tp tmp = (tp', tmp')" "length tmp' = 17"
    "num_of (take (i + length bs + 8) (if i + length bs \<noteq> 0 then tmp'[i + length bs + 8 - 1 := tp'] else tmp')) = num_of a * num_of (cs @ bs)"
  using assms(2-5)
proof (induction bs arbitrary: i tp tmp cs thesis)
  case Nil
  show ?case using Nil.prems(2-4) by (intro Nil.prems(1) [of tp tmp]) (simp_all split: if_splits)
next
  case (Cons b bs)
  define t where "t = (if i \<noteq> 0 then tmp[i + 8 - 1 := tp] else tmp)"
  have l: "length t = 17" "8 \<le> length (drop i t)" using Cons.prems(2,3) by (auto simp: t_def)
  from mulAdd_value [OF assms(1) l(2), of b] obtain t1 ds where m: "mulAdd a b 0 (drop i t) = (t1, ds @ drop 8 (drop i t))" "wf_int ds"
    and v: "num_of ds + 2 ^ 256 * uint t1 = num_of (take 8 (drop i t)) + num_of a * uint b" .
  define u where "u = take i t @ ds @ drop 8 (drop i t)"
  have lu: "length u = 17" using l m(2) by (simp add: u_def)
  have "take (Suc i + 8) (u[Suc i + 8 - 1 := t1]) = take i t @ ds @ [t1]"
    using l m(2) Cons.prems(2,3) lu by (simp add: u_def take_update_swap take_Suc_conv_app_nth list_update_append)
  then have "num_of (take (Suc i + 8) (u[Suc i + 8 - 1 := t1])) = num_of (take i t) + 2 ^ (32 * i) * (num_of ds + 2 ^ 256 * uint t1)"
    using l m(2) Cons.prems(2) by (simp add: num_of_append)
  also have "\<dots> = num_of (take (i + 8) t) + 2 ^ (32 * i) * (num_of a * uint b)"
    using num_of_take_add [of i t] l Cons.prems(2) by (simp only: v) (simp add: distrib_left)
  also have "\<dots> = num_of a * num_of (cs @ [b])"
    using Cons.prems(4,5) by (simp add: t_def num_of_append algebra_simps)
  finally have "num_of (take (Suc i + 8) (if Suc i \<noteq> 0 then u[Suc i + 8 - 1 := t1] else u)) = num_of a * num_of (cs @ [b])" by simp
  from Cons.IH [OF _ _ lu this] Cons.prems(2,5) obtain tp' tmp' where "mul_rows a bs (Suc i) t1 u = (tp', tmp')" "length tmp' = 17"
    "num_of (take (Suc i + length bs + 8) (if Suc i + length bs \<noteq> 0 then tmp'[Suc i + length bs + 8 - 1 := tp'] else tmp')) = num_of a * num_of ((cs @ [b]) @ bs)"
    by (metis add_Suc_shift length_Cons length_append_singleton)
  then show ?case using m(1) by (intro Cons.prems(1) [of tp' tmp']) (simp_all add: u_def t_def Let_def)
qed

lemma p256_modmul_value:
  assumes "full_modulus MOD" and "wf_int a" and "wf_int b"
  shows "\<exists>c. p256_modmul MOD a tb b = Some c \<and> wf_int c \<and> num_of c = num_of a * (num_of b + 2 ^ 256 * uint tb) mod num_of MOD"
proof -
  note m = full_modulus_bounds [OF assms(1)]
  have z: "num_of (take (0 + 8) (if 0 \<noteq> (0 :: nat) then (replicate 17 0)[0 + 8 - 1 := 0] else replicate 17 0)) = num_of a * num_of []" by simp
  from mul_rows_value [OF assms(2) _ _ z, of b] assms(3) obtain t1 tmp1 where r: "mul_rows a b 0 0 (replicate 17 0) = (t1, tmp1)" "length tmp1 = 17"
    "num_of (take 16 (tmp1[15 := t1])) = num_of a * num_of b" by auto
  define tmp2 where "tmp2 = tmp1[15 := t1]"
  have l2: "length tmp2 = 17" "8 \<le> length (drop 8 tmp2)" using r(2) by (simp_all add: tmp2_def)
  from mulAdd_value [OF assms(2) l2(2), of tb] obtain t2 ds where u: "mulAdd a tb 0 (drop 8 tmp2) = (t2, ds @ drop 8 (drop 8 tmp2))" "wf_int ds"
    "num_of ds + 2 ^ 256 * uint t2 = num_of (take 8 (drop 8 tmp2)) + num_of a * uint tb" .
  define tmp3 where "tmp3 = take 8 tmp2 @ ds @ drop 8 (drop 8 tmp2)"
  have l3: "length tmp3 = 17" using l2 u(2) by (simp add: tmp3_def)
  have "num_of (take (8 + 8) tmp3) + 2 ^ (32 * (8 + 8)) * uint t2 = num_of (take 8 tmp2) + 2 ^ 256 * (num_of ds + 2 ^ 256 * uint t2)"
    using l2 u(2) by (simp add: tmp3_def num_of_append)
  also have "\<dots> = num_of (take (8 + 8) tmp2) + 2 ^ 256 * (num_of a * uint tb)"
    using num_of_take_add [of 8 tmp2] l2 by (simp only: u(3)) (simp add: distrib_left)
  also have "\<dots> = num_of a * (num_of b + 2 ^ 256 * uint tb)" using r(3) by (simp add: tmp2_def algebra_simps)
  finally have p: "num_of (take (8 + 8) tmp3) + 2 ^ (32 * (8 + 8)) * uint t2 = num_of a * (num_of b + 2 ^ 256 * uint tb)" .
  from reduce_loop_value [OF assms(1), of 8 tmp3 t2] l3 obtain t3 tmp4 where d: "reduce_loop MOD 8 t2 tmp3 = Some (t3, tmp4)" "length tmp4 = 17"
    "num_of (take 8 tmp4) mod num_of MOD = num_of a * (num_of b + 2 ^ 256 * uint tb) mod num_of MOD" unfolding p by auto
  obtain msk c' where s: "subM MOD 0 tmp4 (- 1) = (msk, c')" by force
  have "num_of (take 8 tmp4) < 2 * num_of MOD" using wf_num_less [of "take 8 tmp4"] d(2) m(2) by simp
  from final_reduction [OF m(1) _ this s] d(2,3) obtain es where f: "snd (addM MOD 0 c' msk) = es @ drop 8 tmp4" "wf_int es"
    "num_of es = num_of a * (num_of b + 2 ^ 256 * uint tb) mod num_of MOD" by auto
  have "p256_modmul MOD a tb b = Some es"
    using r(1) u(1) d(1) s f(1,2) by (simp add: p256_modmul_def Let_def tmp2_def tmp3_def)
  then show ?thesis using f by blast
qed

section \<open>Sums, comparison, shifts\<close>

lemma p256_add_value:
  assumes "wf_int a" and "wf_int b"
  obtains cy c where "p256_add a b = (cy, c)" "wf_int c" "cy = 0 \<or> cy = 1" "num_of c + 2 ^ 256 * cy = num_of a + num_of b"
proof -
  obtain cy c where l: "carry_loop (drop_bit 32) 0 (map2 (\<lambda>x y. ucast x + ucast y) a b) = (cy, c)" by force
  have t: "length a = length b" using assms by simp
  from ca.carry_loop_value [OF l _ sum_of_add(2) [OF t]] sum_of_add(1) [OF t] assms
  have v: "wf_int c" "num_of c + 2 ^ 256 * uint cy = num_of a + num_of b" by simp_all
  have "uint cy < 2" using quotient_small [OF v(2)] wf_num_less [OF assms(1)] wf_num_less [OF assms(2)] wf_num_less [OF v(1)] by simp
  moreover have "0 \<le> uint cy" by simp
  ultimately have "uint cy = 0 \<or> uint cy = 1" by linarith
  then have "cy = 0 \<or> cy = 1" by (metis uint_0_eq uint_1_eq word_uint_eqI)
  then show ?thesis using l v by (intro that [of "uint cy" c]) (auto simp: p256_add_def)
qed

lemma p256_sub_value:
  assumes "wf_int a" and "wf_int b"
  obtains bw c where "p256_sub a b = (bw, c)" "wf_int c" "bw = 0 \<or> bw = - 1" "num_of c + 2 ^ 256 * bw = num_of a - num_of b"
proof -
  from sub_loop [OF assms(2), of a] assms(1) obtain bw c where
    "carry_loop (signed_drop_bit 32) 0 (map2 (\<lambda>y x. ucast y - ucast x) a b) = (bw, c)" "wf_int c" "bw = 0 \<or> bw = - 1"
    "num_of c + 2 ^ 256 * sint bw = num_of a - num_of b" by auto
  then show ?thesis by (intro that [of "sint bw" c]) (auto simp: p256_sub_def)
qed

lemma p256_sub_borrow:
  assumes "wf_int a" and "wf_int b"
  shows "fst (p256_sub a b) = 0 \<longleftrightarrow> num_of b \<le> num_of a"
proof -
  from p256_sub_value [OF assms] obtain bw c where "p256_sub a b = (bw, c)" "wf_int c" "bw = 0 \<or> bw = - 1" "num_of c + 2 ^ 256 * bw = num_of a - num_of b" .
  moreover have "num_of b \<le> num_of a \<longleftrightarrow> 0 \<le> num_of a - num_of b" by simp
  ultimately show ?thesis using wf_num_less [of c] by (auto simp del: diff_ge_0_iff_ge simp flip: \<open>num_of c + 2 ^ 256 * bw = num_of a - num_of b\<close>)
qed

lemma p256_add_d_value:
  assumes "wf_int a"
  obtains cy b where "p256_add_d a d = (cy, b)" "wf_int b" "cy = 0 \<or> cy = 1" "num_of b + 2 ^ 256 * cy = num_of a + uint d"
proof -
  obtain cy b where l: "carry_loop (drop_bit 32) (ucast d) (map ucast a) = (cy, b)" by force
  have s: "sum_of uint (map ucast a) = num_of a" by (induction a) (simp_all add: unsigned_ucast_eq bintr_uint)
  have f: "list_all (\<lambda>x :: ddigit. uint x \<le> 2 ^ 64 - 2 ^ 32) (map ucast a)"
    using uint_digit by (auto simp: list_all_iff unsigned_ucast_eq bintr_uint intro: order.trans [OF less_imp_le])
  have d: "uint (ucast d :: ddigit) = uint d" "uint d < 2 ^ 32" using uint_digit [of d] by (simp_all add: unsigned_ucast_eq bintr_uint)
  from ca.carry_loop_value [OF l _ f] d assms have v: "wf_int b" "num_of b + 2 ^ 256 * uint cy = num_of a + uint d" by (simp_all add: s)
  have "num_of a + uint d < 2 * 2 ^ 256" using wf_num_less [OF assms] d(2) by simp
  then have "uint cy < 2" using quotient_small [OF v(2)] wf_num_less [OF v(1)] by simp
  moreover have "0 \<le> uint cy" by simp
  ultimately have "uint cy = 0 \<or> uint cy = 1" by linarith
  then have "cy = 0 \<or> cy = 1" by (metis uint_0_eq uint_1_eq word_uint_eqI)
  then show ?thesis using l v by (intro that [of "uint cy" b]) (auto simp: p256_add_d_def)
qed

lemma foldl_or_zero: "foldl (OR) (x :: digit) xs = 0 \<longleftrightarrow> x = 0 \<and> (\<forall>y \<in> set xs. y = 0)"
  by (induction xs arbitrary: x) (auto simp: or_eq_0_iff)

lemma p256_is_zero_value: "p256_is_zero a \<longleftrightarrow> num_of a = 0"
proof -
  have "(\<forall>y \<in> set a. y = 0) \<longleftrightarrow> num_of a = 0"
    by (induction a) (auto simp: add_nonneg_eq_0_iff unsigned_eq_0_iff)
  then show ?thesis by (simp add: p256_is_zero_def foldl_or_zero)
qed

lemma even_digit: "(d :: digit) AND 1 = 0 \<longleftrightarrow> even (uint d)"
proof -
  have "even d \<longleftrightarrow> even (uint d)" using bit_0 [of d] bit_0 [of "uint d"] bit_uint_iff [of d 0] by simp
  then show ?thesis by (simp add: and_one_eq flip: even_iff_mod_2_eq_zero)
qed

lemma p256_is_even_value: "wf_int a \<Longrightarrow> p256_is_even a \<longleftrightarrow> even (num_of a)"
  by (cases a) (simp_all add: p256_is_even_def even_digit)

lemma cmp_loop_carry:
  "carry_loop (signed_drop_bit 32) c (map (\<lambda>(x, y). ucast x - ucast y) ps) = (c', ds) \<Longrightarrow>
     cmp_loop c nz ps = (c', if \<forall>d \<in> set ds. d = 0 then nz else nz OR 1)"
  by (induction ps arbitrary: c nz ds) (auto simp: Let_def or.assoc split: prod.splits)

lemma zero_digits: "(\<forall>d \<in> set ds. d = 0) \<longleftrightarrow> num_of ds = 0"
  using p256_is_zero_value [of ds] by (simp add: p256_is_zero_def foldl_or_zero)

lemma p256_cmp_value:
  assumes "wf_int a" and "wf_int b"
  shows "p256_cmp a b = sgn (num_of a - num_of b)"
proof -
  from sub_loop [OF assms(2), of a] assms(1) obtain bw c where
    l: "carry_loop (signed_drop_bit 32) 0 (map2 (\<lambda>y x. ucast y - ucast x) a b) = (bw, c)" "wf_int c" "bw = 0 \<or> bw = - 1"
    and v: "num_of c + 2 ^ 256 * sint bw = num_of a - num_of b" by auto
  have "cmp_loop 0 0 (zip a b) = (bw, if num_of c = 0 then 0 else 1)" using cmp_loop_carry [OF l(1), of 0] by (simp add: zero_digits)
  moreover have "- 1 OR (1 :: digit) = - 1" by simp
  ultimately show ?thesis
    using l(3) wf_num_less [OF l(2)] num_of_nonneg [of c] unfolding p256_cmp_def v [symmetric]
    by (auto simp: sgn_if less_le)
qed

lemma digit_join:
  assumes "0 < n" and "n < 32"
  shows "uint (push_bit n (d :: digit) OR drop_bit (32 - n) (e :: digit)) = uint d * 2 ^ n mod 2 ^ 32 + uint e div 2 ^ (32 - n)"
proof -
  have z: "uint (push_bit n d) AND uint (drop_bit (32 - n) e) = 0"
    using assms by (auto simp: bit_eq_iff bit_and_iff bit_uint_iff bit_push_bit_iff bit_drop_bit_eq dest: bit_imp_le_length)
  have "uint (push_bit n d OR drop_bit (32 - n) e) = uint (push_bit n d) + uint (drop_bit (32 - n) e)"
    by (simp only: unsigned_or_eq disjunctive_add_eq_or [OF z])
  moreover have "uint (push_bit n d) = uint d * 2 ^ n mod 2 ^ 32"
    by (simp only: unsigned_push_bit_eq) (simp add: push_bit_eq_mult take_bit_eq_mod)
  moreover have "uint (drop_bit (32 - n) e) = uint e div 2 ^ (32 - n)"
    by (subst unsigned_drop_bit_eq) (simp add: drop_bit_eq_div bintr_uint)
  ultimately show ?thesis by simp
qed

lemma shl_loop_value:
  assumes "0 < n" and "n < 32"
  shows "num_of (shl_loop n lo ds) + 2 ^ (32 * length ds) * (uint (last (lo # ds)) div 2 ^ (32 - n)) = 2 ^ n * num_of ds + uint lo div 2 ^ (32 - n)"
proof (induction ds arbitrary: lo)
  case (Cons d ds)
  have p: "(2 :: int) ^ 32 = 2 ^ n * 2 ^ (32 - n)" using assms by (simp flip: power_add)
  have "uint d * 2 ^ n div 2 ^ 32 = uint d div 2 ^ (32 - n)" unfolding p by (simp add: mult.commute [of _ "2 ^ n"])
  then have s: "uint d * 2 ^ n = uint d * 2 ^ n mod 2 ^ 32 + 2 ^ 32 * (uint d div 2 ^ (32 - n))" by (metis mod_mult_div_eq)
  have "num_of (shl_loop n lo (d # ds)) + 2 ^ (32 * length (d # ds)) * (uint (last (lo # d # ds)) div 2 ^ (32 - n))
    = uint d * 2 ^ n mod 2 ^ 32 + uint lo div 2 ^ (32 - n) + 2 ^ 32 * (num_of (shl_loop n d ds) + 2 ^ (32 * length ds) * (uint (last (d # ds)) div 2 ^ (32 - n)))"
    by (simp add: digit_join [OF assms] power_add algebra_simps)
  also have "\<dots> = uint d * 2 ^ n mod 2 ^ 32 + 2 ^ 32 * (uint d div 2 ^ (32 - n)) + uint lo div 2 ^ (32 - n) + 2 ^ 32 * (2 ^ n * num_of ds)"
    unfolding Cons.IH by (simp add: algebra_simps)
  also have "\<dots> = 2 ^ n * num_of (d # ds) + uint lo div 2 ^ (32 - n)" unfolding s [symmetric] by (simp add: algebra_simps)
  finally show ?case .
qed simp

lemma shr_loop_value:
  assumes "0 < n" and "n < 32" and "uint hi < 2 ^ n"
  shows "num_of (shr_loop n hi ds) = (num_of ds + 2 ^ (32 * length ds) * uint hi) div 2 ^ n"
proof (induction ds)
  case Nil
  then show ?case using assms(3) by simp
next
  case (Cons d ds)
  define X where "X = num_of ds + 2 ^ (32 * length ds) * uint hi"
  let ?e = "case ds of [] \<Rightarrow> hi | e # _ \<Rightarrow> e"
  have p: "(2 :: int) ^ 32 = 2 ^ (32 - n) * 2 ^ n" using assms by (simp flip: power_add)
  have "X mod 2 ^ n = uint ?e mod 2 ^ n"
  proof (cases ds)
    case (Cons e es)
    have "X = uint e + 2 ^ n * (2 ^ (32 - n) * (num_of es + 2 ^ (32 * length es) * uint hi))"
      unfolding X_def Cons using p by (simp add: power_add algebra_simps)
    then show ?thesis using Cons by (simp only: mod_mult_self2) simp
  qed (simp add: X_def)
  then have "uint ?e * 2 ^ (32 - n) mod 2 ^ 32 = 2 ^ (32 - n) * (X mod 2 ^ n)" unfolding p by (simp add: mult.commute mod_mult_mult1)
  moreover have "uint (push_bit (32 - n) ?e OR drop_bit n d) = uint ?e * 2 ^ (32 - n) mod 2 ^ 32 + uint d div 2 ^ n"
    using digit_join [of "32 - n" ?e d] assms by simp
  moreover have "2 ^ (32 - n) * (X mod 2 ^ n) + 2 ^ 32 * (X div 2 ^ n) = 2 ^ (32 - n) * X"
    by (simp only: p mult.assoc distrib_left [symmetric] mod_mult_div_eq)
  ultimately have "num_of (shr_loop n hi (d # ds)) = uint d div 2 ^ n + 2 ^ (32 - n) * X"
    unfolding shr_loop.simps num_of.simps Cons.IH X_def [symmetric] by (simp add: or.commute)
  also have "\<dots> = (uint d + 2 ^ 32 * X) div 2 ^ n" unfolding p by (simp add: mult.assoc mult.left_commute [of "2 ^ (32 - n)"])
  finally show ?case by (simp add: X_def power_add algebra_simps)
qed

lemma shr_loop_length [simp]: "length (shr_loop n hi ds) = length ds"
  by (induction ds) simp_all

lemma p256_shr1_value:
  assumes "wf_int a" and "hb = 0 \<or> hb = 1"
  shows "wf_int (p256_shr1 a hb)" and "num_of (p256_shr1 a hb) = (num_of a + 2 ^ 256 * uint hb) div 2"
  using assms shr_loop_value [of 1 hb a] by (auto simp: p256_shr1_def)

section \<open>The inverse by the binary algorithm\<close>

lemma half_mod_value:
  assumes "wf_int MOD" and "wf_int R" and "num_of R < num_of MOD" and "odd (num_of MOD)"
  shows "wf_int (half_mod MOD R)" and "num_of (half_mod MOD R) < num_of MOD"
    and "2 * num_of (half_mod MOD R) = num_of R + (if even (num_of R) then 0 else num_of MOD)"
proof -
  let ?e = "even (num_of R)"
  have "wf_int (half_mod MOD R) \<and> num_of (half_mod MOD R) = (num_of R + (if ?e then 0 else num_of MOD)) div 2"
  proof (cases ?e)
    case True
    then show ?thesis using assms(2) p256_shr1_value [of R 0] by (simp add: half_mod_def p256_is_even_value)
  next
    case False
    from p256_add_value [OF assms(2,1)] obtain cy c where a: "p256_add R MOD = (cy, c)" "wf_int c" "cy = 0 \<or> cy = 1"
      "num_of c + 2 ^ 256 * cy = num_of R + num_of MOD" .
    then have "uint (of_int cy :: digit) = cy" "(of_int cy :: digit) = 0 \<or> (of_int cy :: digit) = 1" by auto
    then show ?thesis using False assms(2) a p256_shr1_value [of c "of_int cy"] by (simp add: half_mod_def p256_is_even_value)
  qed
  moreover have "even (num_of R + (if ?e then 0 else num_of MOD))" using assms(4) by simp
  ultimately show "wf_int (half_mod MOD R)" and d: "2 * num_of (half_mod MOD R) = num_of R + (if ?e then 0 else num_of MOD)" by auto
  have "(if ?e then 0 else num_of MOD) \<le> num_of MOD" by simp
  with d assms(3) show "num_of (half_mod MOD R) < num_of MOD" by linarith
qed

lemma sub_mod_value:
  assumes "wf_int MOD" and "wf_int S" and "wf_int R" and "num_of R \<le> num_of MOD"
  shows "wf_int (sub_mod MOD S R)"
    and "num_of (sub_mod MOD S R) = num_of S - num_of R + (if num_of R \<le> num_of S then 0 else num_of MOD)"
proof -
  from p256_sub_value [OF assms(2,3)] obtain bw c where s: "p256_sub S R = (bw, c)" "wf_int c" "bw = 0 \<or> bw = - 1"
    "num_of c + 2 ^ 256 * bw = num_of S - num_of R" .
  have z: "bw = 0 \<longleftrightarrow> num_of R \<le> num_of S" using p256_sub_borrow [OF assms(2,3)] s(1) by simp
  from p256_add_value [OF s(2) assms(1)] obtain cy d where a: "p256_add c MOD = (cy, d)" "wf_int d" "cy = 0 \<or> cy = 1"
    "num_of d + 2 ^ 256 * cy = num_of c + num_of MOD" .
  have "num_of d = num_of S - num_of R + num_of MOD" if "bw \<noteq> 0"
  proof -
    have "num_of d + 2 ^ 256 * (cy - 1) = num_of S - num_of R + num_of MOD" using that s(3,4) a(4) by (auto simp: algebra_simps)
    moreover have "num_of S < num_of R" using z that by simp
    moreover have "num_of MOD < 2 ^ 256" "num_of d < 2 ^ 256" using wf_num_less assms(1) a(2) by auto
    moreover have "2 ^ 256 * (cy - 1) = - (2 ^ 256)" if "cy = 0" using that by simp
    ultimately have "\<not> cy = 0" using assms(4) num_of_nonneg [of S] by linarith
    then have "cy = 1" using a(3) by simp
    then show ?thesis using \<open>num_of d + 2 ^ 256 * (cy - 1) = num_of S - num_of R + num_of MOD\<close> by simp
  qed
  then show "wf_int (sub_mod MOD S R)" "num_of (sub_mod MOD S R) = num_of S - num_of R + (if num_of R \<le> num_of S then 0 else num_of MOD)"
    using s a z by (auto simp: sub_mod_def)
qed

text \<open>What the loop keeps: the coefficients are reduced, the numbers are positive and each is a multiple of the argument modulo the modulus.\<close>

definition vartime_inv :: "p256_int \<Rightarrow> int \<Rightarrow> p256_int \<Rightarrow> p256_int \<Rightarrow> p256_int \<Rightarrow> p256_int \<Rightarrow> bool" where
  "vartime_inv MOD x R S U V \<longleftrightarrow>
     wf_int R \<and> wf_int S \<and> wf_int U \<and> wf_int V \<and> num_of R < num_of MOD \<and> num_of S < num_of MOD \<and> 0 < num_of U \<and> 0 < num_of V
     \<and> num_of MOD dvd num_of R * x - num_of U \<and> num_of MOD dvd num_of S * x - num_of V"

lemma half_dvd:
  fixes m x r u h :: int
  assumes "odd m" and "m dvd r * x - u" and "even u" and "2 * h = r + (if even r then 0 else m)"
  shows "m dvd h * x - u div 2"
proof -
  have "2 * (h * x - u div 2) = r * x - u + (if even r then 0 else m) * x"
    using assms(3,4) by (simp add: right_diff_distrib flip: mult.assoc distrib_right)
  then have "m dvd 2 * (h * x - u div 2)" using assms(2) by (simp add: dvd_add)
  then show ?thesis by (rule coprime_dvd_mult_right_iff [THEN iffD1, rotated]) (simp add: assms(1))
qed

lemma vartime_inv_halve:
  assumes "wf_int MOD" and "odd (num_of MOD)" and "vartime_inv MOD x R S U V" and "even (num_of U)"
  shows "vartime_inv MOD x (half_mod MOD R) S (p256_shr1 U 0) V" and "num_of (p256_shr1 U 0) < num_of U" and "2 * num_of (p256_shr1 U 0) = num_of U"
proof -
  from assms(3) have w: "wf_int R" "num_of R < num_of MOD" "wf_int U" "0 < num_of U" "num_of MOD dvd num_of R * x - num_of U" by (auto simp: vartime_inv_def)
  note h = half_mod_value [OF assms(1) w(1,2) assms(2)]
  have u: "wf_int (p256_shr1 U 0)" "num_of (p256_shr1 U 0) = num_of U div 2" using p256_shr1_value [OF w(3), of 0] by simp_all
  show "2 * num_of (p256_shr1 U 0) = num_of U" using u(2) assms(4) by simp
  then show "num_of (p256_shr1 U 0) < num_of U" using w(4) by simp
  have "0 < num_of U div 2" using w(4) assms(4) by auto
  then show "vartime_inv MOD x (half_mod MOD R) S (p256_shr1 U 0) V"
    using assms(3) h u half_dvd [OF assms(2) w(5) assms(4) h(3)] by (simp add: vartime_inv_def)
qed

lemma vartime_inv_swap: "vartime_inv MOD x R S U V \<Longrightarrow> vartime_inv MOD x S R V U"
  by (auto simp: vartime_inv_def)

lemma vartime_inv_sub:
  assumes "wf_int MOD" and "vartime_inv MOD x R S U V" and "num_of U < num_of V"
  shows "vartime_inv MOD x R (sub_mod MOD S R) U (snd (p256_sub V U))" and "num_of (snd (p256_sub V U)) = num_of V - num_of U"
proof -
  from assms(2) have w: "wf_int R" "wf_int S" "num_of R < num_of MOD" "num_of S < num_of MOD" "wf_int U" "wf_int V"
    and d: "num_of MOD dvd num_of R * x - num_of U" "num_of MOD dvd num_of S * x - num_of V" by (auto simp: vartime_inv_def)
  have s: "wf_int (sub_mod MOD S R)" "num_of (sub_mod MOD S R) = num_of S - num_of R + (if num_of R \<le> num_of S then 0 else num_of MOD)"
    using sub_mod_value [OF assms(1) w(2,1)] w(3) by simp_all
  from p256_sub_value [OF w(6,5)] obtain bw c where v: "p256_sub V U = (bw, c)" "wf_int c" "num_of c + 2 ^ 256 * bw = num_of V - num_of U" .
  moreover have "bw = 0" using p256_sub_borrow [OF w(6,5)] v(1) assms(3) by simp
  ultimately show c: "num_of (snd (p256_sub V U)) = num_of V - num_of U" by simp
  have "num_of (sub_mod MOD S R) * x - (num_of V - num_of U) = (num_of S * x - num_of V) - (num_of R * x - num_of U)
      + num_of MOD * (if num_of R \<le> num_of S then 0 else x)"
    unfolding s(2) by (simp add: algebra_simps)
  then have "num_of MOD dvd num_of (sub_mod MOD S R) * x - (num_of V - num_of U)" by (simp only: dvd_add dvd_diff d dvd_triv_left)
  moreover have "num_of (sub_mod MOD S R) < num_of MOD"
    unfolding s(2) using w(4) by (auto intro!: le_less_trans [of "num_of S - num_of R" "num_of S"])
  ultimately show "vartime_inv MOD x R (sub_mod MOD S R) U (snd (p256_sub V U))"
    using assms(2,3) s(1) w v(1,2) c by (simp add: vartime_inv_def)
qed

text \<open>The loop ends, and if the two numbers have no common divisor, with the inverse of the argument.\<close>

lemma vartime_loop_returns:
  assumes "wf_int MOD" and "odd (num_of MOD)" and "vartime_inv MOD x R S U V" and "odd (num_of U) \<or> odd (num_of V)"
  shows "\<exists>R'. vartime_loop MOD R S U V = Some R' \<and> wf_int R' \<and> num_of R' < num_of MOD
    \<and> (coprime (num_of U) (num_of V) \<longrightarrow> num_of MOD dvd num_of R' * x - 1)"
  using assms(3,4)
proof (induction "nat (num_of U + num_of V)" arbitrary: R S U V rule: less_induct)
  case less
  from less.prems have w: "wf_int R" "wf_int S" "wf_int U" "wf_int V" "0 < num_of U" "0 < num_of V" "num_of R < num_of MOD"
    "num_of MOD dvd num_of R * x - num_of U" by (auto simp: vartime_inv_def)
  note ev = p256_is_even_value
  consider (U) "even (num_of U)" | (V) "odd (num_of U)" "even (num_of V)" | (eq) "odd (num_of U)" "odd (num_of V)" "num_of U = num_of V"
    | (lt) "odd (num_of U)" "odd (num_of V)" "num_of U < num_of V" | (gt) "odd (num_of U)" "odd (num_of V)" "num_of V < num_of U" by linarith
  then show ?case
  proof cases
    case U
    note h = vartime_inv_halve [OF assms(1,2) less.prems(1) U]
    have "nat (num_of (p256_shr1 U 0) + num_of V) < nat (num_of U + num_of V)" using h(2) w(5,6) by simp
    from less.hyps [OF this h(1)] less.prems(2) U obtain R' where "vartime_loop MOD (half_mod MOD R) S (p256_shr1 U 0) V = Some R'" "wf_int R'"
      "num_of R' < num_of MOD" "coprime (num_of (p256_shr1 U 0)) (num_of V) \<longrightarrow> num_of MOD dvd num_of R' * x - 1" by auto
    moreover have "coprime (num_of U) (num_of V) \<Longrightarrow> coprime (num_of (p256_shr1 U 0)) (num_of V)" unfolding h(3) [symmetric] by simp
    ultimately show ?thesis using U w(3) by (subst vartime_loop.simps) (auto simp: ev)
  next
    case V
    note h = vartime_inv_halve [OF assms(1,2) vartime_inv_swap [OF less.prems(1)] V(2)]
    have "nat (num_of U + num_of (p256_shr1 V 0)) < nat (num_of U + num_of V)" using h(2) w(5,6) by simp
    from less.hyps [OF this vartime_inv_swap [OF h(1)]] V obtain R' where "vartime_loop MOD R (half_mod MOD S) U (p256_shr1 V 0) = Some R'" "wf_int R'"
      "num_of R' < num_of MOD" "coprime (num_of U) (num_of (p256_shr1 V 0)) \<longrightarrow> num_of MOD dvd num_of R' * x - 1" by auto
    moreover have "coprime (num_of U) (num_of V) \<Longrightarrow> coprime (num_of U) (num_of (p256_shr1 V 0))" unfolding h(3) [symmetric] by simp
    ultimately show ?thesis using V w(3,4) by (subst vartime_loop.simps) (auto simp: ev)
  next
    case eq
    from p256_sub_value [OF w(4,3)] obtain bw c where "p256_sub V U = (bw, c)" "num_of c + 2 ^ 256 * bw = num_of V - num_of U" .
    then have s: "fst (p256_sub V U) = 0" "num_of (snd (p256_sub V U)) = 0" using p256_sub_borrow [OF w(4,3)] eq(3) by simp_all
    have "num_of U = 1" if "coprime (num_of U) (num_of V)" using that eq(3) w(5) by simp
    then show ?thesis using eq w s by (subst vartime_loop.simps) (auto simp: ev p256_is_zero_value)
  next
    case lt
    note h = vartime_inv_sub [OF assms(1) less.prems(1) lt(3)]
    have s: "fst (p256_sub V U) = 0" using p256_sub_borrow [OF w(4,3)] lt(3) by simp
    have "nat (num_of U + num_of (snd (p256_sub V U))) < nat (num_of U + num_of V)" using h(2) w(5,6) lt(3) by simp
    from less.hyps [OF this h(1)] lt(1) obtain R' where "vartime_loop MOD R (sub_mod MOD S R) U (snd (p256_sub V U)) = Some R'" "wf_int R'"
      "num_of R' < num_of MOD" "coprime (num_of U) (num_of (snd (p256_sub V U))) \<longrightarrow> num_of MOD dvd num_of R' * x - 1" by auto
    moreover have "coprime (num_of U) (num_of V) \<Longrightarrow> coprime (num_of U) (num_of (snd (p256_sub V U)))"
      unfolding h(2) by (metis coprime_iff_gcd_eq_1 gcd.commute gcd_diff1)
    moreover have "num_of (snd (p256_sub V U)) \<noteq> 0" using h(2) lt(3) by simp
    ultimately show ?thesis using lt w s by (subst vartime_loop.simps) (auto simp: ev p256_is_zero_value)
  next
    case gt
    note h = vartime_inv_sub [OF assms(1) vartime_inv_swap [OF less.prems(1)] gt(3)]
    have s: "fst (p256_sub V U) \<noteq> 0" using p256_sub_borrow [OF w(4,3)] gt(3) by simp
    have "nat (num_of (snd (p256_sub U V)) + num_of V) < nat (num_of U + num_of V)" using h(2) w(5,6) gt(3) by simp
    from less.hyps [OF this vartime_inv_swap [OF h(1)]] gt(2) obtain R' where "vartime_loop MOD (sub_mod MOD R S) S (snd (p256_sub U V)) V = Some R'" "wf_int R'"
      "num_of R' < num_of MOD" "coprime (num_of (snd (p256_sub U V))) (num_of V) \<longrightarrow> num_of MOD dvd num_of R' * x - 1" by auto
    moreover have "coprime (num_of U) (num_of V) \<Longrightarrow> coprime (num_of (snd (p256_sub U V))) (num_of V)"
      unfolding h(2) by (metis coprime_iff_gcd_eq_1 gcd_diff1)
    ultimately show ?thesis using gt w s by (subst vartime_loop.simps) (auto simp: ev)
  qed
qed

lemma full_modulus_n: "full_modulus SECP256r1_n" "odd (num_of SECP256r1_n)"
  and full_modulus_p: "full_modulus SECP256r1_p" "odd (num_of SECP256r1_p)"
  by (simp_all add: full_modulus_def SECP256r1_n_def SECP256r1_p_def unsigned_minus_1_eq_mask mask_eq_exp_minus_1)

lemma initial_values [simp]: "wf_int P256_ZERO" "num_of P256_ZERO = 0" "wf_int p256_one" "num_of p256_one = 1"
  by (simp_all add: P256_ZERO_def p256_one_def)

lemma vartime_inv_init:
  assumes "full_modulus MOD" and "wf_int a" and "num_of a \<noteq> 0"
  shows "vartime_inv MOD (num_of a) P256_ZERO p256_one MOD a"
proof -
  have "0 < num_of a" using assms(3) num_of_nonneg [of a] by linarith
  then show ?thesis using full_modulus_bounds [OF assms(1)] assms(2) by (simp add: vartime_inv_def)
qed

text \<open>With the argument 0 the loop halves 0 for ever.\<close>

lemma vartime_loop_zero:
  assumes "vartime_loop MOD R S U V = Some y" and "wf_int U" and "wf_int V" and "odd (num_of U)"
  shows "num_of V \<noteq> 0"
proof -
  have "wf_int U \<longrightarrow> wf_int V \<longrightarrow> odd (num_of U) \<longrightarrow> num_of V \<noteq> 0"
    using assms(1)
  proof (induction rule: vartime_loop.raw_induct [rotated, consumes 1])
    case (1 loop MOD R S U V y)
    show ?case
    proof (intro impI notI)
      assume h: "wf_int U" "wf_int V" "odd (num_of U)" "num_of V = 0"
      with 1(2) have "loop MOD R (half_mod MOD S) U (p256_shr1 V 0) = Some y" by (simp add: p256_is_even_value)
      from 1(1) [OF this] h show False using p256_shr1_value [OF h(2), of 0] by simp
    qed
  qed
  with assms(2-4) show ?thesis by blast
qed

lemma vartime_returns:
  assumes "full_modulus MOD" and "odd (num_of MOD)" and "wf_int a"
  shows "(\<exists>b. p256_modinv_vartime MOD a = Some b) \<longleftrightarrow> num_of a \<noteq> 0"
  using vartime_loop_returns [OF full_modulus_bounds(1) [OF assms(1)] assms(2) vartime_inv_init [OF assms(1,3)]]
    vartime_loop_zero [OF _ full_modulus_bounds(1) [OF assms(1)] assms(3,2)] assms(2)
  by (auto simp: p256_modinv_vartime_def)

lemma vartime_inverse:
  assumes "full_modulus MOD" and "odd (num_of MOD)" and "wf_int a" and "coprime (num_of a) (num_of MOD)"
  shows "\<exists>b. p256_modinv_vartime MOD a = Some b \<and> wf_int b \<and> num_of b < num_of MOD \<and> num_of b * num_of a mod num_of MOD = 1"
proof -
  note m = full_modulus_bounds [OF assms(1)]
  have "num_of a \<noteq> 0" using assms(4) m(2) by auto
  from vartime_loop_returns [OF m(1) assms(2) vartime_inv_init [OF assms(1,3) this]] assms(2,4) obtain R where
    r: "vartime_loop MOD P256_ZERO p256_one MOD a = Some R" "wf_int R" "num_of R < num_of MOD" "num_of MOD dvd num_of R * num_of a - 1"
    by (auto simp: coprime_commute)
  have "num_of (p256_mod MOD R) = num_of R" "wf_int (p256_mod MOD R)" using p256_mod_value [OF m(1) r(2)] m(2) r(3) by simp_all
  moreover have "num_of R * num_of a mod num_of MOD = 1 mod num_of MOD" using r(4) by (simp add: mod_eq_dvd_iff)
  ultimately show ?thesis using r m(2) by (simp add: p256_modinv_vartime_def)
qed

section \<open>The inverse by a power\<close>

lemma p256_get_bit_value:
  assumes "wf_int a" and "i < 256"
  shows "uint (p256_get_bit a i) = num_of a div 2 ^ i mod 2"
proof -
  let ?q = "i div 32" and ?r = "i mod 32"
  have q: "?q < length a" using assms by simp
  obtain rest where d: "drop ?q a = a ! ?q # rest" using Cons_nth_drop_Suc [OF q] by metis
  have "num_of a = num_of (take ?q a) + 2 ^ (32 * ?q) * num_of (drop ?q a)" using num_of_append [of "take ?q a" "drop ?q a"] q by simp
  moreover have "num_of (take ?q a) < 2 ^ (32 * ?q)" using num_of_less [of "take ?q a"] q by simp
  ultimately have h: "num_of a div 2 ^ (32 * ?q) = num_of (drop ?q a)" by (simp add: div_add1_eq)
  have "(2 :: int) ^ i = 2 ^ (32 * ?q) * 2 ^ ?r" by (simp flip: power_add)
  then have "num_of a div 2 ^ i = num_of (drop ?q a) div 2 ^ ?r" by (simp add: h zdiv_zmult2_eq)
  also have "\<dots> = (uint (a ! ?q) + 2 ^ ?r * (2 * (2 ^ (31 - ?r) * num_of rest))) div 2 ^ ?r"
  proof -
    have "(2 :: int) ^ 32 = 2 ^ ?r * 2 * 2 ^ (31 - ?r)" by (simp flip: power_add power_Suc)
    then show ?thesis unfolding d num_of.simps by (simp only: mult.assoc)
  qed
  finally have "num_of a div 2 ^ i mod 2 = uint (a ! ?q) div 2 ^ ?r mod 2" by simp
  moreover have "uint (drop_bit ?r (a ! ?q)) = uint (a ! ?q) div 2 ^ ?r"
    by (subst unsigned_drop_bit_eq) (simp add: drop_bit_eq_div bintr_uint)
  ultimately show ?thesis unfolding p256_get_bit_def unsigned_and_eq by (simp add: and_one_eq)
qed

lemma mod_16_bits: "x mod 16 = 8 * (x div 2 ^ 3 mod 2) + 4 * (x div 2 ^ 2 mod 2) + 2 * (x div 2 ^ 1 mod 2) + x div 2 ^ 0 mod 2" for x :: int
proof -
  have e: "x mod 2 ^ Suc k = 2 ^ k * (x div 2 ^ k mod 2) + x mod 2 ^ k" for k :: nat
    using zmod_zmult2_eq [of 2 x "2 ^ k"] by (simp only: power_Suc2)
  have "x mod 2 ^ Suc (Suc (Suc (Suc 0))) = 2 ^ 3 * (x div 2 ^ 3 mod 2) + (2 ^ 2 * (x div 2 ^ 2 mod 2) + (2 ^ 1 * (x div 2 ^ 1 mod 2) + (2 ^ 0 * (x div 2 ^ 0 mod 2) + x mod 2 ^ 0)))"
    unfolding e by (simp only: numeral_eq_Suc pred_numeral_simps eval_nat_numeral One_nat_def BitM.simps)
  moreover have "x mod 2 ^ 0 = 0" "(2 :: int) ^ Suc (Suc (Suc (Suc 0))) = 16" "(2 :: int) ^ 3 = 8" "(2 :: int) ^ 2 = 4" by simp_all
  ultimately show ?thesis by (simp only: power_one_right power_0 mult_1 add_0_right add.assoc)
qed
lemma window_index_value:
  assumes "w < 64"
  shows "uint (window_index (4 * Suc w)) = num_of SECP256r1_nMin2 div 16 ^ w mod 16"
proof -
  let ?E = "num_of SECP256r1_nMin2" and ?g = "p256_get_bit SECP256r1_nMin2"
  define X where "X = ?E div 16 ^ w"
  have n: "wf_int SECP256r1_nMin2" by (simp add: SECP256r1_nMin2_def)
  have b: "uint (?g (4 * w + k)) = X div 2 ^ k mod 2" if "k < 4" for k
    using p256_get_bit_value [OF n, of "4 * w + k"] assms that by (simp add: X_def zdiv_zmult2_eq power_add power_mult)
  have o: "uint (push_bit 3 b3 OR push_bit 2 b2 OR push_bit 1 b1 OR push_bit 0 b0) = 8 * uint b3 + 4 * uint b2 + 2 * uint b1 + uint b0"
    if "b3 = 0 \<or> b3 = 1" "b2 = 0 \<or> b2 = 1" "b1 = 0 \<or> b1 = 1" "b0 = 0 \<or> b0 = 1" for b0 b1 b2 b3 :: digit
    using that by (elim disjE) simp_all
  have bit: "?g j = 0 \<or> ?g j = 1" for j by (auto simp: p256_get_bit_def and_one_eq mod_2_eq_odd)
  have i: "4 * Suc w - 1 = 4 * w + 3" "4 * Suc w - 2 = 4 * w + 2" "4 * Suc w - 3 = 4 * w + 1" "4 * Suc w - 4 = 4 * w + 0" by simp_all
  have "uint (window_index (4 * Suc w)) = 8 * (X div 2 ^ 3 mod 2) + 4 * (X div 2 ^ 2 mod 2) + 2 * (X div 2 ^ 1 mod 2) + X div 2 ^ 0 mod 2"
    unfolding window_index_def i o [OF bit bit bit bit] by (subst (1 2 3 4) b) simp_all
  also have "\<dots> = X mod 16" by (simp only: mod_16_bits)
  finally show ?thesis unfolding X_def .
qed

lemma copyConditional_value:
  assumes "length src = length dst"
  shows "copyConditional src dst (- 1) = src" and "copyConditional src dst 0 = dst"
  using assms by (induction src dst rule: list_induct2) (simp_all add: copyConditional_def)

lemma ZEROtoONES_diff: "i < 16 \<Longrightarrow> j < 16 \<Longrightarrow> ZEROtoONES (of_nat i - of_nat j) = (if i = j then - 1 else 0)"
proof -
  have "\<forall>i \<in> set [0..<16]. \<forall>j \<in> set [0..<16]. ZEROtoONES (of_nat i - of_nat j) = (if i = j then - 1 else 0)" by code_simp
  then show "i < 16 \<Longrightarrow> j < 16 \<Longrightarrow> ZEROtoONES (of_nat i - of_nat j) = (if i = j then - 1 else 0)" by simp
qed

lemma set0ToIdx_loop:
  assumes "k \<le> 16" and "1 \<le> k" and "j < 16" and "length tbl = 16" and "\<forall>i < 16. wf_int (tbl ! i)"
  shows "foldl (\<lambda>t i. t[0 := copyConditional (t ! i) (t ! 0) (ZEROtoONES (of_nat i - of_nat j))]) (tbl[0 := p256_one]) [1..<k]
    = tbl[0 := if 1 \<le> j \<and> j < k then tbl ! j else p256_one]"
  using assms(1,2)
proof (induction k)
  case (Suc k)
  show ?case
  proof (cases "k = 0")
    case True
    then show ?thesis by auto
  next
    case False
    have w: "wf_int (if 1 \<le> j \<and> j < k then tbl ! j else p256_one)" "wf_int (tbl ! k)" using assms Suc.prems by auto
    have "ZEROtoONES (of_nat k - of_nat j) = (if k = j then - 1 else 0)" using Suc.prems assms(3) by (intro ZEROtoONES_diff) auto
    then show ?thesis using Suc False assms(4) w by (auto simp: copyConditional_value)
  qed
qed simp

lemma set0ToIdx_value:
  assumes "j < 16" and "length tbl = 16" and "\<forall>i < 16. wf_int (tbl ! i)"
  shows "set0ToIdx tbl (of_nat j) = tbl[0 := if 1 \<le> j then tbl ! j else p256_one]"
  using set0ToIdx_loop [of 16, OF _ _ assms] assms(1) by (simp add: set0ToIdx_def)

text \<open>The table of powers, as far as it is filled.\<close>

definition powers_in :: "p256_int \<Rightarrow> int \<Rightarrow> nat \<Rightarrow> p256_int list \<Rightarrow> bool" where
  "powers_in MOD x n tbl \<longleftrightarrow> length tbl = 16 \<and> (\<forall>i < 16. wf_int (tbl ! i)) \<and> (\<forall>i. 1 \<le> i \<and> i < n \<longrightarrow> num_of (tbl ! i) mod num_of MOD = x ^ i mod num_of MOD)"

lemma power_table_value:
  assumes "full_modulus MOD" and "wf_int a" and "2 \<le> k" and "k \<le> 16" and "powers_in MOD (num_of a) k tbl"
  shows "\<exists>t. power_table MOD a [k..<16] tbl = Some t \<and> powers_in MOD (num_of a) 16 t"
  using assms(3-5)
proof (induction "16 - k" arbitrary: k tbl)
  case 0
  then show ?case by simp
next
  case (Suc m)
  then have k: "k < 16" "[k..<16] = k # [Suc k..<16]" by (simp_all add: upt_conv_Cons)
  have "wf_int (tbl ! (k - 1))" using Suc.prems k by (simp add: powers_in_def)
  from p256_modmul_value [OF assms(1) this assms(2), of 0] obtain c where c: "p256_modmul MOD (tbl ! (k - 1)) 0 a = Some c" "wf_int c"
    "num_of c = num_of (tbl ! (k - 1)) * num_of a mod num_of MOD" by auto
  have "num_of (tbl ! (k - 1)) mod num_of MOD = num_of a ^ (k - 1) mod num_of MOD" using Suc.prems by (simp add: powers_in_def)
  then have "num_of c mod num_of MOD = num_of a ^ (k - 1) * num_of a mod num_of MOD" using c(3) by (metis mod_mod_trivial mod_mult_left_eq)
  also have "num_of a ^ (k - 1) * num_of a = num_of a ^ k" using Suc.prems(1) by (simp flip: power_Suc2)
  finally have "powers_in MOD (num_of a) (Suc k) (tbl[k := c])"
    using Suc.prems(3) c(2) k(1) by (auto simp: powers_in_def nth_list_update less_Suc_eq)
  then show ?case using Suc.hyps(1) [of "Suc k" "tbl[k := c]"] Suc.hyps(2) Suc.prems k c(1) by auto
qed

lemma square_value:
  assumes "full_modulus MOD" and "wf_int b" and "num_of b mod num_of MOD = x ^ e mod num_of MOD"
  shows "\<exists>c. p256_modmul MOD b 0 b = Some c \<and> wf_int c \<and> num_of c mod num_of MOD = x ^ (2 * e) mod num_of MOD \<and> num_of c < num_of MOD"
proof -
  from p256_modmul_value [OF assms(1,2,2), of 0] obtain c where c: "p256_modmul MOD b 0 b = Some c" "wf_int c" "num_of c = num_of b * num_of b mod num_of MOD" by auto
  have "num_of b * num_of b mod num_of MOD = x ^ e * x ^ e mod num_of MOD" using assms(3) by (rule mod_mult_cong) (rule assms(3))
  moreover have "0 < num_of MOD" using full_modulus_bounds(2) [OF assms(1)] by simp
  ultimately show ?thesis using c by (simp add: power_add mult_2)
qed

lemma modinv_loop_value:
  assumes "full_modulus MOD" and "w \<le> 64" and "powers_in MOD x 16 tbl" and "wf_int b"
    and "num_of b mod num_of MOD = x ^ nat (num_of SECP256r1_nMin2 div 16 ^ w) mod num_of MOD"
  shows "\<exists>c. modinv_loop MOD w tbl b = Some c \<and> wf_int c \<and> num_of c mod num_of MOD = x ^ nat (num_of SECP256r1_nMin2) mod num_of MOD
    \<and> (0 < w \<or> num_of b < num_of MOD \<longrightarrow> num_of c < num_of MOD)"
  using assms(2-)
proof (induction w arbitrary: tbl b)
  case 0
  then show ?case by simp
next
  case (Suc w)
  let ?M = "num_of MOD" and ?E = "num_of SECP256r1_nMin2"
  define e where "e = nat (?E div 16 ^ Suc w)"
  define j where "j = nat (?E div 16 ^ w mod 16)"
  have ij: "int j = ?E div 16 ^ w mod 16" by (simp add: j_def)
  then have "int j = uint (window_index (4 * Suc w))" using window_index_value [of w] Suc.prems(1) by simp
  then have j: "j < 16" "window_index (4 * Suc w) = of_nat j" using ij by (linarith, metis of_int_of_nat_eq word_of_int_uint)
  have "?E div 16 ^ w = 16 * (?E div 16 ^ w div 16) + ?E div 16 ^ w mod 16" by (rule mult_div_mod_eq [symmetric])
  moreover have "?E div 16 ^ w div 16 = ?E div 16 ^ Suc w" by (simp only: power_Suc2) (rule zdiv_zmult2_eq [symmetric], simp)
  ultimately have "?E div 16 ^ w = 16 * (?E div 16 ^ Suc w) + ?E div 16 ^ w mod 16" by simp
  moreover have "int e = ?E div 16 ^ Suc w" by (simp only: e_def) (simp add: pos_imp_zdiv_nonneg_iff)
  ultimately have "?E div 16 ^ w = int (16 * e + j)" using ij by (simp del: power_Suc)
  then have E: "nat (?E div 16 ^ w) = 16 * e + j" by (simp only: nat_int)
  from square_value [OF assms(1) Suc.prems(3) Suc.prems(4) [folded e_def]] obtain b1 where b1: "p256_modmul MOD b 0 b = Some b1" "wf_int b1"
    "num_of b1 mod ?M = x ^ (2 * e) mod ?M" by blast
  from square_value [OF assms(1) b1(2,3)] obtain b2 where b2: "p256_modmul MOD b1 0 b1 = Some b2" "wf_int b2" "num_of b2 mod ?M = x ^ (2 * (2 * e)) mod ?M" by blast
  from square_value [OF assms(1) b2(2,3)] obtain b3 where b3: "p256_modmul MOD b2 0 b2 = Some b3" "wf_int b3" "num_of b3 mod ?M = x ^ (2 * (2 * (2 * e))) mod ?M" by blast
  from square_value [OF assms(1) b3(2,3)] obtain b4 where b4: "p256_modmul MOD b3 0 b3 = Some b4" "wf_int b4" "num_of b4 < ?M"
    "num_of b4 mod ?M = x ^ (2 * (2 * (2 * (2 * e)))) mod ?M" by blast
  have t: "length tbl = 16" "\<forall>i < 16. wf_int (tbl ! i)" using Suc.prems(2) by (simp_all add: powers_in_def)
  define t0 where "t0 = (if 1 \<le> j then tbl ! j else p256_one)"
  have t0: "set0ToIdx tbl (of_nat j) = tbl[0 := t0]" "wf_int t0" "num_of t0 mod ?M = x ^ j mod ?M"
    using set0ToIdx_value [OF j(1) t] j(1) t Suc.prems(2) by (auto simp: t0_def powers_in_def not_le)
  from p256_modmul_value [OF assms(1) b4(2) t0(2), of 0] obtain p where p: "p256_modmul MOD b4 0 t0 = Some p" "wf_int p" "num_of p = num_of b4 * num_of t0 mod ?M" by auto
  define b5 where "b5 = (if j = 0 then b4 else p)"
  have c: "copyConditional p b4 (NOT (ZEROtoONES (of_nat j))) = b5"
    using ZEROtoONES_diff [of j 0] j(1) b4(2) p(2) by (auto simp: b5_def copyConditional_value)
  have M: "0 < ?M" using full_modulus_bounds(2) [OF assms(1)] by simp
  have "num_of p mod ?M = x ^ (2 * (2 * (2 * (2 * e)))) * x ^ j mod ?M" unfolding p(3) mod_mod_trivial by (rule mod_mult_cong [OF b4(4) t0(3)])
  then have v: "wf_int b5" "num_of b5 < ?M" "num_of b5 mod ?M = x ^ nat (?E div 16 ^ w) mod ?M"
    using b4 p M unfolding E by (auto simp: b5_def power_add)
  have "powers_in MOD x 16 (tbl[0 := p])" using Suc.prems(2) p(2) by (auto simp: powers_in_def nth_list_update)
  from Suc.IH [OF _ this v(1,3)] Suc.prems(1) v(2) obtain r where "modinv_loop MOD w (tbl[0 := p]) b5 = Some r" "wf_int r" "num_of r < ?M"
    "num_of r mod ?M = x ^ nat ?E mod ?M" by auto
  moreover have "window_index (4 + 4 * w) = of_nat j" using j(2) by simp
  ultimately show ?case using b1(1) b2(1) b3(1) b4(1) p(1) t(1) by (simp add: Let_def t0(1) c)
qed

lemma p256_modinv_value:
  assumes "full_modulus MOD" and "wf_int a"
  shows "\<exists>b. p256_modinv MOD a = Some b \<and> wf_int b \<and> num_of b = num_of a ^ nat (num_of SECP256r1_n - 2) mod num_of MOD"
proof -
  have "powers_in MOD (num_of a) 2 ((replicate 16 P256_ZERO)[1 := a])" using assms(2) by (auto simp: powers_in_def nth_list_update less_Suc_eq numeral_2_eq_2)
  from power_table_value [OF assms _ _ this] obtain t where t: "power_table MOD a [2..<16] ((replicate 16 P256_ZERO)[1 := a]) = Some t" "powers_in MOD (num_of a) 16 t" by auto
  have "num_of SECP256r1_nMin2 < 16 ^ 64" using wf_num_less [of SECP256r1_nMin2] by (simp add: SECP256r1_nMin2_def)
  then have z: "num_of SECP256r1_nMin2 div 16 ^ 64 = 0" by simp
  have "num_of p256_one mod num_of MOD = num_of a ^ nat (num_of SECP256r1_nMin2 div 16 ^ 64) mod num_of MOD" unfolding z by simp
  from modinv_loop_value [OF assms(1) order_refl t(2) _ this] obtain c where c: "modinv_loop MOD 64 t p256_one = Some c" "wf_int c" "num_of c < num_of MOD"
    "num_of c mod num_of MOD = num_of a ^ nat (num_of SECP256r1_nMin2) mod num_of MOD" by auto
  have "num_of SECP256r1_nMin2 = num_of SECP256r1_n - 2" by (simp add: SECP256r1_nMin2_def SECP256r1_n_def)
  then show ?thesis using c t(1) by (simp add: p256_modinv_def)
qed

section \<open>Points of the curve\<close>

lemma wf_b: "wf_int SECP256r1_b" "num_of SECP256r1_b < num_of SECP256r1_p"
  by (simp_all add: SECP256r1_b_def SECP256r1_p_def unsigned_minus_1_eq_mask mask_eq_exp_minus_1)

lemma sub_wrap: "0 \<le> x \<Longrightarrow> x < m \<Longrightarrow> 0 \<le> y \<Longrightarrow> y < m \<Longrightarrow> x - y + (if y \<le> x then 0 else m) = (x - y) mod m" for x y m :: int
  using mod_pos_pos_trivial [of "x - y + m" m] by auto

lemma sum_wrap: "0 \<le> s \<Longrightarrow> s < 2 * m \<Longrightarrow> s - m + (if m \<le> s then 0 else m) = s mod m" for s m :: int
  by (auto simp: mod_once)

lemma carry_borrow:
  "c + B = s \<Longrightarrow> d + B * bw = c - m \<Longrightarrow> bw = 0 \<or> bw = - 1 \<Longrightarrow> 0 \<le> d \<Longrightarrow> s < 2 * m \<Longrightarrow> m < B \<Longrightarrow> bw = - 1" for B c s d bw m :: int
  by auto

lemma p256_mod_sub:
  assumes "wf_int x" and "wf_int y" and "num_of x < num_of SECP256r1_p" and "num_of y < num_of SECP256r1_p"
  shows "wf_int (sub_mod SECP256r1_p x y)" and "num_of (sub_mod SECP256r1_p x y) = (num_of x - num_of y) mod num_of SECP256r1_p"
proof -
  note m = full_modulus_bounds [OF full_modulus_p(1)]
  let ?P = "num_of SECP256r1_p" and ?d = "num_of x - num_of y"
  have s: "wf_int (sub_mod SECP256r1_p x y)" "num_of (sub_mod SECP256r1_p x y) = ?d + (if num_of y \<le> num_of x then 0 else ?P)"
    using sub_mod_value [OF m(1) assms(1,2)] assms(3,4) by simp_all
  then show "wf_int (sub_mod SECP256r1_p x y)" "num_of (sub_mod SECP256r1_p x y) = ?d mod ?P"
    using sub_wrap [OF num_of_nonneg assms(3) num_of_nonneg assms(4)] by simp_all
qed

text \<open>The sum with the constant of the curve, reduced after a carry and once more.\<close>

definition add_b :: "p256_int \<Rightarrow> p256_int" where
  "add_b x3 =
     (let (c, x3) = p256_add x3 SECP256r1_b; x3 = (if c \<noteq> 0 then snd (p256_sub x3 SECP256r1_p) else x3)
      in sub_mod SECP256r1_p x3 SECP256r1_p)"

lemma add_b_value:
  assumes "wf_int x" and "num_of x < num_of SECP256r1_p"
  shows "wf_int (add_b x)" and "num_of (add_b x) = (num_of x + num_of SECP256r1_b) mod num_of SECP256r1_p"
proof -
  note m = full_modulus_bounds [OF full_modulus_p(1)]
  let ?P = "num_of SECP256r1_p" and ?s = "num_of x + num_of SECP256r1_b"
  from p256_add_value [OF assms(1) wf_b(1)] obtain cy c where a: "p256_add x SECP256r1_b = (cy, c)" "wf_int c" "cy = 0 \<or> cy = 1" "num_of c + 2 ^ 256 * cy = ?s" .
  from p256_sub_value [OF a(2) m(1)] obtain bw d where b: "p256_sub c SECP256r1_p = (bw, d)" "wf_int d" "bw = 0 \<or> bw = - 1" "num_of d + 2 ^ 256 * bw = num_of c - ?P" .
  define e where "e = (if cy \<noteq> 0 then d else c)"
  have l: "num_of c < 2 ^ 256" "num_of d < 2 ^ 256" "?s < 2 * ?P" "0 \<le> num_of c" "0 \<le> num_of d" using wf_num_less a(2) b(2) assms(2) wf_b(2) by simp_all
  have "bw = - 1" if "cy = 1" by (rule carry_borrow [OF _ b(4,3) l(5,3) m(3)]) (use that a(4) in simp)
  then have e: "wf_int e" "num_of e = ?s - (if cy \<noteq> 0 then ?P else 0)" using a b by (auto simp: e_def)
  have v: "wf_int (sub_mod SECP256r1_p e SECP256r1_p)" "num_of (sub_mod SECP256r1_p e SECP256r1_p) = num_of e mod ?P"
    using sub_mod_value [OF m(1) e(1) m(1)] sum_wrap [OF num_of_nonneg, of e ?P] wf_num_less [OF e(1)] m(2) by simp_all
  have "add_b x = sub_mod SECP256r1_p e SECP256r1_p" using a(1) b(1) by (simp add: add_b_def e_def Let_def)
  then show "wf_int (add_b x)" "num_of (add_b x) = ?s mod ?P" using v by (auto simp: e(2))
qed

lemma valid_point_unfold:
  "p256_is_valid_point x y =
     (if p256_cmp SECP256r1_p x \<le> 0 \<or> p256_cmp SECP256r1_p y \<le> 0 \<or> p256_is_zero x \<or> p256_is_zero y then Some False
      else do {
        y2 \<leftarrow> p256_modmul SECP256r1_p y 0 y;
        x3 \<leftarrow> p256_modmul SECP256r1_p x 0 x;
        x3 \<leftarrow> p256_modmul SECP256r1_p x 0 x3;
        Some (p256_cmp y2 (add_b (sub_mod SECP256r1_p (sub_mod SECP256r1_p (sub_mod SECP256r1_p x3 x) x) x)) = 0) })"
  by (simp add: p256_is_valid_point_def add_b_def Let_def split_beta)

text \<open>C21. A point is accepted exactly if its coordinates are positive, below the field size and satisfy the equation of the curve.\<close>

theorem p256_is_valid_point_iff:
  assumes "wf_int x" and "wf_int y"
  shows "p256_is_valid_point x y = Some (
     0 < num_of x \<and> num_of x < num_of SECP256r1_p \<and> 0 < num_of y \<and> num_of y < num_of SECP256r1_p \<and>
     num_of y ^ 2 mod num_of SECP256r1_p = (num_of x ^ 3 - 3 * num_of x + num_of SECP256r1_b) mod num_of SECP256r1_p)"
proof -
  note f = full_modulus_p(1) note m = full_modulus_bounds [OF f]
  let ?P = "num_of SECP256r1_p"
  have cmp: "p256_cmp SECP256r1_p z \<le> 0 \<longleftrightarrow> \<not> num_of z < ?P" if "wf_int z" for z using p256_cmp_value [OF m(1) that] by (simp add: sgn_if)
  have pos: "p256_is_zero z \<longleftrightarrow> \<not> 0 < num_of z" for z using num_of_nonneg [of z] unfolding p256_is_zero_value by linarith
  have P: "0 < ?P" using m(2) by simp
  show ?thesis
  proof (cases "0 < num_of x \<and> num_of x < ?P \<and> 0 < num_of y \<and> num_of y < ?P")
    case False
    then show ?thesis unfolding valid_point_unfold using cmp [OF assms(1)] cmp [OF assms(2)] pos by auto
  next
    case True
    from p256_modmul_value [OF f assms(2,2), of 0] obtain y2 where y2: "p256_modmul SECP256r1_p y 0 y = Some y2" "wf_int y2" "num_of y2 = num_of y * num_of y mod ?P" by auto
    from p256_modmul_value [OF f assms(1,1), of 0] obtain x2 where x2: "p256_modmul SECP256r1_p x 0 x = Some x2" "wf_int x2" "num_of x2 = num_of x * num_of x mod ?P" by auto
    from p256_modmul_value [OF f assms(1) x2(2), of 0] obtain x3 where x3: "p256_modmul SECP256r1_p x 0 x2 = Some x3" "wf_int x3" "num_of x3 = num_of x * num_of x2 mod ?P" by auto
    have sub: "wf_int (sub_mod SECP256r1_p z x) \<and> num_of (sub_mod SECP256r1_p z x) = (num_of z - num_of x) mod ?P \<and> num_of (sub_mod SECP256r1_p z x) < ?P"
      if "wf_int z" "num_of z < ?P" for z using p256_mod_sub [OF that(1) assms(1) that(2)] True P by simp
    define z where "z = sub_mod SECP256r1_p (sub_mod SECP256r1_p (sub_mod SECP256r1_p x3 x) x) x"
    have z: "wf_int z" "num_of z < ?P" "num_of z = (num_of x * (num_of x * num_of x) - num_of x - num_of x - num_of x) mod ?P"
      using sub x2 x3 P by (simp_all add: z_def mod_simps)
    note b = add_b_value [OF z(1,2)]
    have "num_of (add_b z) = (num_of x ^ 3 - 3 * num_of x + num_of SECP256r1_b) mod ?P"
      unfolding b(2) z(3) mod_add_left_eq by (simp add: power3_eq_cube algebra_simps)
    moreover have "p256_cmp y2 (add_b z) = 0 \<longleftrightarrow> num_of y2 = num_of (add_b z)" using p256_cmp_value [OF y2(2) b(1)] by (simp add: sgn_if)
    ultimately show ?thesis unfolding valid_point_unfold z_def [symmetric]
      using True cmp [OF assms(1)] cmp [OF assms(2)] pos y2 x2(1) x3(1) by (simp add: power2_eq_square flip: z_def)
  qed
qed

section \<open>Bytes\<close>

lemma word_join: "((push_bit 24 (ucast (ucast (drop_bit 24 d) :: byte)) OR push_bit 16 (ucast (ucast (drop_bit 16 d) :: byte)))
    OR push_bit 8 (ucast (ucast (drop_bit 8 d) :: byte))) OR ucast (ucast d :: byte) = (d :: digit)"
proof (rule bit_word_eqI)
  fix n assume "n < LENGTH(32)"
  then consider "n < 8" | "8 \<le> n" "n < 16" | "16 \<le> n" "n < 24" | "24 \<le> n" "n < 32" by fastforce
  then show "bit (((push_bit 24 (ucast (ucast (drop_bit 24 d) :: byte)) OR push_bit 16 (ucast (ucast (drop_bit 16 d) :: byte)))
      OR push_bit 8 (ucast (ucast (drop_bit 8 d) :: byte))) OR ucast (ucast d :: byte) :: digit) n = bit d n"
    by cases (auto simp: bit_or_iff bit_push_bit_iff bit_unsigned_iff bit_drop_bit_eq)
qed

lemma word_split:
  fixes b0 b1 b2 b3 :: byte
  shows "word_bytes (((push_bit 24 (ucast b0) OR push_bit 16 (ucast b1)) OR push_bit 8 (ucast b2)) OR ucast b3) = [b0, b1, b2, b3]"
proof -
  have h: "\<not> bit (b :: byte) n" if "8 \<le> n" for b n using that bit_imp_le_length [of b n] by auto
  have "ucast (drop_bit 24 (((push_bit 24 (ucast b0) OR push_bit 16 (ucast b1)) OR push_bit 8 (ucast b2)) OR ucast b3 :: digit)) = b0"
    "ucast (drop_bit 16 (((push_bit 24 (ucast b0) OR push_bit 16 (ucast b1)) OR push_bit 8 (ucast b2)) OR ucast b3 :: digit)) = b1"
    "ucast (drop_bit 8 (((push_bit 24 (ucast b0) OR push_bit 16 (ucast b1)) OR push_bit 8 (ucast b2)) OR ucast b3 :: digit)) = b2"
    "ucast (((push_bit 24 (ucast b0) OR push_bit 16 (ucast b1)) OR push_bit 8 (ucast b2)) OR ucast b3 :: digit) = b3"
    by (rule bit_word_eqI, auto simp: bit_or_iff bit_push_bit_iff bit_unsigned_iff bit_drop_bit_eq h)+
  then show ?thesis by (simp add: word_bytes_def)
qed

lemma be_digits_bytes [simp]: "be_digits (word_bytes d @ bs) = d # be_digits bs"
  by (simp add: word_bytes_def word_join)

lemma from_to_bin: "p256_from_bin (p256_to_bin a) = a"
proof -
  have "be_digits (concat (map word_bytes ds)) = ds" for ds by (induction ds) simp_all
  then show ?thesis by (simp add: p256_from_bin_def p256_to_bin_def)
qed

lemma bytes_be_digits: "length bs = 4 * n \<Longrightarrow> concat (map word_bytes (be_digits bs)) = bs \<and> length (be_digits bs) = n"
proof (induction bs arbitrary: n rule: be_digits.induct)
  case (1 b0 b1 b2 b3 bs)
  then have "length bs = 4 * (n - 1)" "0 < n" by simp_all
  with "1.IH" show ?case by (fastforce simp: word_split)
qed (simp_all, presburger+)

text \<open>The number that bytes stand for, the most significant one first.\<close>

definition be_num :: "byte list \<Rightarrow> int" where
  "be_num bs = foldl (\<lambda>n b. n * 256 + uint b) 0 bs"

lemma be_num_acc: "foldl (\<lambda>n b. n * 256 + uint b) x bs = x * 256 ^ length bs + be_num bs" for bs :: "byte list"
proof (induction bs arbitrary: x)
  case (Cons b bs)
  have "be_num (b # bs) = foldl (\<lambda>n b. n * 256 + uint b) (uint b) bs" by (simp add: be_num_def)
  also have "\<dots> = uint b * 256 ^ length bs + be_num bs" by (rule Cons)
  finally show ?case by (simp add: Cons) (simp add: algebra_simps)
qed (simp add: be_num_def)

lemma be32_uint: "uint (be32 [a, b, c, d]) = be_num [a, b, c, d]"
proof -
  have "unat x \<le> 255" for x :: byte using unsigned_less [of x, where 'a = nat] by simp
  from this [of a] this [of b] this [of c] this [of d]
  have l: "256 * (256 * (256 * unat a + unat b) + unat c) + unat d < 2 ^ 32" by simp
  define N where "N = 256 * (256 * (256 * unat a + unat b) + unat c) + unat d"
  have "uint (of_nat N :: digit) = int N" using l [folded N_def] by (simp add: unsigned_of_nat take_bit_nat_eq_self)
  moreover have "be32 [a, b, c, d] = of_nat N" by (simp add: be32_def N_def)
  moreover have "be_num [a, b, c, d] = int N" by (simp add: be_num_def N_def)
  ultimately show ?thesis by simp
qed

lemma num_of_be_digits: "length bs = 4 * n \<Longrightarrow> num_of (rev (be_digits bs)) = be_num bs"
proof (induction bs arbitrary: n rule: be_digits.induct)
  case (1 b0 b1 b2 b3 bs)
  then have l: "length bs = 4 * (n - 1)" by simp
  have "num_of (rev (be_digits (b0 # b1 # b2 # b3 # bs))) = be_num bs + 2 ^ (32 * (n - 1)) * be_num [b0, b1, b2, b3]"
    using "1.IH" [OF l] bytes_be_digits [OF l] by (simp add: num_of_append be32_word be32_uint)
  also have "(2 :: int) ^ (32 * (n - 1)) = 256 ^ length bs" by (simp add: l power_mult)
  also have "be_num bs + 256 ^ length bs * be_num [b0, b1, b2, b3] = be_num ([b0, b1, b2, b3] @ bs)"
    using be_num_acc [of "be_num [b0, b1, b2, b3]" bs] by (simp add: be_num_def)
  finally show ?case by simp
qed (simp_all add: be_num_def, presburger+)

text \<open>C29. Numbers and their big-endian bytes: reading what was written gives the number, writing what was read gives the bytes, and the value is
  that of the bytes.\<close>

theorem p256_bin_roundtrip:
  assumes "length bs = 32"
  shows "p256_from_bin (p256_to_bin a) = a \<and> p256_to_bin (p256_from_bin bs) = bs \<and> wf_int (p256_from_bin bs)
    \<and> num_of (p256_from_bin bs) = be_num bs"
  using from_to_bin bytes_be_digits [of bs 8] num_of_be_digits [of bs 8] assms by (simp add: p256_from_bin_def p256_to_bin_def)

text \<open>Shifts to the left and to the right by a number of bits that is no multiple of 32.\<close>

theorem p256_shifts:
  assumes "wf_int a" and "n mod 32 \<noteq> 0"
  shows "\<exists>tp b c. p256_shl a n = Some (tp, b) \<and> num_of b + 2 ^ 256 * uint tp = num_of a * 2 ^ (n mod 32)
    \<and> p256_shr a n = Some c \<and> num_of c = num_of a div 2 ^ (n mod 32)"
proof -
  let ?n = "n mod 32"
  have n: "0 < ?n" "?n < 32" using assms(2) by simp_all
  obtain d ds where a: "a = d # ds" "length ds = 7" using assms(1) by (cases a) simp_all
  have l: "last (0 # a) = a ! 7" using assms(1) by (cases "a = []") (simp_all add: last_conv_nth)
  have "shl_loop ?n 0 a = push_bit ?n (a ! 0) # shl_loop ?n (a ! 0) (tl a)" by (simp add: a)
  moreover have "num_of (shl_loop ?n 0 a) + 2 ^ 256 * (uint (a ! 7) div 2 ^ (32 - ?n)) = num_of a * 2 ^ ?n"
    using shl_loop_value [OF n, of 0 a] assms(1) unfolding l by (simp add: mult.commute)
  moreover have "uint (drop_bit (32 - ?n) (a ! 7)) = uint (a ! 7) div 2 ^ (32 - ?n)"
    by (subst unsigned_drop_bit_eq) (simp add: drop_bit_eq_div bintr_uint)
  moreover have "num_of (shr_loop ?n 0 a) = num_of a div 2 ^ ?n" using shr_loop_value [OF n, of 0 a] by simp
  ultimately show ?thesis using assms(2) by (simp add: p256_shl_def p256_shr_def Let_def)
qed

section \<open>Correctness\<close>

text \<open>C11. Multiplication modulo a number whose most significant digit is all ones. No assertion fails, and the result is the reduced product of
  the first factor and the second one, with its extra digit on top.\<close>

theorem p256_modmul_correct:
  assumes "full_modulus MOD" and "wf_int a" and "wf_int b"
  shows "\<exists>c. p256_modmul MOD a tb b = Some c \<and> wf_int c \<and> num_of c = num_of a * (num_of b + 2 ^ 256 * uint tb) mod num_of MOD"
  by (rule p256_modmul_value [OF assms])

theorem p256_modmul_correct_witness:
  "\<exists>c. p256_modmul SECP256r1_n SECP256r1_b 7 SECP256r1_p = Some c \<and> wf_int c
     \<and> num_of c = num_of SECP256r1_b * (num_of SECP256r1_p + 2 ^ 256 * 7) mod num_of SECP256r1_n"
  using p256_modmul_correct [OF full_modulus_n(1) wf_b(1) full_modulus_bounds(1) [OF full_modulus_p(1)], of 7] by simp

text \<open>C12. The fast inverse. For an odd modulus the loop ends exactly if the argument is not 0, and for an argument without a common divisor with the
  modulus it returns the reduced inverse.\<close>

theorem p256_modinv_vartime_correct:
  assumes "full_modulus MOD" and "odd (num_of MOD)" and "wf_int a"
  shows "((\<exists>b. p256_modinv_vartime MOD a = Some b) \<longleftrightarrow> num_of a \<noteq> 0) \<and>
    (coprime (num_of a) (num_of MOD) \<longrightarrow>
      (\<exists>b. p256_modinv_vartime MOD a = Some b \<and> wf_int b \<and> num_of b < num_of MOD \<and> num_of b * num_of a mod num_of MOD = 1))"
  using vartime_returns [OF assms] vartime_inverse [OF assms] by blast

lemma coprime_3_n: "coprime 3 (num_of SECP256r1_n)"
  by code_simp

theorem p256_modinv_vartime_correct_witness:
  "\<exists>b. p256_modinv_vartime SECP256r1_n [3, 0, 0, 0, 0, 0, 0, 0] = Some b \<and> num_of b * 3 mod num_of SECP256r1_n = 1"
  using p256_modinv_vartime_correct [OF full_modulus_n, of "[3, 0, 0, 0, 0, 0, 0, 0]"] coprime_3_n by auto

text \<open>C32. The inverse with constant timing computes the power of its argument with the order of the curve minus 2.\<close>

theorem p256_modinv_correct:
  assumes "full_modulus MOD" and "wf_int a"
  shows "\<exists>b. p256_modinv MOD a = Some b \<and> wf_int b \<and> num_of b = num_of a ^ nat (num_of SECP256r1_n - 2) mod num_of MOD"
  by (rule p256_modinv_value [OF assms])

theorem p256_modinv_correct_witness:
  "\<exists>b. p256_modinv SECP256r1_n SECP256r1_b = Some b \<and> wf_int b
     \<and> num_of b = num_of SECP256r1_b ^ nat (num_of SECP256r1_n - 2) mod num_of SECP256r1_n"
  by (rule p256_modinv_correct [OF full_modulus_n(1) wf_b(1)])

definition base_x :: p256_int where
  "base_x = [0xd898c296, 0xf4a13945, 0x2deb33a0, 0x77037d81, 0x63a440f2, 0xf8bce6e5, 0xe12c4247, 0x6b17d1f2]"

definition base_y :: p256_int where
  "base_y = [0x37bf51f5, 0xcbb64068, 0x6b315ece, 0x2bce3357, 0x7c0f9e16, 0x8ee7eb4a, 0xfe1a7f9b, 0x4fe342e2]"

theorem p256_is_valid_point_iff_witness: "p256_is_valid_point base_x base_y = Some True"
proof -
  have "wf_int base_x" "wf_int base_y" by (simp_all add: base_x_def base_y_def)
  moreover have "0 < num_of base_x \<and> num_of base_x < num_of SECP256r1_p \<and> 0 < num_of base_y \<and> num_of base_y < num_of SECP256r1_p \<and>
     num_of base_y ^ 2 mod num_of SECP256r1_p = (num_of base_x ^ 3 - 3 * num_of base_x + num_of SECP256r1_b) mod num_of SECP256r1_p"
    by code_simp
  ultimately show ?thesis using p256_is_valid_point_iff [of base_x base_y] by simp
qed

theorem p256_bin_roundtrip_witness:
  "p256_to_bin (p256_from_bin (replicate 31 0 @ [7])) = replicate 31 0 @ [7] \<and> num_of (p256_from_bin (replicate 31 0 @ [7])) = 7"
proof -
  have "be_num (replicate 31 0 @ [7]) = 7" by code_simp
  then show ?thesis using p256_bin_roundtrip [of "replicate 31 0 @ [7]" p256_one] by simp
qed

theorem p256_shifts_witness: "\<exists>tp b. p256_shl SECP256r1_n 33 = Some (tp, b) \<and> num_of b + 2 ^ 256 * uint tp = num_of SECP256r1_n * 2"
  using p256_shifts [of SECP256r1_n 33] full_modulus_bounds(1) [OF full_modulus_n(1)] by auto

end
