(* ===== verification/Signatures.thy ===== *)
theory Signatures
  imports Base_Strings Sha256
begin

text \<open>
  Files and the verification of their hash (\<open>base/signatures.cc\<close>, \<open>base/utils.cc\<close>, \<open>base/path.cc\<close>).

  The file system is a map \<open>disk\<close> from the path of a file to its content. Everything that Windows decides
  (how paths are joined, whether a call fails, which entries a directory has for the files on the disk) is a
  field of the record \<open>os\<close>, an argument of the operations. A read from a file that does not fail returns the
  bytes asked for, or those that are left.
\<close>

section \<open>The file system\<close>

record WIN32_FIND_DATA =
  dwFileAttributes :: "32 word"
  cFileName :: string
  ftCreationTime :: "64 word"
  nFileSize :: "64 word"

type_synonym disk = "string \<Rightarrow> byte list option"

record os =
  PathAppend :: "string \<Rightarrow> string \<Rightarrow> string"
  RemoveFileSpec :: "string \<Rightarrow> string"
  os_CreateDir :: "string \<Rightarrow> hresult"
  os_open_write :: "string \<Rightarrow> hresult"
  os_SetFileAttributes :: "string \<Rightarrow> hresult"
  os_open_read :: "string \<Rightarrow> hresult"
  os_GetFileSizeEx :: "string \<Rightarrow> hresult"
  os_seek :: hresult
  os_read :: "nat \<Rightarrow> hresult"
  os_write :: "nat \<Rightarrow> nat \<Rightarrow> hresult \<times> nat"
  os_CopyFile :: "string \<Rightarrow> string \<Rightarrow> hresult"
  os_DeleteFile :: "string \<Rightarrow> hresult"
  os_is_reparse_point :: "string \<Rightarrow> hresult \<times> bool"
  os_delete_after_reboot :: "string \<Rightarrow> hresult"
  os_delete_tree :: "string \<Rightarrow> disk \<Rightarrow> hresult \<times> disk"
  os_FindFiles :: "disk \<Rightarrow> string \<Rightarrow> hresult + WIN32_FIND_DATA list"
  os_now :: "64 word"

definition ConcatenatePath :: "os \<Rightarrow> string \<Rightarrow> string \<Rightarrow> string" where
  "ConcatenatePath os path1 path2 = PathAppend os path1 path2"

definition IsAbsolutePath :: "string \<Rightarrow> bool" where
  "IsAbsolutePath path =
     (if length path < 3 then False
      else
        let path1 = (if hd path = CHR 0x22 then tl path else path)
        in String_StartsWith (tl path1) [CHR '':'', CHR 0x5C] False \<or> String_StartsWith path1 [CHR 0x5C, CHR 0x5C] False)"

definition File_IsDirectory :: "os \<Rightarrow> disk \<Rightarrow> string \<Rightarrow> bool" where
  "File_IsDirectory os d p \<longleftrightarrow> (case os_FindFiles os d p of Inl _ \<Rightarrow> False | Inr _ \<Rightarrow> True)"

definition File_Exists :: "os \<Rightarrow> disk \<Rightarrow> string \<Rightarrow> bool" where
  "File_Exists os d p \<longleftrightarrow> d p \<noteq> None \<or> File_IsDirectory os d p"

definition File_Remove :: "os \<Rightarrow> string \<Rightarrow> disk \<Rightarrow> hresult \<times> disk" where
  "File_Remove os p d =
     (if \<not> File_Exists os d p then (S_OK, d)
      else if FAILED (os_DeleteFile os p) then (os_DeleteFile os p, d)
      else (S_OK, d(p := None)))"

definition File_Copy :: "os \<Rightarrow> string \<Rightarrow> string \<Rightarrow> bool \<Rightarrow> disk \<Rightarrow> hresult \<times> disk" where
  "File_Copy os from to replace_existing_file d =
     (if \<not> replace_existing_file \<and> File_Exists os d to then (S_OK, d)
      else if FAILED (os_CopyFile os from to) then (os_CopyFile os from to, d)
      else case d from of
             None \<Rightarrow> (win32_error 2, d)
           | Some c \<Rightarrow> (S_OK, d(to \<mapsto> c)))"

fun safe_name_loop :: "char option \<Rightarrow> bool \<Rightarrow> string \<Rightarrow> bool" where
  "safe_name_loop prev ok [] = ok"
| "safe_name_loop prev ok (c # cs) =
     (let ok1 = (if c \<noteq> CHR 0x5C \<and> c \<noteq> CHR ''/'' \<and> c \<noteq> CHR '':'' \<and> c \<noteq> CHR ''.'' then True else ok)
      in if c = CHR ''.'' \<and> prev = Some (CHR ''.'') then False
         else safe_name_loop (Some c) (if c = CHR '':'' then False else ok1) cs)"

definition SafeDirectoryNameForDeletion :: "string \<Rightarrow> bool" where
  "SafeDirectoryNameForDeletion dir_name = (dir_name \<noteq> [] \<and> safe_name_loop None False dir_name)"

text \<open>The checks on the name are those of the function; the recursive removal of the directory is \<open>os_delete_tree\<close>.\<close>

definition DeleteDirectory :: "os \<Rightarrow> string \<Rightarrow> disk \<Rightarrow> hresult \<times> disk" where
  "DeleteDirectory os dir_name d =
     (if \<not> SafeDirectoryNameForDeletion dir_name then (E_FAIL, d) else os_delete_tree os dir_name d)"

definition DeleteBeforeOrAfterReboot :: "os \<Rightarrow> string \<Rightarrow> disk \<Rightarrow> hresult \<times> disk" where
  "DeleteBeforeOrAfterReboot os targetname d =
     (if \<not> File_Exists os d targetname then (win32_error 2, d)
      else if File_IsDirectory os d targetname then DeleteDirectory os targetname d
      else if SUCCEEDED (fst (os_is_reparse_point os targetname)) \<and> \<not> snd (os_is_reparse_point os targetname) then
        case File_Remove os targetname d of (hr, d1) \<Rightarrow>
          if FAILED hr then (os_delete_after_reboot os targetname, d1) else (hr, d1)
      else (E_FAIL, d))"

text \<open>
  \<open>File::Open\<close> for writing opens an existing file as it is, and creates an empty one otherwise (\<open>OPEN_ALWAYS\<close>); the file is there even if setting its
  attribute fails. A write at a position replaces the bytes there and extends the file if it ends before; the rest stays.
\<close>

definition File_Open_write :: "os \<Rightarrow> string \<Rightarrow> disk \<Rightarrow> hresult \<times> disk" where
  "File_Open_write os file_name d =
     (if FAILED (os_open_write os file_name) then (os_open_write os file_name, d)
      else
        let d1 = (if d file_name = None then d(file_name \<mapsto> []) else d)
        in if FAILED (os_SetFileAttributes os file_name) then (os_SetFileAttributes os file_name, d1) else (S_OK, d1))"

definition write_at :: "nat \<Rightarrow> byte list \<Rightarrow> byte list \<Rightarrow> byte list" where
  "write_at pos bytes content = take pos content @ bytes @ drop (pos + length bytes) content"

section \<open>Hashes of files\<close>

definition kMaxFileSizeForAuthentication :: nat where
  "kMaxFileSizeForAuthentication = 1024 * 1024 * 1024"

definition kFileReadBufferSize :: nat where
  "kFileReadBufferSize = 1024 * 1024"

text \<open>The constructor of the hasher initialises the count and the state of a context, but not its buffer.\<close>

definition CreateHasher :: HASH_CTX where
  "CreateHasher = SHA256_init \<lparr>count = 0, buf = replicate 64 0, state = replicate 8 0\<rparr>"

function read_loop :: "os \<Rightarrow> nat \<Rightarrow> byte list \<Rightarrow> HASH_CTX \<Rightarrow> hresult + HASH_CTX" where
  "read_loop os k rest hasher =
     (if FAILED (os_read os k) then Inl (os_read os k)
      else
        let chunk = take kFileReadBufferSize rest;
            hasher1 = (if chunk \<noteq> [] then SHA256_update hasher chunk else hasher)
        in if length chunk = kFileReadBufferSize
           then read_loop os (Suc k) (drop kFileReadBufferSize rest) hasher1
           else Inr hasher1)"
  by pat_completeness auto

termination
  by (relation "measure (\<lambda>(os, k, rest, hasher). length rest)") (auto simp: kFileReadBufferSize_def)

fun hash_files :: "os \<Rightarrow> disk \<Rightarrow> nat \<Rightarrow> nat \<Rightarrow> string list \<Rightarrow> HASH_CTX \<Rightarrow> hresult + HASH_CTX" where
  "hash_files os d max_len curr_len [] hasher = Inr hasher"
| "hash_files os d max_len curr_len (f # fs) hasher =
     (if FAILED (os_open_read os f) then Inl (os_open_read os f)
      else case d f of
             None \<Rightarrow> Inl (win32_error 2)
           | Some c \<Rightarrow>
               let curr_len1 = curr_len + length c
               in if max_len \<noteq> 0 \<and> FAILED (os_GetFileSizeEx os f) then Inl (os_GetFileSizeEx os f)
                  else if max_len \<noteq> 0 \<and> max_len < curr_len1 then Inl (itf_error 0x205)
                  else case read_loop os 0 c hasher of
                         Inl hr \<Rightarrow> Inl hr
                       | Inr hasher1 \<Rightarrow> hash_files os d max_len curr_len1 fs hasher1)"

definition CryptoHash_Compute :: "os \<Rightarrow> disk \<Rightarrow> string list \<Rightarrow> nat \<Rightarrow> hresult + byte list" where
  "CryptoHash_Compute os d filepaths max_len =
     (case hash_files os d max_len 0 filepaths CreateHasher of
        Inl hr \<Rightarrow> Inl hr
      | Inr hasher \<Rightarrow> Inr (digest (SHA256_final hasher)))"

definition CryptoHash_Validate :: "os \<Rightarrow> disk \<Rightarrow> string list \<Rightarrow> nat \<Rightarrow> byte list \<Rightarrow> hresult" where
  "CryptoHash_Validate os d filepaths max_len hash_in =
     (case hash_files os d max_len 0 filepaths CreateHasher of
        Inl hr \<Rightarrow> hr
      | Inr hasher \<Rightarrow> if digest (SHA256_final hasher) = hash_in then S_OK else itf_error 0x204)"

definition VerifyFileHashSha256 :: "os \<Rightarrow> disk \<Rightarrow> string list \<Rightarrow> string \<Rightarrow> hresult" where
  "VerifyFileHashSha256 os d files expected_hash =
     (case SafeHexStringToVector expected_hash of
        None \<Rightarrow> E_INVALIDARG
      | Some hash_vector \<Rightarrow>
          if length hash_vector \<noteq> 32 then E_INVALIDARG
          else CryptoHash_Validate os d files kMaxFileSizeForAuthentication hash_vector)"

section \<open>What is verified\<close>

declare read_loop.simps [simp del]

lemma read_loop_more:
  assumes "SUCCEEDED (os_read os k)" and "kFileReadBufferSize \<le> length rest"
  shows "read_loop os k rest hasher =
    read_loop os (Suc k) (drop kFileReadBufferSize rest) (SHA256_update hasher (take kFileReadBufferSize rest))"
proof -
  have "take kFileReadBufferSize rest \<noteq> []" using assms(2) by (auto simp: kFileReadBufferSize_def)
  with assms show ?thesis by (subst read_loop.simps) (simp add: Let_def min_absorb2)
qed

lemma read_loop_last:
  assumes "SUCCEEDED (os_read os k)" and "length rest < kFileReadBufferSize"
  shows "read_loop os k rest hasher = Inr (if rest \<noteq> [] then SHA256_update hasher rest else hasher)"
  using assms by (subst read_loop.simps) (simp add: Let_def min_absorb1)

lemma read_loop_fails: "\<not> SUCCEEDED (os_read os k) \<Longrightarrow> read_loop os k rest hasher = Inl (os_read os k)"
  by (subst read_loop.simps) simp

lemma read_loop_induct [case_names fails last more]:
  assumes "\<And>k rest hasher. \<not> SUCCEEDED (os_read os k) \<Longrightarrow> P k rest hasher (Inl (os_read os k))"
    and "\<And>k rest hasher. length rest < kFileReadBufferSize \<Longrightarrow>
      P k rest hasher (Inr (if rest \<noteq> [] then SHA256_update hasher rest else hasher))"
    and "\<And>k rest hasher r. P (Suc k) (drop kFileReadBufferSize rest) (SHA256_update hasher (take kFileReadBufferSize rest)) r \<Longrightarrow>
      P k rest hasher r"
  shows "P k rest hasher (read_loop os k rest hasher)"
proof (induction "length rest" arbitrary: k rest hasher rule: less_induct)
  case less
  consider "\<not> SUCCEEDED (os_read os k)" | "SUCCEEDED (os_read os k)" "length rest < kFileReadBufferSize"
    | "SUCCEEDED (os_read os k)" "kFileReadBufferSize \<le> length rest" by linarith
  then show ?case
  proof cases
    case 3
    have "length (drop kFileReadBufferSize rest) < length rest" using 3(2) by (simp add: kFileReadBufferSize_def)
    from assms(3) [OF less [OF this]] show ?thesis by (simp add: read_loop_more [OF 3])
  qed (simp_all add: read_loop_fails read_loop_last assms(1) assms(2) del: FAILED_iff)
qed

lemma read_loop_absorbs:
  assumes "absorbs hasher m" and "read_loop os k rest hasher = Inr hasher'"
  shows "absorbs hasher' (m @ rest)"
proof -
  let ?P = "\<lambda>k rest hasher r. \<forall>m. absorbs hasher m \<longrightarrow> (case r of Inl _ \<Rightarrow> True | Inr h \<Rightarrow> absorbs h (m @ rest))"
  have "?P k rest hasher (read_loop os k rest hasher)"
  proof (rule read_loop_induct [where P = ?P])
    fix k rest hasher r
    assume p: "?P (Suc k) (drop kFileReadBufferSize rest) (SHA256_update hasher (take kFileReadBufferSize rest)) r"
    show "?P k rest hasher r"
    proof (intro allI impI)
      fix m
      assume "absorbs hasher m"
      from p [rule_format, OF absorbs_update [OF this]]
      show "case r of Inl _ \<Rightarrow> True | Inr h \<Rightarrow> absorbs h (m @ rest)" by (cases r) simp_all
    qed
  qed (auto intro: absorbs_update)
  with assms show ?thesis by simp
qed

definition contents :: "disk \<Rightarrow> string list \<Rightarrow> byte list" where
  "contents d fs = concat (map (\<lambda>f. case d f of None \<Rightarrow> [] | Some c \<Rightarrow> c) fs)"

lemma hash_files_absorbs:
  "absorbs hasher m \<Longrightarrow> hash_files os d max_len n fs hasher = Inr hasher' \<Longrightarrow>
     absorbs hasher' (m @ contents d fs) \<and> list_all (\<lambda>f. d f \<noteq> None) fs
     \<and> (0 < max_len \<longrightarrow> fs \<noteq> [] \<longrightarrow> n + length (contents d fs) \<le> max_len)"
proof (induction fs arbitrary: hasher m n)
  case (Cons f fs)
  from Cons.prems(2) obtain c h where c: "d f = Some c"
    and r: "read_loop os 0 c hasher = Inr h"
    and l: "max_len \<noteq> 0 \<longrightarrow> n + length c \<le> max_len"
    and k: "hash_files os d max_len (n + length c) fs h = Inr hasher'"
    by (auto split: if_splits option.splits sum.splits simp: Let_def)
  from Cons.IH [OF read_loop_absorbs [OF Cons.prems(1) r] k] c l show ?case
    by (cases fs) (auto simp: contents_def)
qed (simp add: contents_def)

lemma absorbs_CreateHasher: "absorbs CreateHasher []"
  unfolding CreateHasher_def by (rule absorbs_init) simp

lemma read_loop_error: "read_loop os k rest hasher = Inl hr \<Longrightarrow> \<not> SUCCEEDED hr"
  using read_loop_induct [where P = "\<lambda>_ _ _ r. case r of Inl hr \<Rightarrow> \<not> SUCCEEDED hr | Inr _ \<Rightarrow> True", of os k rest hasher]
  by simp

lemma hash_files_error: "hash_files os d max_len n fs hasher = Inl hr \<Longrightarrow> \<not> SUCCEEDED hr"
  by (induction fs arbitrary: n hasher)
    (auto simp: Let_def hresult_defs split: if_splits option.splits sum.splits dest: read_loop_error)

lemma VerifyFileHash_one:
  assumes "SUCCEEDED (VerifyFileHashSha256 os d [f] expected)"
  obtains c where "d f = Some c" and "SafeHexStringToVector expected = Some (sha256 c)"
    and "length c \<le> kMaxFileSizeForAuthentication"
proof -
  from assms obtain v h where v: "SafeHexStringToVector expected = Some v"
    and h: "hash_files os d kMaxFileSizeForAuthentication 0 [f] CreateHasher = Inr h"
    and e: "digest (SHA256_final h) = v"
    by (auto simp: VerifyFileHashSha256_def CryptoHash_Validate_def hresult_defs simp del: hash_files.simps
        split: option.splits if_splits sum.splits dest: hash_files_error)
  from hash_files_absorbs [OF absorbs_CreateHasher h] have a: "absorbs h (contents d [f])"
    and f: "d f \<noteq> None" and l: "length (contents d [f]) \<le> kMaxFileSizeForAuthentication"
    by (simp_all add: kMaxFileSizeForAuthentication_def)
  from f obtain c where c: "d f = Some c" by auto
  then have m: "contents d [f] = c" by (simp add: contents_def)
  have "length c < 2 ^ 61" using l m by (simp add: kMaxFileSizeForAuthentication_def)
  with a m have "digest (SHA256_final h) = sha256 c" by (simp add: SHA256_final_absorbs(1))
  with e v c l m show ?thesis by (intro that [of c]) simp_all
qed

lemma read_loop_total:
  assumes "\<And>k. SUCCEEDED (os_read os k)"
  shows "\<exists>h. read_loop os k rest hasher = Inr h"
  using read_loop_induct [where P = "\<lambda>_ _ _ r. \<exists>h. r = Inr h", of os k rest hasher] assms by blast

lemma VerifyFileHash_ok:
  assumes "d f = Some c" and "SafeHexStringToVector expected = Some (sha256 c)"
    and "length c \<le> kMaxFileSizeForAuthentication"
    and "SUCCEEDED (os_open_read os f)" and "\<And>k. SUCCEEDED (os_read os k)" and "SUCCEEDED (os_GetFileSizeEx os f)"
  shows "VerifyFileHashSha256 os d [f] expected = S_OK"
proof -
  from read_loop_total [OF assms(5)] obtain h where h: "read_loop os 0 c CreateHasher = Inr h" by blast
  from read_loop_absorbs [OF absorbs_CreateHasher h] have "absorbs h c" by simp
  then have "digest (SHA256_final h) = sha256 c"
    using assms(3) by (simp add: SHA256_final_absorbs(1) kMaxFileSizeForAuthentication_def)
  with assms h show ?thesis
    by (simp add: VerifyFileHashSha256_def CryptoHash_Validate_def length_sha256)
qed

text \<open>The verification of a file accepts exactly when the expected hash is the hexadecimal form of the SHA-256 of the
  whole content and the content is at most one gigabyte, however many reads the content takes, provided that
  Windows lets the file be opened and read.\<close>

theorem VerifyFileHashSha256_iff:
  assumes "SUCCEEDED (os_open_read os f)" and "\<And>k. SUCCEEDED (os_read os k)" and "SUCCEEDED (os_GetFileSizeEx os f)"
  shows "SUCCEEDED (VerifyFileHashSha256 os d [f] expected) \<longleftrightarrow>
    (\<exists>c. d f = Some c \<and> SafeHexStringToVector expected = Some (sha256 c)
       \<and> length c \<le> kMaxFileSizeForAuthentication)"
  using VerifyFileHash_one [of os d f expected] VerifyFileHash_ok [OF _ _ _ assms, of d _ expected] by fastforce

definition sample_os :: os where
  "sample_os =
     \<lparr>PathAppend = (\<lambda>p q. if q = [] then p else p @ [CHR 0x5C] @ q),
      RemoveFileSpec = (\<lambda>p. rev (tl (dropWhile (\<lambda>c. c \<noteq> CHR 0x5C) (rev p)))),
      os_CreateDir = (\<lambda>_. S_OK), os_open_write = (\<lambda>_. S_OK), os_SetFileAttributes = (\<lambda>_. S_OK),
      os_open_read = (\<lambda>_. S_OK), os_GetFileSizeEx = (\<lambda>_. S_OK), os_seek = S_OK,
      os_read = (\<lambda>_. S_OK), os_write = (\<lambda>_ n. (S_OK, n)), os_CopyFile = (\<lambda>_ _. S_OK),
      os_DeleteFile = (\<lambda>_. S_OK), os_is_reparse_point = (\<lambda>_. (S_OK, False)),
      os_delete_after_reboot = (\<lambda>_. S_OK), os_delete_tree = (\<lambda>_ d. (S_OK, d)),
      os_FindFiles = (\<lambda>_ _. Inl (win32_error 3)), os_now = 0x1DA000000000000\<rparr>"

definition abc_hash :: string where
  "abc_hash = ''ba7816bf8f01cfea414140de5dae2223b00361a396177a9cb410ff61f20015ad''"

lemma sha256_abc: "SafeHexStringToVector abc_hash = Some (sha256 [0x61, 0x62, 0x63])"
proof -
  have "SHA256_hash [0x61, 0x62, 0x63] sample_ctx = sha256 [0x61, 0x62, 0x63]"
    by (simp add: SHA256_hash_def SHA256_hash_correct(1) sample_ctx_def)
  moreover have "SafeHexStringToVector abc_hash = Some (SHA256_hash [0x61, 0x62, 0x63] sample_ctx)"
    unfolding SHA256_hash_abc by code_simp
  ultimately show ?thesis by simp
qed

theorem VerifyFileHashSha256_iff_witness:
  "SUCCEEDED (VerifyFileHashSha256 sample_os [''f'' \<mapsto> [0x61, 0x62, 0x63]]
     [''f''] abc_hash)"
  by (subst VerifyFileHashSha256_iff) (simp_all add: sample_os_def sha256_abc kMaxFileSizeForAuthentication_def)

end
