(* ===== verification/Tagging.thy ===== *)
theory Tagging
  imports Signatures "HOL-Library.Monad_Syntax"
begin

text \<open>
  The tag of a signed executable (\<open>base/extractor.cc\<close>, \<open>base/apply_tag.cc\<close>): a string that is written into the padding of the certificate
  directory, after a magic word and a length, where the signature does not cover it.

  A file is a list of bytes and a pointer into it is an offset. Every access goes through \<open>byte_at\<close>; an access outside the buffer, which the
  source does not rule out, is the value \<open>None\<close>. Sums of \<open>size_t\<close> wrap at 32 bits: the model is that of a 32-bit build, in which the
  directory is read with the layout of 32-bit images; the offsets of the members are those of the Windows headers.
\<close>

section \<open>Reading a buffer\<close>

definition byte_at :: "byte list \<Rightarrow> int \<Rightarrow> byte option" where
  "byte_at file i = (if 0 \<le> i \<and> i < int (length file) then Some (file ! nat i) else None)"

definition uint16_at :: "byte list \<Rightarrow> int \<Rightarrow> 16 word option" where
  "uint16_at file i = do { b0 \<leftarrow> byte_at file i; b1 \<leftarrow> byte_at file (i + 1); Some (ucast b0 + push_bit 8 (ucast b1)) }"

definition GetUint32 :: "byte list \<Rightarrow> int \<Rightarrow> 32 word option" where
  "GetUint32 file i =
     do { b0 \<leftarrow> byte_at file i; b1 \<leftarrow> byte_at file (i + 1); b2 \<leftarrow> byte_at file (i + 2); b3 \<leftarrow> byte_at file (i + 3);
          Some (ucast b0 + push_bit 8 (ucast b1) + push_bit 16 (ucast b2) + push_bit 24 (ucast b3)) }"

text \<open>\<open>std::search\<close>: the place of the first occurrence.\<close>

fun search :: "byte list \<Rightarrow> byte list \<Rightarrow> nat option" where
  "search pat [] = None"
| "search pat (x # xs) = (if take (length pat) (x # xs) = pat then Some 0 else map_option Suc (search pat xs))"

definition ascii_bytes :: "string \<Rightarrow> byte list" where
  "ascii_bytes s = map of_char s"

definition kMagicBytes :: "byte list" where
  "kMagicBytes = ascii_bytes ''Gact2.0Omaha''"

section \<open>Extracting a tag\<close>

record TagExtractor =
  file_length :: "32 word"
  cert_dir_length :: "32 word"
  cert_dir_base :: int

definition new_TagExtractor :: TagExtractor where
  "new_TagExtractor = \<lparr>file_length = 0, cert_dir_length = 0, cert_dir_base = 0\<rparr>"

text \<open>The address and the size in the entry of the certificate directory, or the null pointer.\<close>

definition GetCertificateDirectory :: "byte list \<Rightarrow> TagExtractor \<Rightarrow> (32 word \<times> 32 word) option option" where
  "GetCertificateDirectory file te =
     (if file_length te < 64 then Some None
      else do {
        e_magic \<leftarrow> uint16_at file 0;
        if e_magic \<noteq> 0x5A4D then Some None
        else do {
          e_lfanew \<leftarrow> GetUint32 file 60;
          if file_length te < e_lfanew + 248 then Some None
          else do {
            signature \<leftarrow> GetUint32 file (sint e_lfanew);
            if signature \<noteq> 0x00004550 then Some None
            else do {
              machine \<leftarrow> uint16_at file (sint e_lfanew + 4);
              if machine = 0x8664 then Some None
              else do {
                virtual_address \<leftarrow> GetUint32 file (sint e_lfanew + 152);
                dir_size \<leftarrow> GetUint32 file (sint e_lfanew + 156);
                if virtual_address = 0 \<or> file_length te < virtual_address + 12 then Some None
                else Some (Some (virtual_address, dir_size)) } } } } })"

definition GetASN1SignatureLength :: "byte list \<Rightarrow> int \<Rightarrow> 32 word option" where
  "GetASN1SignatureLength file sig_base =
     do { b0 \<leftarrow> byte_at file sig_base;
          if b0 \<noteq> 0x30 then Some 0
          else do {
            b1 \<leftarrow> byte_at file (sig_base + 1);
            if b1 \<noteq> 0x82 then Some 0
            else do {
              b2 \<leftarrow> byte_at file (sig_base + 2);
              b3 \<leftarrow> byte_at file (sig_base + 3);
              Some ((push_bit 8 (ucast b2) + ucast b3 + 8 + 2 + 2 + 7) AND 0xffffff8) } } }"

definition InternalReadCertificate :: "byte list \<Rightarrow> TagExtractor \<Rightarrow> (bool \<times> TagExtractor) option" where
  "InternalReadCertificate file te =
     do { idd \<leftarrow> GetCertificateDirectory file te;
          case idd of
            None \<Rightarrow> Some (False, te)
          | Some (virtual_address, dir_size) \<Rightarrow>
              let asn1_signature_pointer = uint virtual_address + 8
              in if uint (file_length te) \<le> asn1_signature_pointer + 4 then Some (False, te)
                 else do {
                   len \<leftarrow> GetASN1SignatureLength file asn1_signature_pointer;
                   if len = 0 then Some (False, te)
                   else Some (True, te\<lparr>cert_dir_length := dir_size, cert_dir_base := uint virtual_address\<rparr>) } }"

text \<open>What a call returns: no tag, the size of the buffer that the caller must pass, or the tag.\<close>

datatype tag_result = NoTag | RequiredSize int | TagIs "byte list"

definition copy_out :: "byte list \<Rightarrow> int \<Rightarrow> nat \<Rightarrow> byte list option" where
  "copy_out file start n = (if 0 \<le> start \<and> start + int n \<le> int (length file) then Some (take n (drop (nat start) file)) else None)"

text \<open>The range that is searched; a search that does not find the word before the end of the buffer goes on outside of it.\<close>

definition search_range :: "byte list \<Rightarrow> int \<Rightarrow> int \<Rightarrow> nat option option" where
  "search_range file start len =
     (if start < 0 \<or> len < 0 then None
      else case search kMagicBytes (take (nat len) (drop (nat start) file)) of
             Some k \<Rightarrow> Some (Some k)
           | None \<Rightarrow> if start + len \<le> int (length file) then Some None else None)"

definition ReadTag :: "byte list \<Rightarrow> TagExtractor \<Rightarrow> int option \<Rightarrow> tag_result option" where
  "ReadTag file te tag_buffer_len =
     do { mc \<leftarrow> search_range file (cert_dir_base te) (sint (cert_dir_length te));
          case mc of
            None \<Rightarrow> Some NoTag
          | Some k \<Rightarrow>
              let tag_pointer = cert_dir_base te + int k + int (length kMagicBytes)
              in do {
                b0 \<leftarrow> byte_at file tag_pointer;
                b1 \<leftarrow> byte_at file (tag_pointer + 1);
                let id_len = (push_bit 8 (ucast b0) + ucast b1 :: 16 word)
                in if id_len = 0 then Some NoTag
                   else case tag_buffer_len of
                          None \<Rightarrow> Some (RequiredSize (uint id_len + 1))
                        | Some n \<Rightarrow>
                            if n < uint id_len + 1 then Some NoTag
                            else do { tag \<leftarrow> copy_out file (tag_pointer + 2) (unat id_len); Some (TagIs tag) } } }"

definition InternalExtractTag :: "byte list \<Rightarrow> int option \<Rightarrow> TagExtractor \<Rightarrow> tag_result option" where
  "InternalExtractTag file tag_buffer_len te =
     do { (ok, te1) \<leftarrow> InternalReadCertificate file te;
          if \<not> ok then Some NoTag
          else if uint (file_length te1) < cert_dir_base te1 + sint (cert_dir_length te1) then Some NoTag
          else ReadTag file te1 tag_buffer_len }"

definition ExtractTag :: "byte list \<Rightarrow> int option \<Rightarrow> tag_result option" where
  "ExtractTag binary_file tag_buffer_len =
     InternalExtractTag binary_file tag_buffer_len (new_TagExtractor\<lparr>file_length := of_nat (length binary_file)\<rparr>)"

section \<open>Applying a tag\<close>

text \<open>The character class of the regular expression: single characters and ranges.\<close>

definition tag_char_ranges :: "(char \<times> char) list" where
  "tag_char_ranges = [(CHR ''a'', CHR ''z''), (CHR ''A'', CHR ''Z''), (CHR ''0'', CHR ''9'')]"

definition is_tag_char :: "char \<Rightarrow> bool" where
  "is_tag_char c \<longleftrightarrow> c \<in> set ''-%{}/&=.,_'' \<or> list_ex (\<lambda>(first, last). c \<in> {first..last}) tag_char_ranges"

definition IsValidTagString :: "string \<Rightarrow> bool" where
  "IsValidTagString tag_string \<longleftrightarrow> list_all is_tag_char tag_string"

text \<open>The previous tag without its final null.\<close>

definition ReadExistingTag :: "byte list \<Rightarrow> byte list option" where
  "ReadExistingTag binary =
     do { r \<leftarrow> ExtractTag binary None;
          case r of
            RequiredSize len \<Rightarrow>
              do { t \<leftarrow> ExtractTag binary (Some len); case t of TagIs tag \<Rightarrow> Some tag | _ \<Rightarrow> Some [] }
          | _ \<Rightarrow> Some [] }"

text \<open>A previous tag is copied with its final null, which the new tag overwrites; with an empty tag the null is written behind the buffer.\<close>

definition CreateBufferToWrite :: "byte list \<Rightarrow> byte list \<Rightarrow> byte list option" where
  "CreateBufferToWrite prev_tag_string tag_string =
     (let tag_string_len = length tag_string + length prev_tag_string
      in if prev_tag_string \<noteq> [] \<and> tag_string = [] then None
         else Some (kMagicBytes @ [of_nat (tag_string_len div 256), of_nat tag_string_len] @ prev_tag_string @ tag_string))"

text \<open>The tagged buffer, or a failure; writing behind the end of the buffer is outside of it, too.\<close>

definition ApplyTagToBuffer :: "byte list \<Rightarrow> byte list \<Rightarrow> byte list option option" where
  "ApplyTagToBuffer tag_buffer file =
     do { peheader \<leftarrow> GetUint32 file 60;
          cert_dir_offset \<leftarrow> GetUint32 file (uint peheader + 152);
          if cert_dir_offset = 0 then Some None
          else do {
            cert_dir_len \<leftarrow> GetUint32 file (uint peheader + 152 + 4);
            mc \<leftarrow> search_range file (uint cert_dir_offset) (uint cert_dir_len);
            case mc of
              None \<Rightarrow> Some None
            | Some k \<Rightarrow>
                let at = unat cert_dir_offset + k
                in if at + length tag_buffer \<le> length file
                   then Some (Some (take at file @ tag_buffer @ drop (at + length tag_buffer) file))
                   else None } }"

definition EmbedTagString :: "hresult + byte list \<Rightarrow> string \<Rightarrow> bool \<Rightarrow> (hresult + byte list) option" where
  "EmbedTagString input tag_string appending =
     (case input of
        Inl hr \<Rightarrow> Some (Inl hr)
      | Inr file \<Rightarrow>
          do { prev \<leftarrow> ReadExistingTag file;
               if \<not> appending \<and> prev \<noteq> [] then Some (Inl (itf_error 0x1000))
               else do {
                 tag_buffer \<leftarrow> CreateBufferToWrite prev (ascii_bytes tag_string);
                 r \<leftarrow> ApplyTagToBuffer tag_buffer file;
                 case r of None \<Rightarrow> Some (Inl (itf_error 0x1001)) | Some b \<Rightarrow> Some (Inr b) } })"

text \<open>The two assertions on the directory that a build for debugging checks before the search: its entry is in the buffer, and the
  directory ends where the buffer ends.\<close>

definition ApplyTagToBuffer_assertions :: "byte list \<Rightarrow> bool" where
  "ApplyTagToBuffer_assertions file =
     (case GetUint32 file 60 of
        None \<Rightarrow> False
      | Some peheader \<Rightarrow> peheader + 152 + 8 \<le> of_nat (length file)
          \<and> (case (GetUint32 file (uint peheader + 152), GetUint32 file (uint peheader + 152 + 4)) of
               (Some cert_dir_offset, Some cert_dir_len) \<Rightarrow> cert_dir_offset = 0 \<or> cert_dir_offset + cert_dir_len = of_nat (length file)
             | _ \<Rightarrow> False))"

text \<open>The initialisation and the call. The whole string is validated and the first \<open>tag_string_length\<close> characters are copied, of which the one
  behind the string is its null; a larger length reads behind it.\<close>

definition ApplyTag :: "hresult + byte list \<Rightarrow> string \<Rightarrow> int \<Rightarrow> bool \<Rightarrow> (hresult + byte list) option" where
  "ApplyTag input tag_string tag_string_length appending =
     (if \<not> IsValidTagString tag_string then Some (Inl E_INVALIDARG)
      else if int (length tag_string) + 1 < tag_string_length then None
      else EmbedTagString input (take (nat tag_string_length) (tag_string @ [CHR 0x00])) appending)"

section \<open>The search\<close>

lemma search_bound:
  assumes "search pat xs = Some k"
  shows "k < length xs" "take (length pat) (drop k xs) = pat" "k + length pat \<le> length xs"
proof -
  show k: "k < length xs" "take (length pat) (drop k xs) = pat"
    using assms by (induction pat xs arbitrary: k rule: search.induct) (auto split: if_splits)
  from k(2) have "length (take (length pat) (drop k xs)) = length pat" by simp
  with k(1) show "k + length pat \<le> length xs" by simp
qed

lemma search_prefix:
  assumes "search pat xs = Some k" and "take (k + length pat) ys = take (k + length pat) xs" and "pat \<noteq> []"
  shows "search pat ys = Some k"
  using assms
proof (induction pat xs arbitrary: k ys rule: search.induct)
  case (2 pat x xs)
  obtain y ys' where ys: "ys = y # ys'"
    using 2(3,4) by (cases ys) auto
  show ?case
  proof (cases "take (length pat) (x # xs) = pat")
    case True
    with 2(2) have "k = 0" by simp
    with True 2(3) ys show ?thesis by simp
  next
    case False
    with 2(2) obtain j where j: "k = Suc j" "search pat xs = Some j" by auto
    from 2(3) have e: "take (j + length pat) ys' = take (j + length pat) xs" "y = x" by (simp_all add: j ys)
    have "take (length pat) ys = take (length pat) (x # xs)"
      using arg_cong [OF 2(3), of "take (length pat)"] by (simp only: take_take) (simp add: min_def)
    with False 2(1) [OF False j(2) e(1) 2(4)] j show ?thesis by (simp add: ys j)
  qed
qed simp

section \<open>Files that agree up to a place\<close>

definition agree :: "nat \<Rightarrow> byte list \<Rightarrow> byte list \<Rightarrow> bool" where
  "agree n f g \<longleftrightarrow> length f = length g \<and> take n f = take n g"

lemma agree_nth: "agree n f g \<Longrightarrow> i < n \<Longrightarrow> i < length f \<Longrightarrow> g ! i = f ! i"
  unfolding agree_def by (metis nth_take)

lemma byte_at_agree: "agree n f g \<Longrightarrow> i < int n \<Longrightarrow> byte_at g i = byte_at f i"
  using agree_nth [of n f g "nat i"] by (auto simp: byte_at_def agree_def)

lemma uint16_at_agree: "agree n f g \<Longrightarrow> i + 1 < int n \<Longrightarrow> uint16_at g i = uint16_at f i"
  by (simp add: uint16_at_def byte_at_agree)

lemma GetUint32_agree: "agree n f g \<Longrightarrow> i + 3 < int n \<Longrightarrow> GetUint32 g i = GetUint32 f i"
  by (simp add: GetUint32_def byte_at_agree)

lemma ASN1_agree: "agree n f g \<Longrightarrow> i + 3 < int n \<Longrightarrow> GetASN1SignatureLength g i = GetASN1SignatureLength f i"
  by (simp add: GetASN1SignatureLength_def byte_at_agree cong: if_cong)

lemma GetCertificateDirectory_agree:
  assumes "agree n f g" and "GetUint32 f 60 = Some e" and "sint e + 160 \<le> int n" and "64 \<le> n"
  shows "GetCertificateDirectory g te = GetCertificateDirectory f te"
proof -
  have "uint16_at g 0 = uint16_at f 0" "GetUint32 g 60 = Some e" "GetUint32 g (sint e) = GetUint32 f (sint e)"
    "uint16_at g (sint e + 4) = uint16_at f (sint e + 4)" "GetUint32 g (sint e + 152) = GetUint32 f (sint e + 152)"
    "GetUint32 g (sint e + 156) = GetUint32 f (sint e + 156)"
    using assms by (simp_all add: uint16_at_agree [OF assms(1)] GetUint32_agree [OF assms(1)])
  with assms(2) show ?thesis by (simp add: GetCertificateDirectory_def cong: if_cong)
qed

lemma InternalReadCertificate_agree:
  assumes "agree n f g" and "GetUint32 f 60 = Some e" and "sint e + 160 \<le> int n" and "64 \<le> n"
    and "GetCertificateDirectory f te = Some (Some (va, sz))" and "uint va + 12 \<le> int n"
  shows "InternalReadCertificate g te = InternalReadCertificate f te"
  using GetCertificateDirectory_agree [OF assms(1-4), of te] ASN1_agree [OF assms(1), of "uint va + 8"] assms(5,6)
  by (simp add: InternalReadCertificate_def Let_def)

section \<open>Signed images\<close>

abbreviation extractor_for :: "byte list \<Rightarrow> TagExtractor" where
  "extractor_for file \<equiv> new_TagExtractor\<lparr>file_length := of_nat (length file)\<rparr>"

text \<open>An image with a certificate that the extractor recognises: the headers come before the certificate directory, which is part of the file.\<close>

definition signed_image :: "byte list \<Rightarrow> bool" where
  "signed_image file \<longleftrightarrow> int (length file) < 2 ^ 31 \<and>
     (case (GetUint32 file 60, GetCertificateDirectory file (extractor_for file)) of
        (Some e_lfanew, Some (Some (virtual_address, dir_size))) \<Rightarrow>
          uint e_lfanew + 160 \<le> uint virtual_address \<and> uint virtual_address + uint dir_size \<le> int (length file)
          \<and> InternalReadCertificate file (extractor_for file) =
              Some (True, (extractor_for file)\<lparr>cert_dir_length := dir_size, cert_dir_base := uint virtual_address\<rparr>)
      | _ \<Rightarrow> False)"

lemma sint_uint_small: "uint (w :: 32 word) < 2 ^ 31 \<Longrightarrow> sint w = uint w"
proof -
  assume "uint w < 2 ^ 31"
  moreover have "- (2 ^ 31) \<le> uint w" by (rule order_trans [OF _ uint_ge_0]) simp
  ultimately show ?thesis by (simp add: sint_uint signed_take_bit_int_eq_self_iff)
qed

lemma be16:
  assumes "L < 65536"
  shows "(push_bit 8 (ucast (of_nat (L div 256) :: byte)) + ucast (of_nat L :: byte) :: 16 word) = of_nat L"
proof -
  have "push_bit 8 (ucast (of_nat (L div 256) :: byte)) = (of_nat (256 * (L div 256)) :: 16 word)"
    using assms by (simp add: push_bit_eq_mult unsigned_of_nat take_bit_nat_eq_self)
  moreover have "ucast (of_nat L :: byte) = (of_nat (L mod 256) :: 16 word)"
    by (simp add: unsigned_of_nat take_bit_eq_mod)
  ultimately show ?thesis by (simp only: of_nat_add [symmetric] mult_div_mod_eq)
qed

lemma signed_imageE:
  assumes "signed_image file"
  obtains e va sz where "GetUint32 file 60 = Some e" "sint e = uint e" "uint e + 160 \<le> uint va" "uint va + uint sz \<le> int (length file)"
    "GetCertificateDirectory file (extractor_for file) = Some (Some (va, sz))" "sint sz = uint sz" "va \<noteq> 0" "length file < 2 ^ 31"
    "InternalReadCertificate file (extractor_for file) = Some (True, (extractor_for file)\<lparr>cert_dir_length := sz, cert_dir_base := uint va\<rparr>)"
    "GetUint32 file (uint e + 152) = Some va" "GetUint32 file (uint e + 156) = Some sz"
proof -
  from assms obtain e va sz where e: "GetUint32 file 60 = Some e" and c: "GetCertificateDirectory file (extractor_for file) = Some (Some (va, sz))"
    and o: "uint e + 160 \<le> uint va" "uint va + uint sz \<le> int (length file)" "length file < 2 ^ 31"
      "InternalReadCertificate file (extractor_for file) = Some (True, (extractor_for file)\<lparr>cert_dir_length := sz, cert_dir_base := uint va\<rparr>)"
    using assms by (auto simp: signed_image_def split: option.splits)
  have n: "0 \<le> uint sz" "0 \<le> uint va" "0 \<le> uint e" by simp_all
  have "int (length file) < 2 ^ 31" using o(3) by simp
  with o(1,2) n have "uint e < 2 ^ 31" "uint sz < 2 ^ 31" by linarith+
  then have s: "sint e = uint e" "sint sz = uint sz" by (simp_all add: sint_uint_small)
  from c e have "GetUint32 file (sint e + 152) = Some va" "GetUint32 file (sint e + 156) = Some sz" "va \<noteq> 0"
    by (auto simp: GetCertificateDirectory_def bind_eq_Some_conv split: if_splits)
  with e c o s show ?thesis by (intro that) simp_all
qed

lemma search_range_in:
  assumes "uint va + uint sz \<le> int (length file)"
  shows "search_range file (uint va) (uint sz) = Some (search kMagicBytes (take (unat sz) (drop (unat va) file)))"
  using assms by (simp add: search_range_def split: option.split)

section \<open>Reading back what was written\<close>

lemma kMagicBytes_length [simp]: "length kMagicBytes = 12"
  by (simp add: kMagicBytes_def ascii_bytes_def)

lemma ExtractTag_signed:
  assumes "InternalReadCertificate file (extractor_for file) = Some (True, (extractor_for file)\<lparr>cert_dir_length := sz, cert_dir_base := uint va\<rparr>)"
    and "sint sz = uint sz" and "uint va + uint sz \<le> int (length file)" and "length file < 2 ^ 31"
  shows "ExtractTag file n = ReadTag file ((extractor_for file)\<lparr>cert_dir_length := sz, cert_dir_base := uint va\<rparr>) n"
proof -
  have "uint (of_nat (length file) :: 32 word) = int (length file)"
    using assms(4) by (simp add: unsigned_of_nat take_bit_nat_eq_self)
  with assms show ?thesis by (simp add: ExtractTag_def InternalExtractTag_def new_TagExtractor_def)
qed

lemma agree_take: "agree n f g \<Longrightarrow> m \<le> n \<Longrightarrow> take m g = take m f"
  unfolding agree_def by (metis min.absorb1 take_take)

text \<open>Where the magic word is found, the tag is what follows its two bytes of length.\<close>

lemma ReadTag_at:
  assumes "cert_dir_base te = uint va" and "cert_dir_length te = sz" and "sint sz = uint sz" and "uint va + uint sz \<le> int (length file)"
    and "search kMagicBytes (take (unat sz) (drop (unat va) file)) = Some k"
    and "drop (unat va + k + 12) file = of_nat (length tag div 256) # of_nat (length tag) # tag @ rest"
    and "length tag < 65536" and "tag \<noteq> []"
  shows "ReadTag file te None = Some (RequiredSize (int (length tag) + 1))"
    and "int (length tag) < n \<Longrightarrow> ReadTag file te (Some n) = Some (TagIs tag)"
proof -
  define p where "p = unat va + k + 12"
  have dp: "drop p file = of_nat (length tag div 256) # of_nat (length tag) # tag @ rest" using assms(6) by (simp add: p_def)
  have len: "p + 2 + length tag \<le> length file" using arg_cong [OF dp, of length] by simp
  have b: "byte_at file (int p) = Some (of_nat (length tag div 256))" "byte_at file (int p + 1) = Some (of_nat (length tag))"
    using dp len nth_drop [where n = p and xs = "file" and i = 0] nth_drop [where n = p and xs = "file" and i = 1]
    by (simp_all add: byte_at_def nat_add_distrib)
  have "drop (p + 2) file = tag @ rest" using arg_cong [OF dp, of "drop 2"] by (simp add: add.commute)
  then have c: "copy_out file (int p + 2) (length tag) = Some tag" using len by (simp add: copy_out_def nat_add_distrib)
  have p: "uint va + int k + int 12 = int p" by (simp add: p_def)
  have u: "unat (of_nat (length tag) :: 16 word) = length tag" "uint (of_nat (length tag) :: 16 word) = int (length tag)"
    using assms(7) by (simp_all add: unsigned_of_nat take_bit_nat_eq_self)
  have z: "(of_nat (length tag) :: 16 word) \<noteq> 0" using u(1) assms(8) by (metis length_0_conv unat_0)
  note eval = ReadTag_def assms(1,2,3) search_range_in [OF assms(4)] assms(5)
  show "ReadTag file te None = Some (RequiredSize (int (length tag) + 1))" unfolding eval
    using b u z assms(7) by (simp only: Let_def option.case bind.bind_lunit kMagicBytes_length p) (simp add: be16)
  show "ReadTag file te (Some n) = Some (TagIs tag)" if "int (length tag) < n" unfolding eval
    using b c u z assms(7) that by (simp only: Let_def option.case bind.bind_lunit kMagicBytes_length p) (simp add: be16)
qed

text \<open>The place of the magic word in the certificate directory.\<close>

definition tag_place :: "byte list \<Rightarrow> nat option" where
  "tag_place file =
     (case GetCertificateDirectory file (extractor_for file) of
        Some (Some (virtual_address, dir_size)) \<Rightarrow>
          map_option (\<lambda>k. unat virtual_address + k) (search kMagicBytes (take (unat dir_size) (drop (unat virtual_address) file)))
      | _ \<Rightarrow> None)"

lemma ApplyTagToBuffer_at:
  assumes "signed_image file" and "tag_place file = Some at"
  shows "ApplyTagToBuffer tag_buffer file =
    (if at + length tag_buffer \<le> length file then Some (Some (take at file @ tag_buffer @ drop (at + length tag_buffer) file)) else None)"
proof -
  from signed_imageE [OF assms(1)] obtain e va sz where s: "GetUint32 file 60 = Some e" "uint va + uint sz \<le> int (length file)"
    "GetCertificateDirectory file (extractor_for file) = Some (Some (va, sz))" "va \<noteq> 0"
    "GetUint32 file (uint e + 152) = Some va" "GetUint32 file (uint e + 156) = Some sz" by metis
  from assms(2) s(3) obtain k where "search kMagicBytes (take (unat sz) (drop (unat va) file)) = Some k" "at = unat va + k"
    by (auto simp: tag_place_def)
  with s show ?thesis by (simp add: ApplyTagToBuffer_def Let_def search_range_in add.commute [of 156])
qed

lemma tag_read_back:
  assumes "signed_image file" and "tag_place file = Some at"
    and "at + 14 + length tag \<le> length file" and "length tag < 65536" and "tag \<noteq> []"
    and "file' = take at file @ (kMagicBytes @ of_nat (length tag div 256) # of_nat (length tag) # tag) @ drop (at + 14 + length tag) file"
  shows "length file' = length file" and "ReadExistingTag file' = Some tag"
proof -
  from signed_imageE [OF assms(1)] obtain e va sz where
    e: "GetUint32 file 60 = Some e" "uint e + 160 \<le> uint va" "uint va + uint sz \<le> int (length file)"
    and c: "GetCertificateDirectory file (extractor_for file) = Some (Some (va, sz))" "sint sz = uint sz" "sint e = uint e" "length file < 2 ^ 31"
    "InternalReadCertificate file (extractor_for file) = Some (True, (extractor_for file)\<lparr>cert_dir_length := sz, cert_dir_base := uint va\<rparr>)"
    by metis
  from assms(2) c(1) obtain k where k: "search kMagicBytes (take (unat sz) (drop (unat va) file)) = Some k" and at: "at = unat va + k"
    by (auto simp: tag_place_def)
  show l: "length file' = length file" using assms(3,6) by simp
  have m: "take 12 (drop at file) = kMagicBytes"
    using search_bound(2,3) [OF k] by (simp add: at drop_take add.commute min_def split: if_splits)
  have "take (at + 12) file' = take (at + 12) file" using assms(3,6) m by (simp add: take_add)
  then have ag: "agree (at + 12) file file'" using l by (simp add: agree_def)
  have "160 \<le> unat va" using e(2) uint_ge_0 [of e] unfolding uint_nat by linarith
  then have i: "InternalReadCertificate file' (extractor_for file') = Some (True, (extractor_for file')\<lparr>cert_dir_length := sz, cert_dir_base := uint va\<rparr>)"
    using InternalReadCertificate_agree [OF ag e(1) _ _ c(1)] c e(2) l by (simp add: at)
  have "take (k + length kMagicBytes) (take (unat sz) (drop (unat va) file')) = take (k + length kMagicBytes) (take (unat sz) (drop (unat va) file))"
    using agree_take [OF ag, of "min (12 + (k + unat va)) (unat sz + unat va)"] by (simp add: at take_drop add_ac)
  then have k': "search kMagicBytes (take (unat sz) (drop (unat va) file')) = Some k"
    by (rule search_prefix [OF k]) (simp add: kMagicBytes_def ascii_bytes_def)
  have d: "drop (unat va + k + 12) file' = of_nat (length tag div 256) # of_nat (length tag) # tag @ drop (at + 14 + length tag) file"
    using assms(3,6) by (simp add: at)
  have x: "ExtractTag file' n = ReadTag file' ((extractor_for file')\<lparr>cert_dir_length := sz, cert_dir_base := uint va\<rparr>) n" for n
    using ExtractTag_signed [OF i c(2)] e(3) c(4) l by simp
  note r = ReadTag_at [OF _ _ c(2) _ k' d assms(4,5)]
  show "ReadExistingTag file' = Some tag" unfolding ReadExistingTag_def x by (subst r, simp, simp, use e(3) l in simp)
    (simp add: r(2) l e(3))
qed

lemma directory_to_end:
  assumes "signed_image file" and "ApplyTagToBuffer_assertions file" and "tag_place file = Some at"
  shows "\<exists>va sz. GetCertificateDirectory file (extractor_for file) = Some (Some (va, sz)) \<and> unat va \<le> at \<and> length file = unat va + unat sz"
proof -
  from signed_imageE [OF assms(1)] obtain e va sz where s: "GetUint32 file 60 = Some e" "uint va + uint sz \<le> int (length file)"
    "GetCertificateDirectory file (extractor_for file) = Some (Some (va, sz))" "va \<noteq> 0" "length file < 2 ^ 31"
    "GetUint32 file (uint e + 152) = Some va" "GetUint32 file (uint e + 156) = Some sz" by metis
  have n: "unat va + unat sz \<le> length file" using s(2) unfolding uint_nat by linarith
  have "va + sz = of_nat (length file)" using assms(2) s by (simp add: ApplyTagToBuffer_assertions_def add.commute [of 156])
  then have "unat (va + sz) = length file" using s(5) by (simp add: unsigned_of_nat take_bit_nat_eq_self)
  moreover have "unat (va + sz) = unat va + unat sz" using n s(5) by (subst unat_plus_if_size) (simp add: word_size)
  ultimately show ?thesis using s(3) assms(3) by (auto simp: tag_place_def)
qed

lemma ApplyTag_signed:
  assumes "signed_image file" and "tag_place file = Some at" and "ReadExistingTag file = Some prev"
    and "IsValidTagString tag" and "tag \<noteq> ''''" and "appending \<or> prev = []"
  shows "ApplyTag (Inr file) tag (int (length tag)) appending =
    (let t = prev @ ascii_bytes tag
     in if at + 14 + length t \<le> length file
        then Some (Inr (take at file @ (kMagicBytes @ of_nat (length t div 256) # of_nat (length t) # t) @ drop (at + 14 + length t) file))
        else None)"
  using assms ApplyTagToBuffer_at [OF assms(1,2)]
  by (auto simp: ApplyTag_def EmbedTagString_def CreateBufferToWrite_def Let_def ascii_bytes_def add_ac)

text \<open>C20. Round trip of the tag of an executable. In a signed image whose certificate directory ends with the file, as the code asserts, and has
  the magic word with room behind it, applying a non-empty tag of valid characters - to an image without a tag, or with the flag to append -
  succeeds: only the header and the text of the tag, which lie in the directory, are written, and reading the new file gives the previous
  tag followed by the new one. Both together are shorter than 65536, what the two bytes of the length can say.\<close>

theorem ApplyTag_roundtrip:
  assumes "signed_image file" and "ApplyTagToBuffer_assertions file" and "tag_place file = Some at" and "ReadExistingTag file = Some prev"
    and "IsValidTagString tag" and "tag \<noteq> ''''" and "appending \<or> prev = []"
    and "at + 14 + length prev + length tag \<le> length file" and "length prev + length tag < 65536"
  shows "\<exists>file'. ApplyTag (Inr file) tag (int (length tag)) appending = Some (Inr file') \<and> length file' = length file
           \<and> take at file' = take at file \<and> drop (at + 14 + length prev + length tag) file' = drop (at + 14 + length prev + length tag) file
           \<and> ReadExistingTag file' = Some (prev @ ascii_bytes tag)
           \<and> (\<exists>virtual_address dir_size. GetCertificateDirectory file (extractor_for file) = Some (Some (virtual_address, dir_size))
                \<and> unat virtual_address \<le> at \<and> at + 14 + length prev + length tag \<le> unat virtual_address + unat dir_size)"
proof -
  let ?t = "prev @ ascii_bytes tag"
  let ?f = "take at file @ (kMagicBytes @ of_nat (length ?t div 256) # of_nat (length ?t) # ?t) @ drop (at + 14 + length ?t) file"
  have t: "at + 14 + length ?t \<le> length file" "length ?t < 65536" "?t \<noteq> []" using assms(6,8,9) by (simp_all add: ascii_bytes_def)
  have a: "ApplyTag (Inr file) tag (int (length tag)) appending = Some (Inr ?f)"
    using ApplyTag_signed [OF assms(1,3-7)] t(1) by (simp add: Let_def)
  have f: "take at ?f = take at file" "drop (at + 14 + length prev + length tag) ?f = drop (at + 14 + length prev + length tag) file"
    using t(1) by (simp_all add: ascii_bytes_def add.assoc)
  from directory_to_end [OF assms(1-3)] assms(8) obtain va sz where
    "GetCertificateDirectory file (extractor_for file) = Some (Some (va, sz))" "unat va \<le> at"
    "at + 14 + length prev + length tag \<le> unat va + unat sz" by fastforce
  with a f tag_read_back [OF assms(1,3) t refl] show ?thesis by blast
qed

text \<open>The room is not checked. Where the directory is too short for the tags, applying writes behind the end of the buffer.\<close>

theorem ApplyTag_overruns:
  assumes "signed_image file" and "tag_place file = Some at" and "ReadExistingTag file = Some prev"
    and "IsValidTagString tag" and "tag \<noteq> ''''" and "appending \<or> prev = []"
    and "length file < at + 14 + length prev + length tag"
  shows "ApplyTag (Inr file) tag (int (length tag)) appending = None"
  using ApplyTag_signed [OF assms(1-6)] assms(7) by (simp add: Let_def ascii_bytes_def)

section \<open>Witnesses\<close>

text \<open>An image of 380 bytes with a certificate directory at 312.\<close>

definition sample_image :: "byte list" where
  "sample_image = [0x4d, 0x5a] @ replicate 58 0 @ [64, 0, 0, 0] @ [0x50, 0x45, 0, 0, 0x4c, 1] @ replicate 146 0 @ [0x38, 1, 0, 0, 68, 0, 0, 0]
     @ replicate 88 0 @ replicate 8 0 @ [0x30, 0x82, 0, 4, 1, 2, 3, 4] @ kMagicBytes @ [0, 0] @ replicate 38 0"

lemma sample_image_facts: "signed_image sample_image" "tag_place sample_image = Some 328" "ReadExistingTag sample_image = Some []"
  "length sample_image = 380" "ApplyTagToBuffer_assertions sample_image"
  by code_simp+

theorem ApplyTag_roundtrip_witness:
  "\<exists>file'. ApplyTag (Inr sample_image) ''brand=CHMA'' 10 False = Some (Inr file') \<and> length file' = 380
     \<and> ReadExistingTag file' = Some (ascii_bytes ''brand=CHMA'')"
proof -
  have "IsValidTagString ''brand=CHMA''" by (simp add: IsValidTagString_def is_tag_char_def tag_char_ranges_def)
  from ApplyTag_roundtrip [OF sample_image_facts(1,5,2,3) this, of False] sample_image_facts(4) show ?thesis by auto
qed

theorem ApplyTag_overruns_witness:
  "ApplyTag (Inr sample_image) ''appguid=0123456789&appname=Chrome&needsadmin=false'' 50 False = None"
  using ApplyTag_overruns [OF sample_image_facts(1-3), of "''appguid=0123456789&appname=Chrome&needsadmin=false''" False]
  by (simp add: IsValidTagString_def is_tag_char_def tag_char_ranges_def sample_image_facts(4))

text \<open>C39. The declared length of a tag is not checked against the file. With a length that passes the end of the file, the extractor reports the
  size that the caller is to pass, and with a buffer of that size it copies bytes from behind the end of the file.\<close>

theorem ExtractTag_overreads:
  assumes "signed_image file" and "tag_place file = Some at" and "at + 14 \<le> length file"
    and "id_len = (push_bit 8 (ucast (file ! (at + 12))) + ucast (file ! (at + 13)) :: 16 word)" and "id_len \<noteq> 0"
    and "length file < at + 14 + unat id_len"
  shows "ExtractTag file None = Some (RequiredSize (uint id_len + 1)) \<and> ExtractTag file (Some (uint id_len + 1)) = None"
proof -
  from signed_imageE [OF assms(1)] obtain va sz where
    c: "GetCertificateDirectory file (extractor_for file) = Some (Some (va, sz))" "sint sz = uint sz" "length file < 2 ^ 31"
    "InternalReadCertificate file (extractor_for file) = Some (True, (extractor_for file)\<lparr>cert_dir_length := sz, cert_dir_base := uint va\<rparr>)"
    and e: "uint va + uint sz \<le> int (length file)"
    by metis
  from assms(2) c(1) obtain k where k: "search kMagicBytes (take (unat sz) (drop (unat va) file)) = Some k" and at: "at = unat va + k"
    by (auto simp: tag_place_def)
  have b: "byte_at file (int (at + 12)) = Some (file ! (at + 12))" "byte_at file (int (at + 12) + 1) = Some (file ! (at + 13))"
    using assms(3) by (simp_all add: byte_at_def nat_add_distrib add.commute)
  have "\<not> int (at + 12) + 2 + int (unat id_len) \<le> int (length file)" using assms(6) by linarith
  then have o: "copy_out file (int (at + 12) + 2) (unat id_len) = None" by (simp only: copy_out_def) simp
  have p: "uint va + int k + int 12 = int (at + 12)" by (simp add: at)
  have s: "search_range file (uint va) (sint sz) = Some (Some k)" using search_range_in [OF e] k c(2) by simp
  define te where "te = (extractor_for file)\<lparr>cert_dir_length := sz, cert_dir_base := uint va\<rparr>"
  have t: "cert_dir_length te = sz" "cert_dir_base te = uint va" by (simp_all add: te_def)
  note x = ExtractTag_signed [OF c(4,2) e c(3), folded te_def] ReadTag_def t s option.case bind.bind_lunit kMagicBytes_length p Let_def
  have "ExtractTag file None = Some (RequiredSize (uint id_len + 1))" unfolding x
    using assms(5) by (simp add: b assms(4) [symmetric] del: of_nat_add)
  moreover have "ExtractTag file (Some (uint id_len + 1)) = None" unfolding x
    using assms(5) by (simp add: b o assms(4) [symmetric] del: of_nat_add)
  ultimately show ?thesis ..
qed

text \<open>The sample with a declared length of 255.\<close>

definition overlong_image :: "byte list" where
  "overlong_image = sample_image[341 := 255]"

theorem ExtractTag_overreads_witness:
  "ExtractTag overlong_image None = Some (RequiredSize 256) \<and> ExtractTag overlong_image (Some 256) = None"
proof -
  have f: "signed_image overlong_image" "tag_place overlong_image = Some 328" "length overlong_image = 380"
    "overlong_image ! 340 = 0" "overlong_image ! 341 = 255" by code_simp+
  then show ?thesis using ExtractTag_overreads [OF f(1,2), of 255] by simp
qed

end
