(* ===== verification/Package_Cache.thy ===== *)
theory Package_Cache
  imports Signatures Group_Policy "HOL-Library.Multiset"
begin

text \<open>
  The package cache (\<open>goopdate/package_cache.cc\<close>): packages are stored below the cache root, in a directory
  for the app and one for the version. An entry is used only after its hash was verified, and
  the oldest packages are removed when the cache grows too large or too old.
\<close>

section \<open>Finding packages\<close>

record PackageInfo =
  file_name :: string
  file_time :: "64 word"
  file_size :: "64 word"

definition PackageSortByTimePredicate :: "PackageInfo \<Rightarrow> PackageInfo \<Rightarrow> bool" where
  "PackageSortByTimePredicate package1 package2 \<longleftrightarrow> file_time package2 < file_time package1"

definition is_directory_entry :: "WIN32_FIND_DATA \<Rightarrow> bool" where
  "is_directory_entry find_data \<longleftrightarrow> dwFileAttributes find_data AND 0x10 \<noteq> 0"

definition IsSpecialDirectoryFindData :: "WIN32_FIND_DATA \<Rightarrow> bool" where
  "IsSpecialDirectoryFindData find_data \<longleftrightarrow>
     is_directory_entry find_data \<and> (cFileName find_data = ''.'' \<or> cFileName find_data = ''..'')"

definition IsSubDirectoryFindData :: "WIN32_FIND_DATA \<Rightarrow> bool" where
  "IsSubDirectoryFindData find_data \<longleftrightarrow> is_directory_entry find_data \<and> \<not> IsSpecialDirectoryFindData find_data"

definition IsFileFindData :: "WIN32_FIND_DATA \<Rightarrow> bool" where
  "IsFileFindData find_data \<longleftrightarrow> dwFileAttributes find_data = 0x80 \<or> \<not> is_directory_entry find_data"

definition FindFilePackagesInfo :: "os \<Rightarrow> string \<Rightarrow> WIN32_FIND_DATA \<Rightarrow> PackageInfo list \<Rightarrow> PackageInfo list" where
  "FindFilePackagesInfo os version_dir find_data packages_info =
     packages_info @ [\<lparr>file_name = ConcatenatePath os version_dir (cFileName find_data),
                       file_time = ftCreationTime find_data, file_size = nFileSize find_data\<rparr>]"

datatype CacheDirectoryType = CACHE_DIRECTORY_ROOT | CACHE_DIRECTORY_APP | CACHE_DIRECTORY_VERSION

text \<open>The loop over the entries of a directory, with what is done for an entry as an argument.\<close>

fun find_loop :: "(WIN32_FIND_DATA \<Rightarrow> PackageInfo list \<Rightarrow> hresult \<times> PackageInfo list) \<Rightarrow>
    WIN32_FIND_DATA list \<Rightarrow> PackageInfo list \<Rightarrow> hresult \<times> PackageInfo list" where
  "find_loop entry [] ps = (S_OK, ps)"
| "find_loop entry (x # xs) ps =
     (case entry x ps of (hr, ps1) \<Rightarrow> if FAILED hr then (hr, ps1) else find_loop entry xs ps1)"

definition find_directory :: "os \<Rightarrow> disk \<Rightarrow> string \<Rightarrow>
    (WIN32_FIND_DATA \<Rightarrow> PackageInfo list \<Rightarrow> hresult \<times> PackageInfo list) \<Rightarrow>
    PackageInfo list \<Rightarrow> hresult \<times> PackageInfo list" where
  "find_directory os d dir_path entry ps =
     (case os_FindFiles os d dir_path of
        Inl hr \<Rightarrow> (hr, ps)
      | Inr es \<Rightarrow> find_loop entry es ps)"

definition FindVersionPackagesInfo :: "os \<Rightarrow> disk \<Rightarrow> string \<Rightarrow> PackageInfo list \<Rightarrow> hresult \<times> PackageInfo list" where
  "FindVersionPackagesInfo os d version_dir =
     find_directory os d version_dir
       (\<lambda>e ps. if IsFileFindData e then (S_OK, FindFilePackagesInfo os version_dir e ps) else (S_OK, ps))"

definition FindAppPackagesInfo :: "os \<Rightarrow> disk \<Rightarrow> string \<Rightarrow> PackageInfo list \<Rightarrow> hresult \<times> PackageInfo list" where
  "FindAppPackagesInfo os d app_dir =
     find_directory os d app_dir
       (\<lambda>e ps. if IsSubDirectoryFindData e
               then FindVersionPackagesInfo os d (ConcatenatePath os app_dir (cFileName e)) ps else (S_OK, ps))"

definition FindAllPackagesInfo :: "os \<Rightarrow> disk \<Rightarrow> string \<Rightarrow> hresult \<times> PackageInfo list" where
  "FindAllPackagesInfo os d cache_root =
     find_directory os d cache_root
       (\<lambda>e ps. if IsSubDirectoryFindData e
               then FindAppPackagesInfo os d (ConcatenatePath os cache_root (cFileName e)) ps else (S_OK, ps)) []"

text \<open>\<open>std::sort\<close> with the predicate: descending in time.\<close>

definition SortPackageInfoByTime :: "PackageInfo list \<Rightarrow> PackageInfo list" where
  "SortPackageInfoByTime packages_info = rev (sort_key file_time packages_info)"

section \<open>Copying a file\<close>

text \<open>The loop of \<open>FileCopy\<close>: the result, and the content of the destination that the writes at its position leave.\<close>

function copy_loop :: "os \<Rightarrow> nat \<Rightarrow> byte list \<Rightarrow> nat \<Rightarrow> byte list \<Rightarrow> hresult \<times> byte list" where
  "copy_loop os k rest pos content =
     (if FAILED (os_read os k) then (os_read os k, content)
      else
        let buffer = take 4096 rest
        in if buffer = [] then (S_OK, content)
           else case os_write os k (length buffer) of (hr, bytes_written) \<Rightarrow>
             let content1 = write_at pos (take bytes_written buffer) content
             in if FAILED hr then (hr, content1)
                else if bytes_written \<noteq> length buffer then (E_UNEXPECTED, content1)
                else copy_loop os (Suc k) (drop 4096 rest) (pos + bytes_written) content1)"
  by pat_completeness auto

termination
  by (relation "measure (\<lambda>(os, k, rest, pos, content). length rest)") auto

definition content_of :: "disk \<Rightarrow> string \<Rightarrow> byte list" where
  "content_of d f = (case d f of None \<Rightarrow> [] | Some c \<Rightarrow> c)"

definition FileCopy :: "os \<Rightarrow> byte list \<Rightarrow> string \<Rightarrow> disk \<Rightarrow> hresult \<times> disk" where
  "FileCopy os source destination d =
     (case File_Open_write os destination d of (hr, d1) \<Rightarrow>
        if FAILED hr then (hr, d1)
        else if FAILED (os_seek os) then (os_seek os, d1)
        else case copy_loop os 0 source 0 (content_of d1 destination) of (hr, content) \<Rightarrow>
          (hr, d1(destination \<mapsto> content)))"

section \<open>The cache\<close>

record PackageCache =
  cache_root :: string
  cache_time_limit_days :: "32 word"
  cache_size_limit_bytes :: "64 word"

record Key =
  key_app_id :: string
  key_version :: string
  key_package_name :: string

definition new_Key :: "string \<Rightarrow> string \<Rightarrow> string \<Rightarrow> Key" where
  "new_Key app_id version package_name =
     \<lparr>key_app_id = app_id, key_version = (if IsEmpty version then ''0.0.0.0'' else version),
      key_package_name = package_name\<rparr>"

definition new_PackageCache :: "32 word \<Rightarrow> ConfigManager \<Rightarrow> PackageCache" where
  "new_PackageCache memory cm =
     \<lparr>cache_root = [], cache_time_limit_days = GetPackageCacheExpirationTimeDays memory cm,
      cache_size_limit_bytes = 1024 * 1024 * scast (GetPackageCacheSizeLimitMBytes memory cm)\<rparr>"

definition PackageCache_Initialize :: "os \<Rightarrow> string \<Rightarrow> PackageCache \<Rightarrow> hresult \<times> PackageCache" where
  "PackageCache_Initialize os root pc =
     (if \<not> IsAbsolutePath root then (E_INVALIDARG, pc)
      else if FAILED (os_CreateDir os root) then (os_CreateDir os root, pc)
      else (S_OK, pc\<lparr>cache_root := root\<rparr>))"

definition BuildCacheFileName :: "os \<Rightarrow> PackageCache \<Rightarrow> string \<Rightarrow> string \<Rightarrow> string \<Rightarrow> hresult + string" where
  "BuildCacheFileName os pc app_id version package_name =
     (if Find_str ''..'' package_name \<noteq> None then Inl E_INVALIDARG
      else Inr (ConcatenatePath os (ConcatenatePath os (ConcatenatePath os (cache_root pc) app_id) version) package_name))"

definition BuildCacheFileNameForKey :: "os \<Rightarrow> PackageCache \<Rightarrow> Key \<Rightarrow> hresult + string" where
  "BuildCacheFileNameForKey os pc key =
     BuildCacheFileName os pc (key_app_id key) (key_version key) (key_package_name key)"

definition VerifyHash :: "os \<Rightarrow> disk \<Rightarrow> string \<Rightarrow> string \<Rightarrow> hresult" where
  "VerifyHash os d filename expected_hash = VerifyFileHashSha256 os d [filename] expected_hash"

definition IsCached :: "os \<Rightarrow> PackageCache \<Rightarrow> disk \<Rightarrow> Key \<Rightarrow> string \<Rightarrow> bool" where
  "IsCached os pc d key expected_hash =
     (case BuildCacheFileNameForKey os pc key of
        Inl hr \<Rightarrow> False
      | Inr filename \<Rightarrow> File_Exists os d filename \<and> SUCCEEDED (VerifyHash os d filename expected_hash))"

definition key_incomplete :: "Key \<Rightarrow> bool" where
  "key_incomplete key \<longleftrightarrow> IsEmpty (key_app_id key) \<or> IsEmpty (key_version key) \<or> IsEmpty (key_package_name key)"

definition PackageCache_Put :: "os \<Rightarrow> PackageCache \<Rightarrow> Key \<Rightarrow> byte list \<Rightarrow> string \<Rightarrow> disk \<Rightarrow> hresult \<times> disk" where
  "PackageCache_Put os pc key source expected_hash d =
     (if key_incomplete key then (E_INVALIDARG, d)
      else case BuildCacheFileNameForKey os pc key of
             Inl hr \<Rightarrow> (hr, d)
           | Inr destination_file \<Rightarrow>
               if FAILED (os_CreateDir os (RemoveFileSpec os destination_file))
               then (os_CreateDir os (RemoveFileSpec os destination_file), d)
               else case FileCopy os source destination_file d of (hr, d1) \<Rightarrow>
                 if FAILED hr then (hr, d1)
                 else
                   let hr = VerifyHash os d1 destination_file expected_hash
                   in if FAILED hr then
                        (hr, if SUCCEEDED (os_DeleteFile os destination_file)
                             then d1(destination_file := None) else d1)
                      else (S_OK, d1))"

definition PackageCache_Get :: "os \<Rightarrow> PackageCache \<Rightarrow> Key \<Rightarrow> string \<Rightarrow> string \<Rightarrow> disk \<Rightarrow> hresult \<times> disk" where
  "PackageCache_Get os pc key destination_file expected_hash d =
     (if key_incomplete key then (E_INVALIDARG, d)
      else case BuildCacheFileNameForKey os pc key of
             Inl hr \<Rightarrow> (hr, d)
           | Inr source_file \<Rightarrow>
               if \<not> File_Exists os d source_file then (win32_error 2, d)
               else if FAILED (VerifyHash os d source_file expected_hash)
               then (VerifyHash os d source_file expected_hash, d)
               else File_Copy os source_file destination_file True d)"

definition PackageCache_Delete :: "os \<Rightarrow> PackageCache \<Rightarrow> string \<Rightarrow> string \<Rightarrow> string \<Rightarrow> disk \<Rightarrow> hresult \<times> disk" where
  "PackageCache_Delete os pc app_id version package_name d =
     (case BuildCacheFileName os pc app_id version package_name of
        Inl hr \<Rightarrow> (hr, d)
      | Inr filename \<Rightarrow> DeleteBeforeOrAfterReboot os filename d)"

definition Purge :: "os \<Rightarrow> PackageCache \<Rightarrow> Key \<Rightarrow> disk \<Rightarrow> hresult \<times> disk" where
  "Purge os pc key = PackageCache_Delete os pc (key_app_id key) (key_version key) (key_package_name key)"

definition PurgeVersion :: "os \<Rightarrow> PackageCache \<Rightarrow> string \<Rightarrow> string \<Rightarrow> disk \<Rightarrow> hresult \<times> disk" where
  "PurgeVersion os pc app_id version = PackageCache_Delete os pc app_id version []"

definition PurgeApp :: "os \<Rightarrow> PackageCache \<Rightarrow> string \<Rightarrow> disk \<Rightarrow> hresult \<times> disk" where
  "PurgeApp os pc app_id = PackageCache_Delete os pc app_id [] []"

definition PurgeAll :: "os \<Rightarrow> PackageCache \<Rightarrow> disk \<Rightarrow> hresult \<times> disk" where
  "PurgeAll os pc d =
     (case PackageCache_Delete os pc [] [] [] d of (hr, d1) \<Rightarrow>
        if FAILED hr then (hr, d1) else (os_CreateDir os (cache_root pc), d1))"

text \<open>Whether the directory of a version is removed, for the version that is kept.\<close>

definition is_lower_version :: "64 word \<Rightarrow> WIN32_FIND_DATA \<Rightarrow> bool" where
  "is_lower_version my_version find_data \<longleftrightarrow>
     \<not> IsSpecialDirectoryFindData find_data \<and> VersionFromString (cFileName find_data) \<noteq> 0
     \<and> VersionFromString (cFileName find_data) < my_version"

fun lower_versions_loop :: "os \<Rightarrow> 64 word \<Rightarrow> string \<Rightarrow> WIN32_FIND_DATA list \<Rightarrow> disk \<Rightarrow> disk" where
  "lower_versions_loop os my_version app_id_path [] d = d"
| "lower_versions_loop os my_version app_id_path (e # es) d =
     lower_versions_loop os my_version app_id_path es
       (if is_lower_version my_version e
        then snd (DeleteBeforeOrAfterReboot os (ConcatenatePath os app_id_path (cFileName e)) d)
        else d)"

definition PurgeAppLowerVersions :: "os \<Rightarrow> PackageCache \<Rightarrow> string \<Rightarrow> string \<Rightarrow> disk \<Rightarrow> hresult \<times> disk" where
  "PurgeAppLowerVersions os pc app_id version d =
     (let my_version = VersionFromString version
      in if my_version = 0 then (E_INVALIDARG, d)
         else case BuildCacheFileName os pc app_id [] [] of
                Inl hr \<Rightarrow> (hr, d)
              | Inr app_id_path \<Rightarrow>
                  (case os_FindFiles os d app_id_path of
                     Inl hr \<Rightarrow> (hr, d)
                   | Inr es \<Rightarrow> (S_OK, lower_versions_loop os my_version app_id_path es d)))"

definition GetCacheExpirationTime :: "os \<Rightarrow> PackageCache \<Rightarrow> 64 word" where
  "GetCacheExpirationTime os pc =
     os_now os - 1000 * 1000 * 10 * 86400 * scast (cache_time_limit_days pc)"

text \<open>The packages from which on the loop of \<open>PurgeOldPackagesIfNecessary\<close> stops.\<close>

fun expired_packages :: "64 word \<Rightarrow> 64 word \<Rightarrow> 64 word \<Rightarrow> PackageInfo list \<Rightarrow> PackageInfo list" where
  "expired_packages limit expiration_time total_cache_size [] = []"
| "expired_packages limit expiration_time total_cache_size (p # ps) =
     (let total_cache_size1 = total_cache_size + file_size p
      in if limit < total_cache_size1 then p # ps
         else if file_time p < expiration_time then p # ps
         else expired_packages limit expiration_time total_cache_size1 ps)"

fun delete_loop :: "os \<Rightarrow> PackageInfo list \<Rightarrow> hresult \<Rightarrow> disk \<Rightarrow> hresult \<times> disk" where
  "delete_loop os [] hr d = (hr, d)"
| "delete_loop os (p # ps) hr d =
     (case DeleteBeforeOrAfterReboot os (file_name p) d of (hr1, d1) \<Rightarrow> delete_loop os ps hr1 d1)"

definition PurgeOldPackagesIfNecessary :: "os \<Rightarrow> PackageCache \<Rightarrow> disk \<Rightarrow> hresult \<times> disk" where
  "PurgeOldPackagesIfNecessary os pc d =
     (case FindAllPackagesInfo os d (cache_root pc) of (hr, packages_info) \<Rightarrow>
        if FAILED hr then (hr, d)
        else delete_loop os
               (expired_packages (cache_size_limit_bytes pc) (GetCacheExpirationTime os pc) 0
                  (SortPackageInfoByTime packages_info)) hr d)"

section \<open>What the cache stores\<close>

declare copy_loop.simps [simp del]

lemma write_at_append:
  "pos \<le> length content \<Longrightarrow> write_at (pos + length xs) ys (write_at pos xs content) = write_at pos (xs @ ys) content"
  by (simp add: write_at_def min_absorb2 ac_simps)

lemma write_at_length: "pos \<le> length content \<Longrightarrow> pos + length xs \<le> length (write_at pos xs content)"
  by (simp add: write_at_def)

lemma write_at_Nil [simp]: "write_at pos [] content = content"
  by (simp add: write_at_def)

lemma write_at_covers: "length content \<le> length xs \<Longrightarrow> write_at 0 xs content = xs"
  by (simp add: write_at_def)

lemma copy_loop_done:
  assumes "copy_loop os k rest pos content = (hr, res)" and "SUCCEEDED hr" and "pos \<le> length content"
  shows "res = write_at pos rest content"
  using assms
proof (induction os k rest pos content rule: copy_loop.induct)
  case (1 os k rest pos content)
  define b where "b = take 4096 rest"
  have r: "SUCCEEDED (os_read os k)" using 1(2,3) by (subst (asm) copy_loop.simps) (auto split: if_splits)
  show ?case
  proof (cases "b = []")
    case True
    then show ?thesis using 1(2) r by (subst (asm) copy_loop.simps) (simp add: Let_def b_def)
  next
    case False
    obtain w n where w: "os_write os k (length b) = (w, n)" by fastforce
    have "SUCCEEDED w \<and> n = length b \<and> copy_loop os (Suc k) (drop 4096 rest) (pos + n) (write_at pos (take n b) content) = (hr, res)"
      using 1(2,3) r False w by (subst (asm) copy_loop.simps) (auto simp: Let_def b_def [symmetric] split: if_splits)
    then have h: "SUCCEEDED w" "n = length b" "copy_loop os (Suc k) (drop 4096 rest) (pos + length b) (write_at pos b content) = (hr, res)" by auto
    have "res = write_at (pos + length b) (drop 4096 rest) (write_at pos b content)"
      using 1(1) [OF _ b_def False w [symmetric] refl] r h 1(3) write_at_length [OF 1(4), of b] by simp
    then show ?thesis by (simp only: write_at_append [OF 1(4)]) (simp add: b_def)
  qed
qed

lemma File_Open_write_disk:
  assumes "File_Open_write os f d = (hr, d')"
  shows "f \<noteq> p \<Longrightarrow> d' p = d p" and "content_of d' f = content_of d f" and "d'(f \<mapsto> c) = d(f \<mapsto> c)"
  using assms by (auto simp: File_Open_write_def content_of_def Let_def split: if_splits)

lemma FileCopy_done:
  assumes "FileCopy os src f d = (hr, d')" and "SUCCEEDED hr"
  shows "d' = d(f \<mapsto> write_at 0 src (content_of d f))"
proof -
  obtain hr1 d1 where o: "File_Open_write os f d = (hr1, d1)" by fastforce
  obtain hr2 c where l: "copy_loop os 0 src 0 (content_of d1 f) = (hr2, c)" by fastforce
  from assms o l have "hr2 = hr" "d' = d1(f \<mapsto> c)" by (auto simp: FileCopy_def split: if_splits)
  with copy_loop_done [OF l] assms(2) File_Open_write_disk(2,3) [OF o] show ?thesis by simp
qed

lemma FileCopy_frame: "FileCopy os src f d = (hr, d') \<Longrightarrow> f \<noteq> p \<Longrightarrow> d' p = d p"
  by (auto simp: FileCopy_def split: if_splits prod.splits dest: File_Open_write_disk(1))

lemma VerifyHash_content:
  assumes "SUCCEEDED (VerifyHash os d f expected)"
  obtains c where "d f = Some c" "SafeHexStringToVector expected = Some (sha256 c)"
    "length c \<le> kMaxFileSizeForAuthentication"
  using assms VerifyFileHash_one unfolding VerifyHash_def by blast

lemma BuildCacheFileName_error: "BuildCacheFileNameForKey os pc key = Inl hr \<Longrightarrow> \<not> SUCCEEDED hr"
  by (auto simp: BuildCacheFileNameForKey_def BuildCacheFileName_def split: if_splits)

lemma Put_done:
  assumes "PackageCache_Put os pc key src expected d = (hr, d')" and "SUCCEEDED hr"
  obtains f where "BuildCacheFileNameForKey os pc key = Inr f" "\<not> key_incomplete key"
    "d' = d(f \<mapsto> write_at 0 src (content_of d f))" "SUCCEEDED (VerifyHash os d' f expected)"
  using assms
  by (auto simp: PackageCache_Put_def Let_def split: if_splits prod.splits sum.splits
      dest: FileCopy_done BuildCacheFileName_error)

lemma Put_frame:
  assumes "PackageCache_Put os pc key src expected d = (hr, d')" and "BuildCacheFileNameForKey os pc key \<noteq> Inr p"
  shows "d' p = d p"
  using assms
  by (auto simp: PackageCache_Put_def Let_def split: if_splits prod.splits sum.splits dest: FileCopy_frame)

lemma hash_files_frame:
  "list_all (\<lambda>f. d f = d' f) fs \<Longrightarrow> hash_files os d max_len n fs hasher = hash_files os d' max_len n fs hasher"
  by (induction fs arbitrary: n hasher) (auto simp: Let_def split: option.split sum.split)

lemma VerifyHash_frame: "d f = d' f \<Longrightarrow> VerifyHash os d f expected = VerifyHash os d' f expected"
proof -
  assume "d f = d' f"
  then have "hash_files os d n k [f] h = hash_files os d' n k [f] h" for n k h by (intro hash_files_frame) simp
  then show ?thesis by (simp only: VerifyHash_def VerifyFileHashSha256_def CryptoHash_Validate_def)
qed

lemma IsCached_iff:
  "IsCached os pc d key expected \<longleftrightarrow>
     (\<exists>f. BuildCacheFileNameForKey os pc key = Inr f \<and> SUCCEEDED (VerifyHash os d f expected))"
  by (auto simp: IsCached_def File_Exists_def split: sum.splits elim: VerifyHash_content)

lemma Get_done:
  assumes "PackageCache_Get os pc key dest expected d = (hr, d')" and "SUCCEEDED hr"
  obtains f c where "BuildCacheFileNameForKey os pc key = Inr f" "d f = Some c"
    "SUCCEEDED (VerifyHash os d f expected)" "d' = d(dest \<mapsto> c)"
proof -
  from assms obtain f where f: "BuildCacheFileNameForKey os pc key = Inr f" "SUCCEEDED (VerifyHash os d f expected)"
    "File_Copy os f dest True d = (hr, d')"
    by (auto simp: PackageCache_Get_def hresult_defs split: if_splits sum.splits dest: BuildCacheFileName_error)
  from VerifyHash_content [OF f(2)] obtain c where "d f = Some c" by metis
  with f assms(2) show ?thesis by (intro that [of f c]) (auto simp: File_Copy_def split: if_splits)
qed

text \<open>Windows performs every call on files.\<close>

definition os_works :: "os \<Rightarrow> bool" where
  "os_works os \<longleftrightarrow> (\<forall>p. SUCCEEDED (os_CreateDir os p) \<and> SUCCEEDED (os_open_write os p) \<and> SUCCEEDED (os_SetFileAttributes os p)
       \<and> SUCCEEDED (os_open_read os p) \<and> SUCCEEDED (os_GetFileSizeEx os p) \<and> SUCCEEDED (os_DeleteFile os p))
     \<and> SUCCEEDED (os_seek os) \<and> (\<forall>k. SUCCEEDED (os_read os k))
     \<and> (\<forall>k n. SUCCEEDED (fst (os_write os k n)) \<and> snd (os_write os k n) = n)"

lemma copy_loop_works: "os_works os \<Longrightarrow> fst (copy_loop os k rest pos content) = S_OK"
proof (induction os k rest pos content rule: copy_loop.induct)
  case (1 os k rest pos content)
  obtain w n where w: "os_write os k (length (take 4096 rest)) = (w, n)" by fastforce
  have ok: "SUCCEEDED (os_read os k)" "SUCCEEDED w" "n = length (take 4096 rest)"
    using 1(2) w unfolding os_works_def by (metis fst_conv snd_conv)+
  show ?case
  proof (cases "take 4096 rest = []")
    case True
    then show ?thesis using ok by (subst copy_loop.simps) (simp add: Let_def)
  next
    case False
    from 1(1) [OF _ refl False w [symmetric] refl _ _ 1(2)] ok w False show ?thesis by (subst copy_loop.simps) (simp add: Let_def)
  qed
qed

lemma FileCopy_works: "os_works os \<Longrightarrow> FileCopy os src f d = (S_OK, d(f \<mapsto> write_at 0 src (content_of d f)))"
proof -
  assume w: "os_works os"
  obtain hr1 d1 where o: "File_Open_write os f d = (hr1, d1)" by fastforce
  have "SUCCEEDED hr1" using w o by (auto simp: File_Open_write_def os_works_def Let_def split: if_splits)
  then have s: "fst (FileCopy os src f d) = S_OK"
    using w o copy_loop_works [OF w, of 0 src 0 "content_of d1 f"] by (auto simp: FileCopy_def os_works_def split: prod.splits)
  obtain hr2 d2 where f: "FileCopy os src f d = (hr2, d2)" by fastforce
  from FileCopy_done [OF this] s f show ?thesis by simp
qed

text \<open>What a \<open>Put\<close> does when Windows performs the calls: the source is written over the old file, and the result stays if it has the expected hash.\<close>

lemma Put_outcome:
  assumes "os_works os" and "\<not> key_incomplete key" and "BuildCacheFileNameForKey os pc key = Inr f"
    and "c = write_at 0 src (content_of d f)" and "PackageCache_Put os pc key src expected d = (hr, d')"
  shows "SUCCEEDED hr \<longleftrightarrow> SafeHexStringToVector expected = Some (sha256 c) \<and> length c \<le> kMaxFileSizeForAuthentication"
    and "d' = (if SUCCEEDED hr then d(f \<mapsto> c) else d(f := None))"
proof -
  have v: "SUCCEEDED (VerifyHash os (d(f \<mapsto> c)) f expected) \<longleftrightarrow>
      SafeHexStringToVector expected = Some (sha256 c) \<and> length c \<le> kMaxFileSizeForAuthentication"
    unfolding VerifyHash_def using assms(1) by (subst VerifyFileHashSha256_iff) (auto simp: os_works_def)
  have f: "FileCopy os src f d = (S_OK, d(f \<mapsto> c))" using FileCopy_works [OF assms(1), of src f d] assms(4) by simp
  have del: "SUCCEEDED (os_DeleteFile os f)" "SUCCEEDED (os_CreateDir os (RemoveFileSpec os f))" using assms(1) by (simp_all add: os_works_def)
  show "SUCCEEDED hr \<longleftrightarrow> SafeHexStringToVector expected = Some (sha256 c) \<and> length c \<le> kMaxFileSizeForAuthentication"
    "d' = (if SUCCEEDED hr then d(f \<mapsto> c) else d(f := None))"
    using assms(2,3,5) v f del by (auto simp: PackageCache_Put_def Let_def split: if_splits)
qed

section \<open>The store interface\<close>

text \<open>What the cache promises to the components that use it: an entry that was put is cached and stays so as
  long as no other key with the same file is put, and what is delivered has the hash that was asked for.\<close>

locale package_store =
  fixes put :: "'k \<Rightarrow> byte list \<Rightarrow> string \<Rightarrow> disk \<Rightarrow> hresult \<times> disk"
    and get :: "'k \<Rightarrow> string \<Rightarrow> string \<Rightarrow> disk \<Rightarrow> hresult \<times> disk"
    and cached :: "disk \<Rightarrow> 'k \<Rightarrow> string \<Rightarrow> bool"
    and file_of :: "'k \<Rightarrow> hresult + string"
  assumes put_cached: "put k c h d = (hr, d') \<Longrightarrow> SUCCEEDED hr \<Longrightarrow> cached d' k h"
    and put_frame: "put k c h d = (hr, d') \<Longrightarrow> file_of k \<noteq> Inr p \<Longrightarrow> d' p = d p"
    and cached_frame: "cached d k h \<Longrightarrow> (\<And>f. file_of k = Inr f \<Longrightarrow> d' f = d f) \<Longrightarrow> cached d' k h"
    and cached_content: "cached d k h \<Longrightarrow> \<exists>f c. file_of k = Inr f \<and> d f = Some c \<and> SafeHexStringToVector h = Some (sha256 c)"
    and get_content: "get k p h d = (hr, d') \<Longrightarrow> SUCCEEDED hr \<Longrightarrow>
      \<exists>f c. file_of k = Inr f \<and> d f = Some c \<and> SafeHexStringToVector h = Some (sha256 c) \<and> d' = d(p \<mapsto> c)"
begin

lemma put_other:
  assumes "put k c h d = (hr, d')" and "cached d k' h'" and "file_of k' \<noteq> file_of k"
  shows "cached d' k' h'"
proof (rule cached_frame [OF assms(2)])
  fix f
  assume "file_of k' = Inr f"
  with assms(3) have "file_of k \<noteq> Inr f" by simp
  from put_frame [OF assms(1) this] show "d' f = d f" .
qed

lemma get_put:
  assumes "put k c h d = (hr, d1)" and "SUCCEEDED hr" and "get k p h d1 = (hr', d2)" and "SUCCEEDED hr'"
    and "file_of k = Inr f" and "d1 f = Some c"
  shows "d2 p = Some c"
  using get_content [OF assms(3,4)] assms(5,6) by auto

end

interpretation pc: package_store "PackageCache_Put os pc" "PackageCache_Get os pc" "IsCached os pc" "BuildCacheFileNameForKey os pc" for os pc
proof
  show "PackageCache_Put os pc k c h d = (hr, d') \<Longrightarrow> SUCCEEDED hr \<Longrightarrow> IsCached os pc d' k h" for k c h d hr d'
    by (auto simp: IsCached_iff elim: Put_done)
  show "PackageCache_Put os pc k c h d = (hr, d') \<Longrightarrow> BuildCacheFileNameForKey os pc k \<noteq> Inr p \<Longrightarrow> d' p = d p" for k c h d hr d' p
    by (rule Put_frame)
  show "IsCached os pc d' k h" if "IsCached os pc d k h" "\<And>f. BuildCacheFileNameForKey os pc k = Inr f \<Longrightarrow> d' f = d f" for d d' k h
    using that VerifyHash_frame [of d' _ d os h] by (auto simp: IsCached_iff)
  show "\<exists>f c. BuildCacheFileNameForKey os pc k = Inr f \<and> d f = Some c \<and> SafeHexStringToVector h = Some (sha256 c)"
    if "IsCached os pc d k h" for d k h
    using that by (auto simp: IsCached_iff elim: VerifyHash_content)
  show "\<exists>f c. BuildCacheFileNameForKey os pc k = Inr f \<and> d f = Some c \<and> SafeHexStringToVector h = Some (sha256 c) \<and> d' = d(p \<mapsto> c)"
    if "PackageCache_Get os pc k p h d = (hr, d')" "SUCCEEDED hr" for k p h d hr d'
    using Get_done [OF that] VerifyHash_content by (metis option.inject)
qed

text \<open>C14. Whatever the cache directory contains, a package that the cache delivers has the expected SHA-256: when
  \<open>Get\<close> succeeds, the destination holds the content of the cache file of the key, its hash is the expected one, and
  no other file has changed.\<close>

theorem Get_delivers_verified:
  assumes "PackageCache_Get os pc key dest expected d = (hr, d')" and "SUCCEEDED hr"
  shows "\<exists>f c. BuildCacheFileNameForKey os pc key = Inr f \<and> d f = Some c
    \<and> SafeHexStringToVector expected = Some (sha256 c) \<and> d' = d(dest \<mapsto> c)"
  using pc.get_content [OF assms] .

text \<open>C13. Storing and fetching: after a successful \<open>Put\<close> the key is cached, and \<open>Get\<close> with the same key and hash succeeds, if Windows
  allows the copy. What it delivers has the expected hash and is the source written over the file that the cache held for the key: exactly the bytes
  that were put if that file was not longer, and the bytes followed by the rest of the old file otherwise.\<close>

theorem Put_Get_roundtrip:
  assumes "PackageCache_Put os pc key source expected d = (hr, d1)" and "SUCCEEDED hr"
    and "\<And>p. SUCCEEDED (os_CopyFile os p dest)"
  shows "\<exists>f d2 c. BuildCacheFileNameForKey os pc key = Inr f \<and> PackageCache_Get os pc key dest expected d1 = (S_OK, d2)
    \<and> d2 dest = Some c \<and> SafeHexStringToVector expected = Some (sha256 c) \<and> IsCached os pc d1 key expected
    \<and> c = (if length (content_of d f) \<le> length source then source else source @ drop (length source) (content_of d f))"
proof -
  from Put_done [OF assms(1,2)] obtain f where f: "BuildCacheFileNameForKey os pc key = Inr f" "\<not> key_incomplete key"
    "d1 = d(f \<mapsto> write_at 0 source (content_of d f))" "SUCCEEDED (VerifyHash os d1 f expected)" by metis
  let ?c = "write_at 0 source (content_of d f)"
  have g: "PackageCache_Get os pc key dest expected d1 = (S_OK, d1(dest \<mapsto> ?c))"
    using f assms(3) by (simp add: PackageCache_Get_def File_Exists_def File_Copy_def)
  from pc.get_content [OF g] f(1,3) have "SafeHexStringToVector expected = Some (sha256 ?c)" by auto
  moreover have "IsCached os pc d1 key expected" by (rule pc.put_cached [OF assms(1,2)])
  moreover have "?c = (if length (content_of d f) \<le> length source then source else source @ drop (length source) (content_of d f))"
    by (simp add: write_at_def)
  ultimately show ?thesis using f(1) g by (intro exI [of _ f] exI [of _ "d1(dest \<mapsto> ?c)"] exI [of _ ?c]) simp
qed

text \<open>
  The destination of the copy is not truncated. Over a longer file, the right content is not accepted and the entry is removed, unless the hash
  of the mixture happens to be the same; over the valid package, any of its prefixes is accepted.
\<close>

theorem Put_over_longer_file:
  assumes "os_works os" and "\<not> key_incomplete key" and "BuildCacheFileNameForKey os pc key = Inr f"
    and "length source < length old" and "d f = Some old" and "PackageCache_Put os pc key source expected d = (hr, d')"
    and "SafeHexStringToVector expected = Some h"
  shows "(h = sha256 source \<and> sha256 (source @ drop (length source) old) \<noteq> h \<longrightarrow> \<not> SUCCEEDED hr \<and> d' f = None)
    \<and> (h = sha256 old \<and> length old \<le> kMaxFileSizeForAuthentication \<and> take (length source) old = source \<longrightarrow> SUCCEEDED hr \<and> d' = d)"
proof -
  have c: "content_of d f = old" using assms(5) by (simp add: content_of_def)
  note o = Put_outcome [OF assms(1-3) refl assms(6), unfolded c]
  have w: "write_at 0 source old = source @ drop (length source) old" by (simp add: write_at_def)
  have p: "write_at 0 source old = old" if "take (length source) old = source"
    using append_take_drop_id [of "length source" old] that by (simp add: w)
  show ?thesis using o assms(5,7) w p by auto
qed

section \<open>Removing packages\<close>

lemma sorted_SortPackageInfoByTime:
  "sorted_wrt (\<lambda>p q. file_time q \<le> file_time p) (SortPackageInfoByTime ps)"
  using sorted_sort_key [of file_time ps]
  by (simp add: SortPackageInfoByTime_def sorted_wrt_rev sorted_map)

lemma mset_SortPackageInfoByTime: "mset (SortPackageInfoByTime ps) = mset ps"
  by (simp add: SortPackageInfoByTime_def)

definition total_size :: "PackageInfo list \<Rightarrow> nat" where
  "total_size ps = sum_list (map (\<lambda>p. unat (file_size p)) ps)"

lemma expired_packages_split:
  assumes "unat t + total_size ps < 2 ^ 64"
  shows "\<exists>kept. ps = kept @ expired_packages limit expiry t ps
    \<and> unat t + total_size kept \<le> max (unat t) (unat limit)
    \<and> list_all (\<lambda>p. expiry \<le> file_time p) kept
    \<and> (case expired_packages limit expiry t ps of [] \<Rightarrow> True
       | p # _ \<Rightarrow> file_time p < expiry \<or> unat limit < unat t + total_size kept + unat (file_size p))"
  using assms
proof (induction ps arbitrary: t)
  case (Cons p ps)
  have u: "unat (t + file_size p) = unat t + unat (file_size p)"
    using Cons.prems by (simp add: total_size_def unat_plus_simple [THEN iffD1] unat_add_lem [THEN iffD1])
  show ?case
  proof (cases "limit < t + file_size p \<or> file_time p < expiry")
    case True
    then show ?thesis by (intro exI [of _ "[]"]) (auto simp: Let_def total_size_def word_less_nat_alt u)
  next
    case False
    then have l: "unat t + unat (file_size p) \<le> unat limit" by (simp add: word_less_nat_alt u not_less)
    have "unat (t + file_size p) + total_size ps < 2 ^ 64" using Cons.prems u by (simp add: total_size_def)
    from Cons.IH [OF this] obtain kept where k: "ps = kept @ expired_packages limit expiry (t + file_size p) ps"
      "unat (t + file_size p) + total_size kept \<le> max (unat (t + file_size p)) (unat limit)"
      "list_all (\<lambda>p. expiry \<le> file_time p) kept"
      "case expired_packages limit expiry (t + file_size p) ps of [] \<Rightarrow> True
       | q # _ \<Rightarrow> file_time q < expiry \<or> unat limit < unat (t + file_size p) + total_size kept + unat (file_size q)"
      by blast
    with False l u show ?thesis
      by (intro exI [of _ "p # kept"]) (auto simp: Let_def total_size_def add.assoc not_less split: list.split_asm)
  qed
qed (simp add: total_size_def)

text \<open>A file that Windows lets be removed at once: no directory, no reparse point, and its deletion succeeds.\<close>

definition removable :: "os \<Rightarrow> string \<Rightarrow> bool" where
  "removable os f \<longleftrightarrow> SUCCEEDED (os_DeleteFile os f) \<and> SUCCEEDED (fst (os_is_reparse_point os f)) \<and> \<not> snd (os_is_reparse_point os f)
     \<and> (\<forall>d. \<not> File_IsDirectory os d f)"

lemma Delete_removable:
  "removable os f \<Longrightarrow> DeleteBeforeOrAfterReboot os f d = (if d f = None then win32_error 2 else S_OK, d(f := None))"
  by (auto simp: removable_def DeleteBeforeOrAfterReboot_def File_Remove_def File_Exists_def fun_upd_idem)

lemma delete_loop_removes:
  assumes "list_all (\<lambda>p. removable os (file_name p)) ps"
  shows "snd (delete_loop os ps hr d) f = (if f \<in> file_name ` set ps then None else d f)"
    and "distinct (map file_name ps) \<Longrightarrow> list_all (\<lambda>p. d (file_name p) \<noteq> None) ps \<Longrightarrow> fst (delete_loop os ps S_OK d) = S_OK"
proof -
  show "snd (delete_loop os ps hr d) f = (if f \<in> file_name ` set ps then None else d f)"
    using assms by (induction ps arbitrary: hr d) (auto simp: Delete_removable)
  show "fst (delete_loop os ps S_OK d) = S_OK" if "distinct (map file_name ps)" "list_all (\<lambda>p. d (file_name p) \<noteq> None) ps"
    using assms that
  proof (induction ps arbitrary: d)
    case (Cons p ps)
    have "list_all (\<lambda>q. (d(file_name p := None)) (file_name q) \<noteq> None) ps" using Cons.prems(2,3) by (auto simp: list_all_iff) (metis imageI)
    with Cons show ?case by (auto simp: Delete_removable)
  qed simp
qed

text \<open>C34. When the cache is cleaned up, the newest packages stay on the disk, in total at most the size limit and none of them
  expired; the files of the others are gone, and no other file has changed. Every package that is removed is at most as new as every one that stays, and the
  removal starts at the first package that is expired or exceeds the limit. The sum of the sizes must fit in 64 bits, and the files
  that were found must be different ones that Windows lets be deleted.\<close>

theorem PurgeOldPackages_keeps:
  assumes "FindAllPackagesInfo os d (cache_root pc) = (S_OK, found)" and "total_size found < 2 ^ 64"
    and "distinct (map file_name found)" and "list_all (\<lambda>p. removable os (file_name p) \<and> d (file_name p) \<noteq> None) found"
  shows "\<exists>kept removed d'. mset (kept @ removed) = mset found
    \<and> PurgeOldPackagesIfNecessary os pc d = (S_OK, d')
    \<and> (\<forall>f. d' f = (if f \<in> file_name ` set removed then None else d f))
    \<and> list_all (\<lambda>p. d' (file_name p) \<noteq> None) kept
    \<and> total_size kept \<le> unat (cache_size_limit_bytes pc)
    \<and> list_all (\<lambda>p. GetCacheExpirationTime os pc \<le> file_time p) kept
    \<and> list_all (\<lambda>q. list_all (\<lambda>p. file_time q \<le> file_time p) kept) removed
    \<and> (removed = [] \<or> file_time (hd removed) < GetCacheExpirationTime os pc
        \<or> unat (cache_size_limit_bytes pc) < total_size kept + unat (file_size (hd removed)))"
proof -
  define s where "s = SortPackageInfoByTime found"
  define r where "r = expired_packages (cache_size_limit_bytes pc) (GetCacheExpirationTime os pc) 0 s"
  have m: "mset s = mset found" unfolding s_def by (rule mset_SortPackageInfoByTime)
  have "total_size s = total_size found"
    unfolding total_size_def by (metis m mset_map sum_mset_sum_list)
  then have "unat (0 :: 64 word) + total_size s < 2 ^ 64" using assms(2) by simp
  from expired_packages_split [OF this, of "cache_size_limit_bytes pc" "GetCacheExpirationTime os pc"]
  obtain kept where k: "s = kept @ r" "total_size kept \<le> unat (cache_size_limit_bytes pc)"
    "list_all (\<lambda>p. GetCacheExpirationTime os pc \<le> file_time p) kept"
    "case r of [] \<Rightarrow> True | p # _ \<Rightarrow> file_time p < GetCacheExpirationTime os pc
       \<or> unat (cache_size_limit_bytes pc) < total_size kept + unat (file_size p)"
    unfolding r_def [symmetric] unsigned_0 add_0 max_0L by blast
  have "sorted_wrt (\<lambda>p q. file_time q \<le> file_time p) (kept @ r)"
    using sorted_SortPackageInfoByTime [of found] by (simp only: s_def [symmetric] k(1) [symmetric])
  then have "list_all (\<lambda>q. list_all (\<lambda>p. file_time q \<le> file_time p) kept) r"
    by (auto simp: sorted_wrt_append list_all_iff)
  moreover have mk: "mset (kept @ r) = mset found" using m by (simp only: k(1) [symmetric])
  moreover have "distinct (map file_name (kept @ r))" "list_all (\<lambda>p. removable os (file_name p) \<and> d (file_name p) \<noteq> None) (kept @ r)"
    using assms(3,4) mset_eq_imp_distinct_iff [of "map file_name (kept @ r)" "map file_name found"] mset_eq_setD [OF mk] mk
    by (simp_all only: mset_map list_all_iff)
  then have df: "distinct (map file_name r)" "list_all (\<lambda>p. removable os (file_name p)) r" "list_all (\<lambda>p. d (file_name p) \<noteq> None) r"
    "\<And>p. p \<in> set kept \<Longrightarrow> file_name p \<notin> file_name ` set r \<and> d (file_name p) \<noteq> None"
    by (auto simp: list_all_iff)
  define d' where "d' = snd (delete_loop os r S_OK d)"
  have "PurgeOldPackagesIfNecessary os pc d = delete_loop os r S_OK d"
    using assms(1) by (simp add: PurgeOldPackagesIfNecessary_def r_def s_def)
  then have "PurgeOldPackagesIfNecessary os pc d = (S_OK, d')"
    using delete_loop_removes(2) [OF df(2,1,3)] by (metis d'_def prod.collapse)
  moreover have "\<forall>f. d' f = (if f \<in> file_name ` set r then None else d f)" unfolding d'_def using delete_loop_removes(1) [OF df(2)] by blast
  moreover from this have "list_all (\<lambda>p. d' (file_name p) \<noteq> None) kept" using df(4) by (simp add: list_all_iff)
  moreover have "r = [] \<or> file_time (hd r) < GetCacheExpirationTime os pc
      \<or> unat (cache_size_limit_bytes pc) < total_size kept + unat (file_size (hd r))"
    using k(4) by (cases r) simp_all
  ultimately show ?thesis using k(2,3) by blast
qed

definition sample_cache :: PackageCache where
  "sample_cache = \<lparr>cache_root = ''C:'', cache_time_limit_days = 180, cache_size_limit_bytes = 100\<rparr>"

definition sample_key :: Key where
  "sample_key = new_Key ''app'' ''1.0'' ''p''"

definition sample_put :: "hresult \<times> disk" where
  "sample_put = PackageCache_Put sample_os sample_cache sample_key [0x61, 0x62, 0x63] abc_hash (\<lambda>_. None)"

lemma Put_ok_code: "SUCCEEDED (fst (PackageCache_Put os pc key src expected d)) \<Longrightarrow> fst (PackageCache_Put os pc key src expected d) = S_OK"
  by (auto simp: PackageCache_Put_def Let_def split: sum.splits prod.splits if_splits dest: BuildCacheFileName_error)

lemma sample_os_works: "os_works sample_os"
  by (simp add: os_works_def sample_os_def)

lemma sample_put_ok: "fst sample_put = S_OK"
proof -
  have "BuildCacheFileNameForKey sample_os sample_cache sample_key =
      Inr (''C:'' @ CHR 0x5C # ''app'' @ CHR 0x5C # ''1.0'' @ CHR 0x5C # ''p'')" by code_simp
  moreover have "\<not> key_incomplete sample_key" by (simp add: key_incomplete_def sample_key_def new_Key_def)
  moreover obtain hr d' where "PackageCache_Put sample_os sample_cache sample_key [0x61, 0x62, 0x63] abc_hash (\<lambda>_. None) = (hr, d')" by fastforce
  ultimately show ?thesis
    using Put_outcome(1) [OF sample_os_works _ _ refl] Put_ok_code [of sample_os sample_cache sample_key "[0x61, 0x62, 0x63]" abc_hash "\<lambda>_. None"]
    by (simp add: sample_put_def content_of_def write_at_covers sha256_abc kMaxFileSizeForAuthentication_def)
qed

theorem Put_Get_roundtrip_witness:
  "\<exists>d1 d2. sample_put = (S_OK, d1) \<and> PackageCache_Get sample_os sample_cache sample_key ''dest'' abc_hash d1 = (S_OK, d2)
     \<and> d2 ''dest'' = Some [0x61, 0x62, 0x63]"
proof -
  obtain d1 where d1: "sample_put = (S_OK, d1)" using sample_put_ok by (metis prod.collapse)
  have "SUCCEEDED (os_CopyFile sample_os p ''dest'')" for p by (simp add: sample_os_def)
  from Put_Get_roundtrip [OF d1 [unfolded sample_put_def] _ this] d1 show ?thesis by (auto simp: content_of_def)
qed

theorem Get_delivers_verified_witness:
  "\<exists>d1 hr d2. PackageCache_Get sample_os sample_cache sample_key ''dest'' abc_hash d1 = (hr, d2) \<and> SUCCEEDED hr
     \<and> (\<exists>c. d2 ''dest'' = Some c \<and> SafeHexStringToVector abc_hash = Some (sha256 c))"
proof -
  obtain d1 where d1: "sample_put = (S_OK, d1)" using sample_put_ok by (metis prod.collapse)
  from Put_done [OF d1 [unfolded sample_put_def]] obtain f where
    f: "BuildCacheFileNameForKey sample_os sample_cache sample_key = Inr f" "\<not> key_incomplete sample_key"
    "SUCCEEDED (VerifyHash sample_os d1 f abc_hash)" "d1 f = Some (write_at 0 [0x61, 0x62, 0x63] (content_of (\<lambda>_. None) f))"
    by (metis SUCCEEDED_S_OK fun_upd_same)
  then have f4: "d1 f = Some [0x61, 0x62, 0x63]" by (simp add: content_of_def write_at_covers)
  then have "PackageCache_Get sample_os sample_cache sample_key ''dest'' abc_hash d1 = (S_OK, d1(''dest'' \<mapsto> [0x61, 0x62, 0x63]))"
    using f(1-3) by (simp add: PackageCache_Get_def File_Exists_def File_Copy_def) (simp add: sample_os_def)
  from this Get_delivers_verified [OF this] show ?thesis by (metis SUCCEEDED_S_OK fun_upd_same)
qed

definition sample_listing :: os where
  "sample_listing = sample_os\<lparr>os_FindFiles := (\<lambda>_ p.
     let dir = (\<lambda>n. \<lparr>dwFileAttributes = 0x10, cFileName = n, ftCreationTime = 0, nFileSize = 0\<rparr>);
         file = (\<lambda>n t. \<lparr>dwFileAttributes = 0x20, cFileName = n, ftCreationTime = t, nFileSize = 60\<rparr>)
     in if p = ''C:'' then Inr [dir ''.'', dir ''..'', dir ''app'']
        else if p = ConcatenatePath sample_os ''C:'' ''app'' then Inr [dir ''1.0'']
        else if p = ConcatenatePath sample_os (ConcatenatePath sample_os ''C:'' ''app'') ''1.0''
        then Inr [file ''old'' 0x1D9FFF000000000, file ''new'' 0x1D9FFFF00000000]
        else Inl (win32_error 3))\<rparr>"

definition sample_found :: "PackageInfo list" where
  "sample_found = snd (FindAllPackagesInfo sample_listing (\<lambda>_. None) ''C:'')"

definition sample_files :: disk where
  "sample_files = map_of (map (\<lambda>p. (file_name p, replicate 60 0)) sample_found)"

theorem PurgeOldPackages_keeps_witness:
  "\<exists>kept removed d'. mset (kept @ removed) = mset sample_found \<and> length sample_found = 2
     \<and> PurgeOldPackagesIfNecessary sample_listing sample_cache sample_files = (S_OK, d')
     \<and> (\<forall>f. d' f = (if f \<in> file_name ` set removed then None else sample_files f)) \<and> total_size kept \<le> 100"
proof -
  have f: "FindAllPackagesInfo sample_listing sample_files (cache_root sample_cache) = (S_OK, sample_found)"
    and l: "length sample_found = 2" and z: "map file_size sample_found = [60, 60]" and n: "distinct (map file_name sample_found)"
    by code_simp+
  have "total_size sample_found = sum_list (map unat (map file_size sample_found))" by (simp add: total_size_def comp_def)
  then have t: "total_size sample_found < 2 ^ 64" unfolding z by simp
  have e: "map file_name sample_found = [''C:'' @ CHR 0x5C # ''app'' @ CHR 0x5C # ''1.0'' @ CHR 0x5C # ''old'', ''C:'' @ CHR 0x5C # ''app'' @ CHR 0x5C # ''1.0'' @ CHR 0x5C # ''new'']"
    by code_simp
  have "list_all (removable sample_listing) (map file_name sample_found)"
    unfolding e by (simp add: removable_def File_IsDirectory_def sample_listing_def ConcatenatePath_def) (simp add: sample_os_def)
  moreover have "list_all (\<lambda>f. sample_files f \<noteq> None) (map file_name sample_found)" by code_simp
  ultimately have r: "list_all (\<lambda>p. removable sample_listing (file_name p) \<and> sample_files (file_name p) \<noteq> None) sample_found"
    by (simp add: list_all_iff)
  have "unat (cache_size_limit_bytes sample_cache) = 100" by (simp add: sample_cache_def)
  with PurgeOldPackages_keeps [OF f t n r] obtain kept removed d' where "mset (kept @ removed) = mset sample_found"
    "PurgeOldPackagesIfNecessary sample_listing sample_cache sample_files = (S_OK, d')"
    "\<forall>f. d' f = (if f \<in> file_name ` set removed then None else sample_files f)" "total_size kept \<le> 100" by (elim exE conjE) simp
  with l show ?thesis by blast
qed

text \<open>Removing a file or directory changes only that file, or the files below that directory.\<close>

definition in_target :: "string \<Rightarrow> string \<Rightarrow> bool" where
  "in_target target p \<longleftrightarrow> p = target \<or> take (Suc (length target)) p = target @ [CHR 0x5C]"

definition deletes_below :: "os \<Rightarrow> bool" where
  "deletes_below os \<longleftrightarrow> (\<forall>dir d p. \<not> in_target dir p \<longrightarrow> snd (os_delete_tree os dir d) p = d p)"

lemma DeleteBeforeOrAfterReboot_frame:
  "deletes_below os \<Longrightarrow> \<not> in_target target p \<Longrightarrow> snd (DeleteBeforeOrAfterReboot os target d) p = d p"
  by (auto simp: DeleteBeforeOrAfterReboot_def DeleteDirectory_def File_Remove_def deletes_below_def in_target_def
      split: prod.splits)

lemma lower_versions_loop_frame:
  assumes "deletes_below os"
    and "\<And>e. is_lower_version v e \<Longrightarrow> \<not> in_target (ConcatenatePath os dir (cFileName e)) p"
  shows "lower_versions_loop os v dir es d p = d p"
  by (induction es arbitrary: d) (auto simp: DeleteBeforeOrAfterReboot_frame [OF assms(1)] assms(2))

text \<open>Removing the lower versions of an app removes nothing else: a file that is not in the directory of a version with a
  number below the given one, and not 0, is kept, if removing a directory removes only what is below it. Without a
  valid version nothing is removed.\<close>

theorem PurgeAppLowerVersions_keeps:
  assumes "deletes_below os"
    and "\<And>dir e. BuildCacheFileName os pc app_id [] [] = Inr dir \<Longrightarrow> is_lower_version (VersionFromString v) e \<Longrightarrow>
      \<not> in_target (ConcatenatePath os dir (cFileName e)) p"
  shows "snd (PurgeAppLowerVersions os pc app_id v d) p = d p
    \<and> (VersionFromString v = 0 \<longrightarrow> PurgeAppLowerVersions os pc app_id v d = (E_INVALIDARG, d))"
  using assms by (auto simp: PurgeAppLowerVersions_def Let_def intro: lower_versions_loop_frame split: sum.splits)

theorem PurgeAppLowerVersions_keeps_witness:
  "snd (PurgeAppLowerVersions sample_listing sample_cache ''app'' ''2.0'' [''D:'' \<mapsto> [1]]) ''D:'' = Some [1]"
proof -
  have "deletes_below sample_listing" by (simp add: deletes_below_def sample_listing_def sample_os_def)
  moreover have "BuildCacheFileName sample_listing sample_cache ''app'' [] [] = Inr dir \<Longrightarrow>
      \<not> in_target (ConcatenatePath sample_listing dir n) ''D:''" for dir n
    by (auto simp: BuildCacheFileName_def ConcatenatePath_def sample_listing_def sample_os_def sample_cache_def in_target_def)
  ultimately show ?thesis
    using PurgeAppLowerVersions_keeps [of sample_listing sample_cache "''app''" "''2.0''" "''D:''"] by simp
qed

end
