(* ===== verification/Download_Manager.thy ===== *)
theory Download_Manager
  imports App_Pings Package_Cache
begin

text \<open>
  The download manager (\<open>goopdate/download_manager.cc\<close>): the download of the packages of an app into the package
  cache, from the list of URLs, and the transitions of the app that this causes.

  The network stack is the record \<open>network\<close>, an argument of the operations. A client may stop the bundle while a
  download runs, on another thread: the operations of the app take the model lock one by one, and the stop can come
  between any two of them. A schedule, a function from the points of the download to booleans, says at
  which points the app is cancelled; a download without interference has the schedule that is False everywhere.
\<close>

section \<open>The manager\<close>

record DownloadMetrics =
  dmx_url :: string
  dmx_error :: "32 word"

record network =
  nw_create_request :: hresult
  nw_create_guid :: "hresult + string"
  nw_temp_download_dir :: string
  nw_url_combine :: "string \<Rightarrow> string \<Rightarrow> hresult + string"
  nw_download_file :: "string \<Rightarrow> hresult \<times> byte list"
  nw_download_metrics :: "string \<Rightarrow> DownloadMetrics list"
  nw_can_use_network :: bool
  nw_should_verify_authenticode :: bool
  nw_verify_authenticode :: "string \<Rightarrow> hresult"
  nw_find_extension :: "string \<Rightarrow> string"

record DownloadManager =
  dm_package_cache :: PackageCache
  dm_download_state :: "(guid \<times> bool) list"
  dm_error_extra_code1 :: "32 word"

definition ValidateSize :: "byte list \<Rightarrow> 64 word \<Rightarrow> hresult" where
  "ValidateSize source_file expected =
     (let file_size = (of_nat (length source_file) :: 32 word)
      in if file_size = 0xFFFFFFFF then E_FAIL
         else if file_size = 0 then itf_error 0x507
         else if ucast file_size < expected then itf_error 0x508
         else if expected < ucast file_size then itf_error 0x509
         else S_OK)"

definition PingEventDownloadMetrics :: "bool \<Rightarrow> ping_result \<Rightarrow> DownloadMetrics \<Rightarrow> PingEvent" where
  "PingEventDownloadMetrics upd result m =
     PingEvent4 (if upd then EVENT_UPDATE_DOWNLOAD_FINISH else EVENT_INSTALL_DOWNLOAD_FINISH) result (dmx_error m) 0"

definition AddDownloadMetricsPingEvents :: "DownloadMetrics list \<Rightarrow> App \<Rightarrow> App" where
  "AddDownloadMetricsPingEvents ms a =
     foldl (\<lambda>a m. AddPingEvent (PingEventDownloadMetrics (is_update a)
                    (if dmx_error m \<noteq> 0 then EVENT_RESULT_ERROR else EVENT_RESULT_SUCCESS) m) a) a ms"

definition FormatMessageForNetworkError :: "hresult \<Rightarrow> bool \<times> ui_message" where
  "FormatMessageForNetworkError error =
     (error \<in> {itf_error 0x801, itf_error 0x2191, itf_error 0x2193, itf_error 0x2197}, NetworkErrorMessage error)"

definition DownloadManager_GetMessageForError :: "ErrorContext \<Rightarrow> ui_message" where
  "DownloadManager_GetMessageForError ec =
     (if error_code ec \<in> {itf_error 0x204, itf_error 0x507, itf_error 0x508, itf_error 0x509, omaha_error 0x50E}
      then LoadString IDS_DOWNLOAD_HASH_MISMATCH
      else if error_code ec = omaha_error 0x50D then FormatMessage IDS_CACHING_ERROR (hex8 (extra_code1 ec))
      else if fst (FormatMessageForNetworkError (error_code ec))
      then snd (FormatMessageForNetworkError (error_code ec))
      else LoadString IDS_DOWNLOAD_ERROR)"

definition package_key :: "App \<Rightarrow> Package \<Rightarrow> Key" where
  "package_key a p = new_Key (app_guid a) (version (next_version a)) (filename p)"

definition DownloadManager_GetPackage ::
    "os \<Rightarrow> DownloadManager \<Rightarrow> App \<Rightarrow> Package \<Rightarrow> string \<Rightarrow> disk \<Rightarrow> hresult \<times> disk" where
  "DownloadManager_GetPackage os dm a p dir d =
     (case PackageCache_Get os (dm_package_cache dm) (package_key a p) (ConcatenatePath os dir (filename p))
             (expected_hash p) d of (hr, d1) \<Rightarrow> if FAILED hr then (hr, d1) else (S_OK, d1))"

definition IsPackageAvailable :: "os \<Rightarrow> DownloadManager \<Rightarrow> App \<Rightarrow> Package \<Rightarrow> disk \<Rightarrow> bool" where
  "IsPackageAvailable os dm a p d = IsCached os (dm_package_cache dm) d (package_key a p) (expected_hash p)"

definition kAuthenticodeVerifiableExtensions :: "string list" where
  "kAuthenticodeVerifiableExtensions =
     [''exe'', ''msi'', ''dll'', ''sys'', ''cab'', ''ocx'', ''xpi'', ''xap'', ''cat'', ''jar'', ''ps1'', ''psm1'',
      ''psd1'', ''ps1xml'', ''psc1'', ''acm '', ''ax'', ''cpl'', ''drv'', ''efi'', ''mui'', ''scr'', ''sys'', ''tsp'']"

definition EnsureSignatureIsValid :: "network \<Rightarrow> string \<Rightarrow> hresult" where
  "EnsureSignatureIsValid nw file_path =
     (case nw_find_extension nw file_path of
        [] \<Rightarrow> S_OK
      | _ # ext \<Rightarrow>
          if list_ex (\<lambda>e. EqualNoCase e ext) kAuthenticodeVerifiableExtensions
          then nw_verify_authenticode nw file_path else S_OK)"

definition CachePackage :: "os \<Rightarrow> network \<Rightarrow> DownloadManager \<Rightarrow> App \<Rightarrow> Package \<Rightarrow> byte list \<Rightarrow> string \<Rightarrow> disk \<Rightarrow>
    hresult \<times> DownloadManager \<times> disk" where
  "CachePackage os nw dm a p source_file source_file_path d =
     (if nw_should_verify_authenticode nw \<and> FAILED (EnsureSignatureIsValid nw source_file_path)
      then (omaha_error 0x50E, dm, d)
      else case PackageCache_Put os (dm_package_cache dm) (package_key a p) source_file (expected_hash p) d of (hr, d1) \<Rightarrow>
        if hr \<noteq> itf_error 0x204 then
          (if FAILED hr then (omaha_error 0x50D, dm\<lparr>dm_error_extra_code1 := hr\<rparr>, d1) else (hr, dm, d1))
        else
          let size_hr = ValidateSize source_file (expected_size p)
          in (if FAILED size_hr then size_hr else hr, dm, d1))"

definition BuildUniqueFileName :: "os \<Rightarrow> network \<Rightarrow> string \<Rightarrow> hresult + string" where
  "BuildUniqueFileName os nw name =
     (case nw_create_guid nw of
        Inl hr \<Rightarrow> Inl hr
      | Inr guid \<Rightarrow>
          if IsEmpty (nw_temp_download_dir nw) then Inl E_UNEXPECTED
          else
            let unique_filename = ConcatenatePath os (nw_temp_download_dir nw) (guid @ ''-'' @ name)
            in if IsEmpty unique_filename then Inl (itf_error 0x50A) else Inr unique_filename)"

definition CreateStateForApp :: "network \<Rightarrow> App \<Rightarrow> DownloadManager \<Rightarrow> hresult \<times> DownloadManager" where
  "CreateStateForApp nw a dm =
     (if FAILED (nw_create_request nw) then (nw_create_request nw, dm)
      else (S_OK, dm\<lparr>dm_download_state := dm_download_state dm @ [(app_guid a, False)]\<rparr>))"

fun delete_state :: "guid \<Rightarrow> (guid \<times> bool) list \<Rightarrow> hresult \<times> (guid \<times> bool) list" where
  "delete_state g [] = (E_UNEXPECTED, [])"
| "delete_state g ((g', c) # ss) =
     (if g = g' then (S_OK, ss) else case delete_state g ss of (hr, ss') \<Rightarrow> (hr, (g', c) # ss'))"

definition DeleteStateForApp :: "App \<Rightarrow> DownloadManager \<Rightarrow> hresult \<times> DownloadManager" where
  "DeleteStateForApp a dm =
     (case delete_state (app_guid a) (dm_download_state dm) of (hr, ss) \<Rightarrow> (hr, dm\<lparr>dm_download_state := ss\<rparr>))"

definition DownloadManager_Cancel :: "App \<Rightarrow> DownloadManager \<Rightarrow> DownloadManager" where
  "DownloadManager_Cancel a dm =
     dm\<lparr>dm_download_state := map (\<lambda>(g, c). if g = app_guid a then (g, True) else (g, c)) (dm_download_state dm)\<rparr>"

definition CancelAll :: "DownloadManager \<Rightarrow> DownloadManager" where
  "CancelAll dm = dm\<lparr>dm_download_state := map (\<lambda>(g, c). (g, True)) (dm_download_state dm)\<rparr>"

definition DownloadManager_IsBusy :: "DownloadManager \<Rightarrow> bool" where
  "DownloadManager_IsBusy dm \<longleftrightarrow> dm_download_state dm \<noteq> []"

definition DownloadManager_PurgeAppLowerVersions ::
    "os \<Rightarrow> DownloadManager \<Rightarrow> string \<Rightarrow> string \<Rightarrow> disk \<Rightarrow> hresult \<times> disk" where
  "DownloadManager_PurgeAppLowerVersions os dm = PurgeAppLowerVersions os (dm_package_cache dm)"

definition DownloadManager_Initialize ::
    "os \<Rightarrow> string \<Rightarrow> DownloadManager \<Rightarrow> disk \<Rightarrow> hresult \<times> DownloadManager \<times> disk" where
  "DownloadManager_Initialize os root dm d =
     (case PackageCache_Initialize os root (dm_package_cache dm) of (hr, pc) \<Rightarrow>
        if FAILED hr then (hr, dm, d)
        else (S_OK, dm\<lparr>dm_package_cache := pc\<rparr>, snd (PurgeOldPackagesIfNecessary os pc d)))"

section \<open>Downloading\<close>

definition DoDownloadPackageFromUrl :: "os \<Rightarrow> network \<Rightarrow> string \<Rightarrow> string \<Rightarrow> App \<Rightarrow> Package \<Rightarrow> DownloadManager \<Rightarrow> disk \<Rightarrow>
    hresult \<times> DownloadManager \<times> disk" where
  "DoDownloadPackageFromUrl os nw url name a p dm d =
     (case nw_download_file nw url of (hr, content) \<Rightarrow>
        if FAILED hr then (hr, dm, d)
        else
          let d1 = d(name \<mapsto> content)
          in if FAILED (os_open_read os name) then (os_open_read os name, dm, d1)
             else CachePackage os nw dm a p content name d1)"

text \<open>The loop over the base URLs; the result of the last attempt is kept in the first argument.\<close>

fun download_urls :: "os \<Rightarrow> network \<Rightarrow> string \<Rightarrow> Package \<Rightarrow> hresult \<Rightarrow> nat \<Rightarrow> string list \<Rightarrow>
    App \<Rightarrow> DownloadManager \<Rightarrow> disk \<Rightarrow> hresult \<times> App \<times> DownloadManager \<times> disk" where
  "download_urls os nw name p hr i [] a dm d = (hr, a, dm, d)"
| "download_urls os nw name p hr i (base # bases) a dm d =
     (case nw_url_combine nw base (filename p) of
        Inl hr1 \<Rightarrow> download_urls os nw name p hr1 (Suc i) bases a dm d
      | Inr url \<Rightarrow>
          case DoDownloadPackageFromUrl os nw url name a p dm d of (hr1, dm1, d1) \<Rightarrow>
            let a1 = AddDownloadMetricsPingEvents (nw_download_metrics nw url) a
            in if SUCCEEDED hr1 then (hr1, a1\<lparr>source_url_index := int i\<rparr>, dm1, d1)
               else download_urls os nw name p hr1 (Suc i) bases a1 dm1 d1)"

definition DoDownloadPackage :: "os \<Rightarrow> network \<Rightarrow> app_env \<Rightarrow> Package \<Rightarrow> App \<Rightarrow> DownloadManager \<Rightarrow> disk \<Rightarrow>
    hresult \<times> App \<times> DownloadManager \<times> disk" where
  "DoDownloadPackage os nw env p a dm d =
     (if IsEmpty (app_guid a) \<or> IsEmpty (filename p) then (E_INVALIDARG, a, dm, d)
      else if IsCached os (dm_package_cache dm) d (package_key a p) (expected_hash p) then (S_OK, a, dm, d)
      else if is_eula_accepted a \<noteq> TRISTATE_TRUE then (itf_error 0x816, a, dm, d)
      else if \<not> nw_can_use_network nw then (itf_error 0x815, a, dm, d)
      else case BuildUniqueFileName os nw (filename p) of
             Inl hr \<Rightarrow> (hr, a, dm, d)
           | Inr name \<Rightarrow>
               case download_urls os nw name p E_FAIL 0 (download_base_urls (next_version a))
                      (SetCurrentTimeAs env TIME_DOWNLOAD_START a) dm d of (hr, a1, dm1, d1) \<Rightarrow>
                 let d2 = snd (DeleteBeforeOrAfterReboot os name d1);
                     a2 = SetCurrentTimeAs env TIME_DOWNLOAD_COMPLETE a1
                 in if FAILED hr then (hr, a2, dm1, d2)
                    else (S_OK, UpdateNumBytesDownloaded (expected_size p) a2, dm1, d2))"

text \<open>A stop of the bundle by a client, at a point of the schedule.\<close>

definition interfere :: "app_env \<Rightarrow> (nat \<Rightarrow> bool) \<Rightarrow> nat \<Rightarrow> App \<Rightarrow> App" where
  "interfere env sched k a = (if sched k then App_Cancel env a else a)"

fun download_packages :: "os \<Rightarrow> network \<Rightarrow> app_env \<Rightarrow> (nat \<Rightarrow> bool) \<Rightarrow> nat \<Rightarrow> Package list \<Rightarrow>
    App \<Rightarrow> DownloadManager \<Rightarrow> disk \<Rightarrow> hresult \<times> App \<times> DownloadManager \<times> disk" where
  "download_packages os nw env sched k [] a dm d = (S_OK, interfere env sched k a, dm, d)"
| "download_packages os nw env sched k (p # ps) a dm d =
     (case DoDownloadPackage os nw env p (interfere env sched k a) dm d of (hr, a1, dm1, d1) \<Rightarrow>
        if FAILED hr then (hr, a1, dm1, d1) else download_packages os nw env sched (Suc k) ps a1 dm1 d1)"

text \<open>The transitions of the app at the end of its download.\<close>

definition finish_download :: "app_env \<Rightarrow> (nat \<Rightarrow> bool) \<Rightarrow> hresult \<Rightarrow> 32 word \<Rightarrow> App \<Rightarrow> App" where
  "finish_download env sched hr extra a =
     (if SUCCEEDED hr then App_MarkReadyToInstall env (interfere env sched 1 (App_DownloadComplete env a))
      else let ec = \<lparr>error_code = hr, extra_code1 = extra\<rparr>
           in App_Error env ec (DownloadManager_GetMessageForError ec) (interfere env sched 1 a))"

definition DownloadApp :: "os \<Rightarrow> network \<Rightarrow> app_env \<Rightarrow> (nat \<Rightarrow> bool) \<Rightarrow> App \<Rightarrow> DownloadManager \<Rightarrow> disk \<Rightarrow>
    hresult \<times> App \<times> DownloadManager \<times> disk" where
  "DownloadApp os nw env sched a dm d =
     (case CreateStateForApp nw a dm of (hr, dm1) \<Rightarrow>
        if FAILED hr then (hr, a, dm1, d)
        else case download_packages os nw env (\<lambda>k. sched (Suc (Suc k))) 0 (packages (next_version a))
                    (App_Downloading env (interfere env sched 0 a)) dm1 d of (hr, a1, dm2, d1) \<Rightarrow>
          let a2 = finish_download env sched hr (dm_error_extra_code1 dm2) a1
          in (hr, a2, snd (DeleteStateForApp a2 dm2), d1))"

section \<open>What a download changes\<close>

definition ident :: "App \<Rightarrow> guid \<times> AppVersion \<times> Tristate \<times> bool \<times> bool" where
  "ident a = (app_guid a, next_version a, is_eula_accepted a, is_update a, has_update_available a)"

definition outcome :: "App \<Rightarrow> CurrentState \<times> ErrorContext \<times> ping_result \<times> ui_message \<times> (ping_type \<times> ping_result) list" where
  "outcome a = (app_state a, error_context a, completion_result a, completion_message a, completions a)"

lemmas app_view_defs = ident_def outcome_def completions_def

lemma AddPingEvent_view:
  "ident (AddPingEvent p a) = ident a"
  "\<not> is_completion p \<Longrightarrow> outcome (AddPingEvent p a) = outcome a"
  by (simp_all add: app_view_defs AddPingEvent_def app_simps)

lemma metrics_view:
  "ident (AddDownloadMetricsPingEvents ms a) = ident a" "outcome (AddDownloadMetricsPingEvents ms a) = outcome a"
proof -
  have "\<not> is_completion (PingEventDownloadMetrics u r m)" for u r m
    by (simp add: PingEventDownloadMetrics_def PingEvent4_def is_completion_def)
  then show "ident (AddDownloadMetricsPingEvents ms a) = ident a" "outcome (AddDownloadMetricsPingEvents ms a) = outcome a"
    unfolding AddDownloadMetricsPingEvents_def
    by (induction ms arbitrary: a) (simp_all add: AddPingEvent_view)
qed

lemma download_setters_view:
  "ident (SetCurrentTimeAs env t a) = ident a" "outcome (SetCurrentTimeAs env t a) = outcome a"
  "ident (UpdateNumBytesDownloaded n a) = ident a" "outcome (UpdateNumBytesDownloaded n a) = outcome a"
  "ident (a\<lparr>source_url_index := i\<rparr>) = ident a" "outcome (a\<lparr>source_url_index := i\<rparr>) = outcome a"
  by (simp_all add: app_view_defs SetCurrentTimeAs_def UpdateNumBytesDownloaded_def)

lemma transition_parts_ident:
  "ident (ChangeState env st a) = ident a" "ident (SetError ec m a) = ident a" "ident (a\<lparr>state_cancelled := st\<rparr>) = ident a"
  by (simp_all add: ident_def app_simps) (simp add: SetError_def Let_def)

lemma transitions_ident:
  "ident (App_Cancel env a) = ident a" "ident (App_Downloading env a) = ident a"
  "ident (App_DownloadComplete env a) = ident a" "ident (App_MarkReadyToInstall env a) = ident a"
  "ident (App_Error env ec m a) = ident a"
  by (simp_all add: App_Cancel_def AppState_Cancel_def App_Downloading_def App_DownloadComplete_def App_MarkReadyToInstall_def
      App_Error_def HandleInvalidStateTransition_def AppState_Error_def Let_def transition_parts_ident download_setters_view
      split: CurrentState.split)

lemma interfere_ident: "ident (interfere env sched k a) = ident a"
  by (simp add: interfere_def transitions_ident)

definition dm_view :: "DownloadManager \<Rightarrow> PackageCache \<times> (guid \<times> bool) list" where
  "dm_view dm = (dm_package_cache dm, dm_download_state dm)"

lemma CachePackage_view: "CachePackage os nw dm a p src path d = (hr, dm', d') \<Longrightarrow> dm_view dm' = dm_view dm"
  by (auto simp: CachePackage_def dm_view_def Let_def split: if_splits prod.splits)

lemma DoDownloadPackageFromUrl_view:
  "DoDownloadPackageFromUrl os nw url name a p dm d = (hr, dm', d') \<Longrightarrow> dm_view dm' = dm_view dm"
  by (auto simp: DoDownloadPackageFromUrl_def Let_def split: if_splits prod.splits dest: CachePackage_view)

lemma download_urls_view:
  "download_urls os nw name p hr i bases a dm d = (hr', a', dm', d') \<Longrightarrow>
     ident a' = ident a \<and> outcome a' = outcome a \<and> dm_view dm' = dm_view dm"
proof (induction bases arbitrary: hr i a dm d)
  case (Cons b bases)
  show ?case
  proof (cases "nw_url_combine nw b (filename p)")
    case (Inr url)
    obtain hr1 dm1 d1 where u: "DoDownloadPackageFromUrl os nw url name a p dm d = (hr1, dm1, d1)"
      by (metis prod_cases3)
    from DoDownloadPackageFromUrl_view [OF u] have "dm_view dm1 = dm_view dm" .
    with Cons.prems Inr u Cons.IH [of hr1 "Suc i" "AddDownloadMetricsPingEvents (nw_download_metrics nw url) a" dm1 d1] show ?thesis
      by (auto simp: Let_def metrics_view download_setters_view split: if_splits)
  qed (use Cons in auto)
qed simp

lemma DoDownloadPackage_view:
  "DoDownloadPackage os nw env p a dm d = (hr, a', dm', d') \<Longrightarrow>
     ident a' = ident a \<and> outcome a' = outcome a \<and> dm_view dm' = dm_view dm"
  by (auto simp: DoDownloadPackage_def Let_def download_setters_view
      split: if_splits sum.splits prod.splits dest!: download_urls_view)

lemma download_packages_view:
  "download_packages os nw env sched k ps a dm d = (hr, a', dm', d') \<Longrightarrow> ident a' = ident a \<and> dm_view dm' = dm_view dm"
proof (induction ps arbitrary: k a dm d)
  case (Cons p ps)
  obtain hr1 a1 dm1 d1 where p: "DoDownloadPackage os nw env p (interfere env sched k a) dm d = (hr1, a1, dm1, d1)"
    by (metis prod_cases4)
  with Cons.prems Cons.IH [of "Suc k" a1 dm1 d1] DoDownloadPackage_view [OF p] show ?case
    by (auto simp: interfere_ident split: if_splits)
qed (auto simp: interfere_ident)

lemma state_of_outcome: "outcome a' = outcome a \<Longrightarrow> app_state a' = app_state a"
  by (simp add: outcome_def)

definition cancelled :: "App \<Rightarrow> bool" where
  "cancelled a \<longleftrightarrow> app_state a = STATE_ERROR \<and> error_code (error_context a) = itf_error 0x810
     \<and> completion_result a = EVENT_RESULT_CANCELLED"

lemma cancelled_outcome: "outcome a' = outcome a \<Longrightarrow> cancelled a' = cancelled a"
  by (simp add: outcome_def cancelled_def)

lemma cancel_downloading:
  "app_state a \<in> {STATE_WAITING_TO_DOWNLOAD, STATE_DOWNLOADING, STATE_DOWNLOAD_COMPLETE} \<Longrightarrow> cancelled (App_Cancel env a)"
  by (auto simp: cancelled_def App_Cancel_def AppState_Cancel_def Let_def app_simps ErrorContext1_def)

lemma error_absorbs:
  assumes "app_state a = STATE_ERROR"
  shows "App_Cancel env a = a" "App_DownloadComplete env a = a" "App_MarkReadyToInstall env a = a" "App_Error env ec m a = a"
    "interfere env sched k a = a"
  using assms
  by (simp_all add: App_Cancel_def App_DownloadComplete_def App_MarkReadyToInstall_def App_Error_def interfere_def)

lemma download_packages_error:
  "download_packages os nw env sched k ps a dm d = (hr, a', dm', d') \<Longrightarrow> app_state a = STATE_ERROR \<Longrightarrow> outcome a' = outcome a"
proof (induction ps arbitrary: k a dm d)
  case (Cons p ps)
  obtain hr1 a1 dm1 d1 where p: "DoDownloadPackage os nw env p a dm d = (hr1, a1, dm1, d1)" by (metis prod_cases4)
  with DoDownloadPackage_view [OF p] have o: "outcome a1 = outcome a" by simp
  with Cons.prems Cons.IH [of "Suc k" a1 dm1 d1] p state_of_outcome [OF o] show ?case
    by (auto simp: error_absorbs split: if_splits)
qed (simp add: error_absorbs)

lemma all_le_Suc: "(\<forall>j\<le>Suc n. P j) \<longleftrightarrow> P 0 \<and> (\<forall>j\<le>n. P (Suc j))"
  by (simp only: less_Suc_eq_le [symmetric] All_less_Suc2)

lemma ex_le_Suc: "(\<exists>j\<le>Suc n. P j) \<longleftrightarrow> P 0 \<or> (\<exists>j\<le>n. P (Suc j))"
  using all_le_Suc [of n "\<lambda>j. \<not> P j"] by blast

lemma download_packages_downloading:
  assumes "download_packages os nw env sched k ps a dm d = (hr, a', dm', d')" and "app_state a = STATE_DOWNLOADING"
  shows "(outcome a' = outcome a \<and> (SUCCEEDED hr \<longrightarrow> (\<forall>j\<le>length ps. \<not> sched (k + j))))
     \<or> (cancelled a' \<and> (\<exists>j\<le>length ps. sched (k + j)))"
  using assms
proof (induction ps arbitrary: k a dm d)
  case Nil
  then show ?case by (auto simp: interfere_def cancel_downloading)
next
  case (Cons p ps)
  show ?case
  proof (cases "sched k")
    case True
    have c: "cancelled (App_Cancel env a)" using Cons.prems(2) by (simp add: cancel_downloading)
    then have e: "app_state (App_Cancel env a) = STATE_ERROR" by (simp add: cancelled_def)
    have "download_packages os nw env sched k (p # ps) (App_Cancel env a) dm d = (hr, a', dm', d')"
      using Cons.prems(1) True by (simp add: interfere_def error_absorbs(1) [OF e])
    from cancelled_outcome [OF download_packages_error [OF this e]] c have "cancelled a'" by simp
    then show ?thesis using True by (auto simp: ex_le_Suc)
  next
    case False
    obtain hr1 a1 dm1 d1 where p: "DoDownloadPackage os nw env p a dm d = (hr1, a1, dm1, d1)" by (metis prod_cases4)
    from DoDownloadPackage_view [OF p] have o: "outcome a1 = outcome a" by simp
    show ?thesis
    proof (cases "SUCCEEDED hr1")
      case True
      with Cons.prems(1) p False have "download_packages os nw env sched (Suc k) ps a1 dm1 d1 = (hr, a', dm', d')"
        by (simp add: interfere_def)
      moreover have "app_state a1 = STATE_DOWNLOADING" using o Cons.prems(2) by (simp add: outcome_def)
      ultimately have "(outcome a' = outcome a1 \<and> (SUCCEEDED hr \<longrightarrow> (\<forall>j\<le>length ps. \<not> sched (Suc k + j))))
          \<or> (cancelled a' \<and> (\<exists>j\<le>length ps. sched (Suc k + j)))"
        by (rule Cons.IH)
      then show ?thesis using o False by (simp add: all_le_Suc ex_le_Suc)
    next
      case n: False
      with Cons.prems(1) p False o show ?thesis by (simp add: interfere_def)
    qed
  qed
qed

section \<open>The outcome of a download\<close>

lemma delete_state_appended:
  "g \<notin> fst ` set ss \<Longrightarrow> delete_state g (ss @ [(g, c)]) = (S_OK, ss)"
  by (induction ss) auto

text \<open>The parts of a download.\<close>

abbreviation add_state :: "App \<Rightarrow> DownloadManager \<Rightarrow> DownloadManager" where
  "add_state a dm \<equiv> dm\<lparr>dm_download_state := dm_download_state dm @ [(app_guid a, False)]\<rparr>"

lemma DownloadApp_parts:
  assumes "DownloadApp os nw env sched a dm d = (hr, a', dm', d')" and "SUCCEEDED (nw_create_request nw)"
  obtains a1 dm2 where
    "download_packages os nw env (\<lambda>k. sched (Suc (Suc k))) 0 (packages (next_version a))
       (App_Downloading env (interfere env sched 0 a)) (add_state a dm) d = (hr, a1, dm2, d')"
    and "dm' = snd (DeleteStateForApp a' dm2)" and "a' = finish_download env sched hr (dm_error_extra_code1 dm2) a1"
proof -
  obtain hr1 a1 dm2 d1 where p: "download_packages os nw env (\<lambda>k. sched (Suc (Suc k))) 0 (packages (next_version a))
      (App_Downloading env (interfere env sched 0 a)) (add_state a dm) d = (hr1, a1, dm2, d1)" by (metis prod_cases4)
  have "CreateStateForApp nw a dm = (S_OK, add_state a dm)" using assms(2) by (simp add: CreateStateForApp_def)
  then have "hr1 = hr \<and> d1 = d' \<and> dm' = snd (DeleteStateForApp a' dm2) \<and> a' = finish_download env sched hr (dm_error_extra_code1 dm2) a1"
    using assms(1) p by (simp add: DownloadApp_def Let_def) blast
  with p show ?thesis by (intro that [of a1 dm2]) simp_all
qed

definition undisturbed :: "(nat \<Rightarrow> bool) \<Rightarrow> nat \<Rightarrow> bool" where
  "undisturbed sched n \<longleftrightarrow> list_all (\<lambda>k. \<not> sched k) [0..<n + 3]"

lemma undisturbed_iff: "undisturbed sched n \<longleftrightarrow> \<not> sched 0 \<and> \<not> sched 1 \<and> (\<forall>j\<le>n. \<not> sched (Suc (Suc j)))"
proof -
  have "undisturbed sched n \<longleftrightarrow> (\<forall>k < Suc (Suc (Suc n)). \<not> sched k)"
    by (auto simp: undisturbed_def list_all_iff simp del: upt_Suc)
  then show ?thesis by (simp only: All_less_Suc2 less_Suc_eq_le [symmetric]) simp
qed

lemma finish_download_downloading:
  assumes "app_state a = STATE_DOWNLOADING"
  shows "app_state (finish_download env sched hr x a) = (if SUCCEEDED hr \<and> \<not> sched 1 then STATE_READY_TO_INSTALL else STATE_ERROR)"
proof (cases "SUCCEEDED hr")
  case True
  have "app_state (App_DownloadComplete env a) = STATE_DOWNLOAD_COMPLETE"
    using assms by (simp add: App_DownloadComplete_def app_simps)
  then show ?thesis
    using True cancel_downloading [of "App_DownloadComplete env a" env]
    by (simp add: finish_download_def interfere_def App_MarkReadyToInstall_def app_simps cancelled_def)
next
  case False
  then show ?thesis
    using assms cancel_downloading [of a env]
    by (simp add: finish_download_def Let_def interfere_def App_Error_def app_simps cancelled_def AppState_Error_def)
qed

lemma finish_download_error: "app_state a = STATE_ERROR \<Longrightarrow> finish_download env sched hr x a = a"
  by (simp add: finish_download_def Let_def error_absorbs)

lemma finish_download_ident: "ident (finish_download env sched hr x a) = ident a"
  by (simp add: finish_download_def Let_def transitions_ident interfere_ident)

lemma DownloadApp_state:
  assumes "app_state a = STATE_WAITING_TO_DOWNLOAD" and "SUCCEEDED (nw_create_request nw)"
    and "DownloadApp os nw env sched a dm d = (hr, a', dm', d')"
  shows "app_state a' =
    (if SUCCEEDED hr \<and> undisturbed sched (length (packages (next_version a))) then STATE_READY_TO_INSTALL else STATE_ERROR)"
proof -
  let ?b = "App_Downloading env (interfere env sched 0 a)" and ?n = "length (packages (next_version a))"
  from DownloadApp_parts [OF assms(3,2)] obtain a1 dm2 where
    p: "download_packages os nw env (\<lambda>k. sched (Suc (Suc k))) 0 (packages (next_version a)) ?b (add_state a dm) d = (hr, a1, dm2, d')"
    and f: "a' = finish_download env sched hr (dm_error_extra_code1 dm2) a1"
    by metis
  show ?thesis
  proof (cases "sched 0")
    case True
    then have e: "app_state ?b = STATE_ERROR"
      using cancel_downloading [of a env] assms(1)
      by (simp add: interfere_def cancelled_def App_Downloading_def HandleInvalidStateTransition_def AppState_Error_def app_simps)
    from download_packages_error [OF p e] e have "app_state a1 = STATE_ERROR" by (simp add: outcome_def)
    then show ?thesis using f True by (simp add: undisturbed_iff finish_download_error)
  next
    case False
    then have b: "app_state ?b = STATE_DOWNLOADING"
      using assms(1) by (simp add: interfere_def App_Downloading_def app_simps)
    from download_packages_downloading [OF p b] consider
        "app_state a1 = STATE_DOWNLOADING" "SUCCEEDED hr \<longrightarrow> (\<forall>j\<le>?n. \<not> sched (Suc (Suc j)))"
      | "app_state a1 = STATE_ERROR" "\<exists>j\<le>?n. sched (Suc (Suc j))"
      using b by (auto simp: outcome_def cancelled_def)
    then show ?thesis
      using False f by cases (auto simp: undisturbed_iff finish_download_downloading finish_download_error)
  qed
qed

lemma DownloadApp_manager:
  assumes "SUCCEEDED (nw_create_request nw)" and "app_guid a \<notin> fst ` set (dm_download_state dm)"
    and "DownloadApp os nw env sched a dm d = (hr, a', dm', d')"
  shows "dm_view dm' = dm_view dm \<and> ident a' = ident a"
proof -
  from DownloadApp_parts [OF assms(3,1)] obtain a1 dm2 where
    p: "download_packages os nw env (\<lambda>k. sched (Suc (Suc k))) 0 (packages (next_version a))
       (App_Downloading env (interfere env sched 0 a)) (add_state a dm) d = (hr, a1, dm2, d')"
    and d: "dm' = snd (DeleteStateForApp a' dm2)" and f: "a' = finish_download env sched hr (dm_error_extra_code1 dm2) a1"
    by metis
  from download_packages_view [OF p] have v: "ident a1 = ident a" "dm_view dm2 = dm_view (add_state a dm)"
    by (simp_all add: transitions_ident interfere_ident)
  then have i: "ident a' = ident a" using f by (simp add: finish_download_ident)
  then have "app_guid a' = app_guid a" by (simp add: ident_def)
  then show ?thesis
    using v(2) i d delete_state_appended [OF assms(2)] by (simp add: DeleteStateForApp_def dm_view_def)
qed

section \<open>The packages of a downloaded app\<close>

lemma package_key_ident: "ident a' = ident a \<Longrightarrow> package_key a' p = package_key a p"
  by (simp add: ident_def package_key_def)

abbreviation cache_file :: "os \<Rightarrow> PackageCache \<Rightarrow> App \<Rightarrow> Package \<Rightarrow> hresult + string" where
  "cache_file os pc a p \<equiv> BuildCacheFileNameForKey os pc (package_key a p)"

lemma CachePackage_disk:
  assumes "CachePackage os nw dm a p src path d = (hr, dm', d')"
  shows "cache_file os (dm_package_cache dm) a p \<noteq> Inr f \<Longrightarrow> d' f = d f"
    and "SUCCEEDED hr \<Longrightarrow> IsCached os (dm_package_cache dm) d' (package_key a p) (expected_hash p)"
proof -
  obtain hr1 d1 where p: "PackageCache_Put os (dm_package_cache dm) (package_key a p) src (expected_hash p) d = (hr1, d1)"
    by fastforce
  show "d' f = d f" if "cache_file os (dm_package_cache dm) a p \<noteq> Inr f"
    using assms pc.put_frame [OF p that] p by (auto simp: CachePackage_def Let_def split: if_splits)
  show "IsCached os (dm_package_cache dm) d' (package_key a p) (expected_hash p)" if "SUCCEEDED hr"
    using assms pc.put_cached [OF p] p that
    by (auto simp: CachePackage_def Let_def hresult_defs split: if_splits)
qed

lemma DoDownloadPackageFromUrl_disk:
  assumes "DoDownloadPackageFromUrl os nw url name a p dm d = (hr, dm', d')"
  shows "cache_file os (dm_package_cache dm) a p \<noteq> Inr f \<Longrightarrow> f \<noteq> name \<Longrightarrow> d' f = d f"
    and "SUCCEEDED hr \<Longrightarrow> IsCached os (dm_package_cache dm) d' (package_key a p) (expected_hash p)"
proof -
  consider "d' = d" "\<not> SUCCEEDED hr" | c where "d' = d(name \<mapsto> c)" "\<not> SUCCEEDED hr"
    | c where "CachePackage os nw dm a p c name (d(name \<mapsto> c)) = (hr, dm', d')"
    using assms by (auto simp: DoDownloadPackageFromUrl_def Let_def split: if_splits prod.splits)
  then show "cache_file os (dm_package_cache dm) a p \<noteq> Inr f \<Longrightarrow> f \<noteq> name \<Longrightarrow> d' f = d f"
    and "SUCCEEDED hr \<Longrightarrow> IsCached os (dm_package_cache dm) d' (package_key a p) (expected_hash p)"
    by (cases; auto dest: CachePackage_disk(1) CachePackage_disk(2))+
qed

lemma download_urls_disk:
  assumes "download_urls os nw name p hr i bases a dm d = (hr', a', dm', d')"
  shows "(cache_file os (dm_package_cache dm) a p \<noteq> Inr f \<longrightarrow> f \<noteq> name \<longrightarrow> d' f = d f)
    \<and> (SUCCEEDED hr' \<longrightarrow> \<not> SUCCEEDED hr \<longrightarrow> (\<forall>b s hr. nw_url_combine nw b s = Inl hr \<longrightarrow> \<not> SUCCEEDED hr) \<longrightarrow>
         IsCached os (dm_package_cache dm) d' (package_key a p) (expected_hash p))"
  using assms
proof (induction bases arbitrary: hr i a dm d)
  case (Cons b bases)
  show ?case
  proof (cases "nw_url_combine nw b (filename p)")
    case (Inr url)
    obtain hr1 dm1 d1 where u: "DoDownloadPackageFromUrl os nw url name a p dm d = (hr1, dm1, d1)"
      by (metis prod_cases3)
    have v: "dm_package_cache dm1 = dm_package_cache dm"
      using DoDownloadPackageFromUrl_view [OF u] by (simp add: dm_view_def)
    let ?a = "AddDownloadMetricsPingEvents (nw_download_metrics nw url) a"
    have k: "package_key ?a p = package_key a p" by (rule package_key_ident) (rule metrics_view)
    show ?thesis
    proof (cases "SUCCEEDED hr1")
      case True
      with Cons.prems Inr u DoDownloadPackageFromUrl_disk [OF u] show ?thesis by (auto simp: Let_def)
    next
      case False
      with Cons.prems Inr u have "download_urls os nw name p hr1 (Suc i) bases ?a dm1 d1 = (hr', a', dm', d')"
        by (simp add: Let_def)
      from Cons.IH [OF this] False DoDownloadPackageFromUrl_disk(1) [OF u] show ?thesis by (auto simp: v k)
    qed
  next
    case (Inl hr1)
    with Cons.prems Cons.IH [of hr1 "Suc i" a dm d] show ?thesis by auto
  qed
qed simp

text \<open>The temporary files of a download are not files of the cache, and joining URLs and deleting directories behave as documented.\<close>

definition separate :: "os \<Rightarrow> network \<Rightarrow> PackageCache \<Rightarrow> App \<Rightarrow> bool" where
  "separate os nw pc a \<longleftrightarrow> deletes_below os
     \<and> (\<forall>b s hr. nw_url_combine nw b s = Inl hr \<longrightarrow> \<not> SUCCEEDED hr)
     \<and> (\<forall>hr. nw_create_guid nw = Inl hr \<longrightarrow> \<not> SUCCEEDED hr)
     \<and> (\<forall>p f s name. cache_file os pc a p = Inr f \<longrightarrow> BuildUniqueFileName os nw s = Inr name \<longrightarrow> \<not> in_target name f)"

lemma separate_ident: "ident a' = ident a \<Longrightarrow> separate os nw pc a \<Longrightarrow> separate os nw pc a'"
  by (simp add: separate_def package_key_ident [of a' a])

lemma BuildUniqueFileName_error:
  "separate os nw pc a \<Longrightarrow> BuildUniqueFileName os nw s = Inl hr \<Longrightarrow> \<not> SUCCEEDED hr"
  by (auto simp: BuildUniqueFileName_def separate_def Let_def hresult_defs split: sum.splits if_splits)

lemma DoDownloadPackage_disk:
  assumes "DoDownloadPackage os nw env p a dm d = (hr, a', dm', d')" and s: "separate os nw (dm_package_cache dm) a"
  shows "(\<forall>q f. cache_file os (dm_package_cache dm) a q = Inr f \<longrightarrow> cache_file os (dm_package_cache dm) a p \<noteq> Inr f \<longrightarrow> d' f = d f)
    \<and> (SUCCEEDED hr \<longrightarrow> IsCached os (dm_package_cache dm) d' (package_key a p) (expected_hash p))"
proof (cases "d' = d \<and> (SUCCEEDED hr \<longrightarrow> IsCached os (dm_package_cache dm) d (package_key a p) (expected_hash p))")
  case False
  let ?pc = "dm_package_cache dm" and ?a = "SetCurrentTimeAs env TIME_DOWNLOAD_START a"
  have k: "package_key ?a p = package_key a p" by (rule package_key_ident) (rule download_setters_view)
  from False assms(1) obtain name hr1 a1 dm1 d1 where name: "BuildUniqueFileName os nw (filename p) = Inr name"
    and u: "download_urls os nw name p E_FAIL 0 (download_base_urls (next_version a)) ?a dm d = (hr1, a1, dm1, d1)"
    and d': "d' = snd (DeleteBeforeOrAfterReboot os name d1)" and hr: "SUCCEEDED hr \<longleftrightarrow> SUCCEEDED hr1"
    by (auto simp: DoDownloadPackage_def Let_def hresult_defs split: if_splits sum.splits prod.splits
        dest: BuildUniqueFileName_error [OF s])
  have del: "d' f = d1 f" if "cache_file os ?pc a q = Inr f" for q f
    using s name that unfolding d' by (intro DeleteBeforeOrAfterReboot_frame) (auto simp: separate_def)
  have neq: "f \<noteq> name" if "cache_file os ?pc a q = Inr f" for q f
    using s name that by (auto simp: separate_def in_target_def)
  note urls = download_urls_disk [OF u, unfolded k]
  have "IsCached os ?pc d1 (package_key a p) (expected_hash p)" if "SUCCEEDED hr"
    using urls that hr s by (auto simp: separate_def)
  then have "SUCCEEDED hr \<longrightarrow> IsCached os ?pc d' (package_key a p) (expected_hash p)"
    using pc.cached_frame [of os ?pc d1 "package_key a p" "expected_hash p" d'] del by blast
  with urls del neq show ?thesis by metis
qed simp

lemma download_packages_cached:
  assumes "download_packages os nw env sched k ps a dm d = (hr, a', dm', d')" and "SUCCEEDED hr"
    and "separate os nw pc a" and "dm_package_cache dm = pc"
    and "distinct (map (cache_file os pc a) (qs @ ps))"
    and "list_all (\<lambda>q. IsCached os pc d (package_key a q) (expected_hash q)) qs"
  shows "list_all (\<lambda>q. IsCached os pc d' (package_key a q) (expected_hash q)) (qs @ ps)"
  using assms
proof (induction ps arbitrary: k a dm d qs)
  case (Cons p ps)
  let ?a = "interfere env sched k a"
  obtain hr1 a1 dm1 d1 where p: "DoDownloadPackage os nw env p ?a dm d = (hr1, a1, dm1, d1)" by (metis prod_cases4)
  have ok: "SUCCEEDED hr1" and r: "download_packages os nw env sched (Suc k) ps a1 dm1 d1 = (hr, a', dm', d')"
    using Cons.prems(1,2) p by (auto split: if_splits)
  from DoDownloadPackage_view [OF p] have i: "ident a1 = ident a" and v: "dm_package_cache dm1 = pc"
    using Cons.prems(4) by (auto simp: interfere_ident dm_view_def)
  have k: "package_key a1 q = package_key a q" "package_key ?a q = package_key a q" for q
    using i by (auto intro!: package_key_ident simp: interfere_ident)
  have s: "separate os nw (dm_package_cache dm) ?a"
    using Cons.prems(3,4) separate_ident [OF interfere_ident] by simp
  note disk = DoDownloadPackage_disk [OF p s, unfolded k Cons.prems(4)]
  have "IsCached os pc d1 (package_key a q) (expected_hash q)" if "q \<in> set qs" for q
  proof (rule pc.cached_frame)
    show "IsCached os pc d (package_key a q) (expected_hash q)" using Cons.prems(6) that by (simp add: list_all_iff)
    show "d1 f = d f" if "cache_file os pc a q = Inr f" for f
    proof -
      have "cache_file os pc a p \<noteq> cache_file os pc a q" using Cons.prems(5) \<open>q \<in> set qs\<close> by (auto simp: image_iff)
      with disk that show ?thesis by auto
    qed
  qed
  with disk ok have "list_all (\<lambda>q. IsCached os pc d1 (package_key a1 q) (expected_hash q)) (qs @ [p])"
    by (auto simp: list_all_iff k)
  moreover have "distinct (map (cache_file os pc a1) ((qs @ [p]) @ ps))" using Cons.prems(5) by (simp add: k)
  ultimately have "list_all (\<lambda>q. IsCached os pc d' (package_key a1 q) (expected_hash q)) ((qs @ [p]) @ ps)"
    using Cons.IH [OF r Cons.prems(2) separate_ident [OF i Cons.prems(3)] v] by blast
  then show ?case by (simp add: k)
qed simp

text \<open>C15. The contract that the worker asserts of a download: whatever the network does and whenever a client stops the bundle,
  the app leaves the state waiting-to-download for ready-to-install or for error. It is ready exactly if the
  download succeeded and was not stopped, and the manager no longer holds a state for it. It is assumed that the manager can create its state
  for the app, that is, its network request; \<open>download_left_waiting\<close> in \<open>Worker\<close> shows what happens otherwise.\<close>

theorem DownloadApp_contract:
  assumes "app_state a = STATE_WAITING_TO_DOWNLOAD" and "SUCCEEDED (nw_create_request nw)"
    and "app_guid a \<notin> fst ` set (dm_download_state dm)"
    and "DownloadApp os nw env sched a dm d = (hr, a', dm', d')"
  shows "app_state a' =
      (if SUCCEEDED hr \<and> undisturbed sched (length (packages (next_version a))) then STATE_READY_TO_INSTALL else STATE_ERROR)
    \<and> dm_download_state dm' = dm_download_state dm"
  using DownloadApp_state [OF assms(1,2,4)] DownloadApp_manager [OF assms(2-4)] by (simp add: dm_view_def)

lemma DownloadApp_cached:
  assumes "SUCCEEDED (nw_create_request nw)" and "app_guid a \<notin> fst ` set (dm_download_state dm)"
    and "separate os nw (dm_package_cache dm) a"
    and "distinct (map (cache_file os (dm_package_cache dm) a) (packages (next_version a)))"
    and "DownloadApp os nw env sched a dm d = (hr, a', dm', d')" and "SUCCEEDED hr"
  shows "list_all (\<lambda>p. IsPackageAvailable os dm' a' p d') (packages (next_version a'))"
proof -
  let ?pc = "dm_package_cache dm" and ?b = "App_Downloading env (interfere env sched 0 a)"
  from DownloadApp_parts [OF assms(5,1)] obtain a1 dm2 where
    p: "download_packages os nw env (\<lambda>k. sched (Suc (Suc k))) 0 (packages (next_version a)) ?b (add_state a dm) d = (hr, a1, dm2, d')"
    by metis
  have ib: "ident ?b = ident a" by (simp add: transitions_ident interfere_ident)
  then have kb: "package_key ?b q = package_key a q" for q by (rule package_key_ident)
  have c: "list_all (\<lambda>q. IsCached os ?pc d' (package_key a q) (expected_hash q)) (packages (next_version a))"
    using download_packages_cached [OF p assms(6) separate_ident [OF ib assms(3)], of "[]"] assms(4) by (simp add: kb)
  from DownloadApp_manager [OF assms(1,2,5)] have v: "dm_package_cache dm' = ?pc" and i: "ident a' = ident a"
    by (simp_all add: dm_view_def)
  have "next_version a' = next_version a" using i by (simp add: ident_def)
  with c v show ?thesis by (simp add: IsPackageAvailable_def package_key_ident [OF i])
qed

text \<open>C8. An app that is ready to install has all its packages: each of them is in the cache, with the expected SHA-256, whatever
  the servers sent, provided that the packages have different cache files and that the temporary download directory is not part
  of the cache.\<close>

theorem DownloadApp_ready_verified:
  assumes "app_state a = STATE_WAITING_TO_DOWNLOAD" and "SUCCEEDED (nw_create_request nw)"
    and "app_guid a \<notin> fst ` set (dm_download_state dm)"
    and "separate os nw (dm_package_cache dm) a"
    and "distinct (map (cache_file os (dm_package_cache dm) a) (packages (next_version a)))"
    and "DownloadApp os nw env sched a dm d = (hr, a', dm', d')" and "app_state a' = STATE_READY_TO_INSTALL"
  shows "list_all (\<lambda>p. IsPackageAvailable os dm' a' p d' \<and>
      (\<exists>f c. cache_file os (dm_package_cache dm') a' p = Inr f \<and> d' f = Some c
         \<and> SafeHexStringToVector (expected_hash p) = Some (sha256 c))) (packages (next_version a'))"
proof -
  have "SUCCEEDED hr" using DownloadApp_state [OF assms(1,2,6)] assms(7) by (auto split: if_splits)
  from DownloadApp_cached [OF assms(2-6) this] show ?thesis
    by (fastforce simp: list_all_iff IsPackageAvailable_def dest!: pc.cached_content)
qed

lemma completions_setters:
  "completions (SetCurrentTimeAs env t a) = completions a" "completions (SetError ec m a) = completions a"
  "completions (a\<lparr>state_cancelled := st\<rparr>) = completions a"
  by (simp_all add: completions_def app_simps)

text \<open>C35. A stop that comes when the app is waiting to download but after the download was started is not kept: the
  transition to downloading, which the manager then makes, is an invalid one in the state error, and replaces the
  cancellation by the error of an invalid transition. A second completion ping is queued.\<close>

theorem cancel_before_Downloading_lost:
  assumes "app_state a = STATE_WAITING_TO_DOWNLOAD" and "SUCCEEDED (nw_create_request nw)" and "sched 0"
    and "DownloadApp os nw env sched a dm d = (hr, a', dm', d')" and "\<not> is_update a \<or> has_update_available a"
  shows "cancelled (App_Cancel env a) \<and> app_state a' = STATE_ERROR \<and> error_code (error_context a') = omaha_error 0x818
    \<and> completions a' = completions a @ [(completion_type a, EVENT_RESULT_CANCELLED), (completion_type a, EVENT_RESULT_ERROR)]"
proof -
  let ?c = "App_Cancel env a" and ?b = "App_Downloading env (interfere env sched 0 a)"
  have c: "cancelled ?c" using assms(1) by (simp add: cancel_downloading)
  have cc: "completions ?c = completions a @ [(completion_type a, EVENT_RESULT_CANCELLED)]"
    using assms(1,5)
    by (simp add: App_Cancel_def AppState_Cancel_def Let_def completions_ChangeState completion_type_def app_simps
        completions_setters ErrorContext1_def)
  have i: "is_update ?c = is_update a" "has_update_available ?c = has_update_available a"
    using transitions_ident(1) [of env a] by (simp_all add: ident_def)
  have b: "app_state ?b = STATE_ERROR" "error_code (error_context ?b) = omaha_error 0x818"
    and bc: "completions ?b = completions ?c @ [(completion_type a, EVENT_RESULT_ERROR)]"
    using assms(1,3,5) c i
    by (simp_all add: interfere_def cancelled_def App_Downloading_def HandleInvalidStateTransition_def AppState_Error_def app_simps
        completions_ChangeState completion_type_def completions_setters hresult_defs)
  from DownloadApp_parts [OF assms(4,2)] obtain a1 dm2 where
    p: "download_packages os nw env (\<lambda>k. sched (Suc (Suc k))) 0 (packages (next_version a)) ?b (add_state a dm) d = (hr, a1, dm2, d')"
    and f: "a' = finish_download env sched hr (dm_error_extra_code1 dm2) a1"
    by metis
  from download_packages_error [OF p b(1)] have o: "outcome a1 = outcome ?b" .
  then have "app_state a1 = STATE_ERROR" using b by (simp add: outcome_def)
  with f have "a' = a1" by (simp add: finish_download_error)
  with o b c cc bc show ?thesis by (simp add: outcome_def)
qed

section \<open>A download that succeeds\<close>

text \<open>The content of a package that is received from a base URL, if it has the expected hash.\<close>

definition delivered :: "network \<Rightarrow> Package \<Rightarrow> string \<Rightarrow> byte list option" where
  "delivered nw p base =
     (case nw_url_combine nw base (filename p) of
        Inl _ \<Rightarrow> None
      | Inr url \<Rightarrow>
          case nw_download_file nw url of (hr, c) \<Rightarrow>
            if SUCCEEDED hr \<and> SafeHexStringToVector (expected_hash p) = Some (sha256 c) \<and> length c \<le> kMaxFileSizeForAuthentication
            then Some c else None)"

text \<open>The cache has no longer file in the place of a package: one would not be truncated.\<close>

definition fits_over :: "network \<Rightarrow> Package \<Rightarrow> string list \<Rightarrow> byte list \<Rightarrow> bool" where
  "fits_over nw p bases old =
     list_all (\<lambda>base. case delivered nw p base of None \<Rightarrow> True | Some c \<Rightarrow> length old \<le> length c) bases"

definition no_longer_file :: "os \<Rightarrow> network \<Rightarrow> PackageCache \<Rightarrow> App \<Rightarrow> disk \<Rightarrow> Package \<Rightarrow> bool" where
  "no_longer_file os nw pc a d p =
     (case cache_file os pc a p of
        Inl _ \<Rightarrow> True
      | Inr f \<Rightarrow> fits_over nw p (download_base_urls (next_version a)) (content_of d f))"

definition downloadable :: "os \<Rightarrow> network \<Rightarrow> PackageCache \<Rightarrow> App \<Rightarrow> Package \<Rightarrow> bool" where
  "downloadable os nw pc a p \<longleftrightarrow> filename p \<noteq> [] \<and> (\<exists>f. cache_file os pc a p = Inr f)
     \<and> (\<exists>name. BuildUniqueFileName os nw (filename p) = Inr name)
     \<and> list_ex (\<lambda>base. delivered nw p base \<noteq> None) (download_base_urls (next_version a))"

definition online :: "os \<Rightarrow> network \<Rightarrow> App \<Rightarrow> bool" where
  "online os nw a \<longleftrightarrow> os_works os \<and> nw_can_use_network nw \<and> \<not> nw_should_verify_authenticode nw
     \<and> is_eula_accepted a = TRISTATE_TRUE \<and> app_guid a \<noteq> []"

lemma online_ident: "ident a' = ident a \<Longrightarrow> online os nw a \<Longrightarrow> online os nw a'"
  by (simp add: online_def ident_def)

lemma downloadable_ident: "ident a' = ident a \<Longrightarrow> downloadable os nw pc a p \<Longrightarrow> downloadable os nw pc a' p"
  by (simp add: downloadable_def ident_def package_key_def)

lemma package_key_complete: "app_guid a \<noteq> [] \<Longrightarrow> filename p \<noteq> [] \<Longrightarrow> \<not> key_incomplete (package_key a p)"
  by (simp add: key_incomplete_def package_key_def new_Key_def)

lemma DoDownloadPackageFromUrl_Put:
  assumes "online os nw a" and "filename p \<noteq> []" and "cache_file os (dm_package_cache dm) a p = Inr f" and "f \<noteq> name"
    and "DoDownloadPackageFromUrl os nw url name a p dm d = (hr, dm', d')"
  shows "\<not> SUCCEEDED (fst (nw_download_file nw url)) \<and> \<not> SUCCEEDED hr \<and> d' f = d f
    \<or> (\<exists>hr1 d1. PackageCache_Put os (dm_package_cache dm) (package_key a p) (snd (nw_download_file nw url)) (expected_hash p)
          (d(name \<mapsto> snd (nw_download_file nw url))) = (hr1, d1) \<and> (SUCCEEDED hr \<longleftrightarrow> SUCCEEDED hr1) \<and> d' = d1)"
proof -
  obtain e c where c: "nw_download_file nw url = (e, c)" by fastforce
  obtain hr1 d1 where "PackageCache_Put os (dm_package_cache dm) (package_key a p) c (expected_hash p) (d(name \<mapsto> c)) = (hr1, d1)" by fastforce
  with assms c show ?thesis
    by (auto simp: DoDownloadPackageFromUrl_def CachePackage_def online_def os_works_def Let_def hresult_defs split: if_splits)
qed

lemma DoDownloadPackageFromUrl_delivers:
  assumes "online os nw a" and "filename p \<noteq> []" and "cache_file os (dm_package_cache dm) a p = Inr f" and "f \<noteq> name"
    and "nw_url_combine nw base (filename p) = Inr url" and "DoDownloadPackageFromUrl os nw url name a p dm d = (hr, dm', d')"
  shows "delivered nw p base = Some c \<Longrightarrow> length (content_of d f) \<le> length c \<Longrightarrow> SUCCEEDED hr"
    and "\<not> SUCCEEDED hr \<Longrightarrow> length (content_of d' f) \<le> length (content_of d f)"
proof -
  let ?c = "snd (nw_download_file nw url)"
  have o: "os_works os" "\<not> key_incomplete (package_key a p)" using assms(1,2) by (simp_all add: online_def package_key_complete)
  have f: "content_of (d(name \<mapsto> ?c)) f = content_of d f" using assms(4) by (simp add: content_of_def)
  note put = DoDownloadPackageFromUrl_Put [OF assms(1-4,6)]
  show "SUCCEEDED hr" if "delivered nw p base = Some c" "length (content_of d f) \<le> length c"
  proof -
    have c: "SUCCEEDED (fst (nw_download_file nw url))" "?c = c" "SafeHexStringToVector (expected_hash p) = Some (sha256 c)"
      "length c \<le> kMaxFileSizeForAuthentication"
      using that(1) assms(5) by (auto simp: delivered_def split: prod.splits if_splits)
    with put Put_outcome(1) [OF o assms(3) refl, of c "expected_hash p" "d(name \<mapsto> c)"] f that(2) show ?thesis by (auto simp: write_at_covers)
  qed
  show "length (content_of d' f) \<le> length (content_of d f)" if "\<not> SUCCEEDED hr"
    using put that Put_outcome(2) [OF o assms(3) refl, of ?c "expected_hash p" "d(name \<mapsto> ?c)"] by (auto simp: content_of_def)
qed

lemma fits_over_shorter: "fits_over nw p bases old \<Longrightarrow> length old' \<le> length old \<Longrightarrow> fits_over nw p bases old'"
  by (auto simp: fits_over_def list_all_iff split: option.splits intro: order_trans)

lemma download_urls_delivers:
  assumes "online os nw a" and "filename p \<noteq> []" and "cache_file os (dm_package_cache dm) a p = Inr f" and "f \<noteq> name"
    and "list_ex (\<lambda>base. delivered nw p base \<noteq> None) bases" and "fits_over nw p bases (content_of d f)"
  shows "SUCCEEDED (fst (download_urls os nw name p hr i bases a dm d))"
  using assms
proof (induction bases arbitrary: hr i a dm d)
  case (Cons b bases)
  have fits: "fits_over nw p bases (content_of d f)" using Cons.prems(6) by (simp add: fits_over_def)
  show ?case
  proof (cases "nw_url_combine nw b (filename p)")
    case (Inl e)
    then have "delivered nw p b = None" by (simp add: delivered_def)
    with Cons.IH [OF Cons.prems(1-4) _ fits] Cons.prems(5) Inl show ?thesis by simp
  next
    case (Inr url)
    let ?a = "AddDownloadMetricsPingEvents (nw_download_metrics nw url) a"
    obtain hr1 dm1 d1 where u: "DoDownloadPackageFromUrl os nw url name a p dm d = (hr1, dm1, d1)" by (metis prod_cases3)
    note dl = DoDownloadPackageFromUrl_delivers [OF Cons.prems(1-4) Inr u]
    show ?thesis
    proof (cases "SUCCEEDED hr1")
      case False
      have "delivered nw p b = None"
      proof (rule ccontr)
        assume "delivered nw p b \<noteq> None"
        then obtain c where "delivered nw p b = Some c" by auto
        with dl(1) [OF this] Cons.prems(6) False show False by (simp add: fits_over_def)
      qed
      moreover have "dm_package_cache dm1 = dm_package_cache dm" using DoDownloadPackageFromUrl_view [OF u] by (simp add: dm_view_def)
      ultimately have "SUCCEEDED (fst (download_urls os nw name p hr1 (Suc i) bases ?a dm1 d1))"
        using Cons.prems online_ident [OF metrics_view(1)] package_key_ident [OF metrics_view(1)] fits_over_shorter [OF fits dl(2) [OF False]]
        by (intro Cons.IH) simp_all
      then show ?thesis using False Inr u by (simp add: Let_def)
    qed (simp add: Inr u Let_def)
  qed
qed simp

lemma no_longer_file_ident: "ident a' = ident a \<Longrightarrow> no_longer_file os nw pc a' d p = no_longer_file os nw pc a d p"
  by (simp add: no_longer_file_def package_key_def ident_def split: sum.split)

lemma no_longer_file_new: "(\<And>f. cache_file os pc a p = Inr f \<Longrightarrow> d f = None) \<Longrightarrow> no_longer_file os nw pc a d p"
  by (simp add: no_longer_file_def fits_over_def content_of_def list_all_iff split: sum.split option.split)

lemma DoDownloadPackage_delivers:
  assumes "online os nw a" and "downloadable os nw (dm_package_cache dm) a p" and "separate os nw (dm_package_cache dm) a"
    and "no_longer_file os nw (dm_package_cache dm) a d p"
  shows "SUCCEEDED (fst (DoDownloadPackage os nw env p a dm d))"
proof -
  let ?a = "SetCurrentTimeAs env TIME_DOWNLOAD_START a"
  from assms(2) obtain name f where n: "BuildUniqueFileName os nw (filename p) = Inr name" "filename p \<noteq> []"
    "cache_file os (dm_package_cache dm) a p = Inr f" by (auto simp: downloadable_def)
  then have "f \<noteq> name" using assms(3) by (auto simp: separate_def in_target_def)
  then have "SUCCEEDED (fst (download_urls os nw name p E_FAIL 0 (download_base_urls (next_version a)) ?a dm d))"
    using n assms(2,4) online_ident [OF download_setters_view(1) assms(1)] package_key_ident [OF download_setters_view(1)]
    by (intro download_urls_delivers) (simp_all add: downloadable_def no_longer_file_def)
  with n assms(1) show ?thesis
    by (auto simp: DoDownloadPackage_def online_def Let_def split: prod.splits)
qed

lemma download_packages_delivers:
  assumes "online os nw a" and "list_all (downloadable os nw pc a) ps" and "dm_package_cache dm = pc" and "separate os nw pc a"
    and "distinct (map (cache_file os pc a) ps)" and "list_all (no_longer_file os nw pc a d) ps"
  shows "SUCCEEDED (fst (download_packages os nw env sched k ps a dm d))"
  using assms
proof (induction ps arbitrary: k a dm d)
  case (Cons p ps)
  let ?a = "interfere env sched k a"
  obtain hr1 a1 dm1 d1 where p: "DoDownloadPackage os nw env p ?a dm d = (hr1, a1, dm1, d1)" by (metis prod_cases4)
  have i: "ident a1 = ident a" "ident ?a = ident a" "dm_package_cache dm1 = pc"
    using DoDownloadPackage_view [OF p] Cons.prems(3) by (auto simp: interfere_ident dm_view_def)
  have k: "package_key a1 q = package_key a q" "package_key ?a q = package_key a q" for q using i by (auto intro: package_key_ident)
  have s: "separate os nw (dm_package_cache dm) ?a" using Cons.prems(3,4) separate_ident [OF i(2)] by simp
  have "SUCCEEDED hr1"
    using DoDownloadPackage_delivers [OF online_ident [OF i(2)] downloadable_ident [OF i(2)] s, of p d env] Cons.prems p
    by (simp add: no_longer_file_ident [OF i(2)])
  moreover have "no_longer_file os nw pc a1 d1 q" if "q \<in> set ps" for q
  proof -
    have "cache_file os pc a q \<noteq> cache_file os pc a p" using Cons.prems(5) that by (auto simp: image_iff)
    then have "d1 f = d f" if "cache_file os pc a q = Inr f" for f
      using DoDownloadPackage_disk [OF p s] that Cons.prems(3) by (auto simp: k)
    moreover have "no_longer_file os nw pc a d q" using Cons.prems(6) that by (simp add: list_all_iff)
    ultimately show ?thesis
      unfolding no_longer_file_ident [OF i(1)] by (simp add: no_longer_file_def content_of_def split: sum.splits)
  qed
  ultimately show ?case
    using Cons.IH [of a1 dm1 d1 "Suc k"] Cons.prems p i(3) online_ident [OF i(1)] downloadable_ident [OF i(1)] separate_ident [OF i(1)]
    by (simp add: list_all_iff k)
qed simp

lemma DownloadApp_delivers:
  assumes "SUCCEEDED (nw_create_request nw)" and "online os nw a"
    and "list_all (downloadable os nw (dm_package_cache dm) a) (packages (next_version a))"
    and "separate os nw (dm_package_cache dm) a" and "distinct (map (cache_file os (dm_package_cache dm) a) (packages (next_version a)))"
    and "list_all (no_longer_file os nw (dm_package_cache dm) a d) (packages (next_version a))"
    and "DownloadApp os nw env sched a dm d = (hr, a', dm', d')"
  shows "SUCCEEDED hr"
proof -
  let ?b = "App_Downloading env (interfere env sched 0 a)"
  have i: "ident ?b = ident a" by (simp add: transitions_ident interfere_ident)
  from DownloadApp_parts [OF assms(7,1)] obtain a1 dm2 where
    p: "download_packages os nw env (\<lambda>k. sched (Suc (Suc k))) 0 (packages (next_version a)) ?b (add_state a dm) d = (hr, a1, dm2, d')"
    by metis
  have "SUCCEEDED (fst (download_packages os nw env (\<lambda>k. sched (Suc (Suc k))) 0 (packages (next_version a)) ?b (add_state a dm) d))"
    using assms(2-6) online_ident [OF i] downloadable_ident [OF i] separate_ident [OF i] package_key_ident [OF i]
    by (intro download_packages_delivers [where pc = "dm_package_cache dm"]) (auto simp: list_all_iff no_longer_file_ident [OF i])
  then show ?thesis using p by simp
qed


section \<open>A sample download\<close>

definition sample_network :: network where
  "sample_network =
     \<lparr>nw_create_request = S_OK, nw_create_guid = Inr ''g'', nw_temp_download_dir = ''T:'',
      nw_url_combine = (\<lambda>b s. Inr (b @ s)), nw_download_file = (\<lambda>u. if u = ''xp'' then (E_FAIL, []) else (S_OK, [0x61, 0x62, 0x63])),
      nw_download_metrics = (\<lambda>u. [\<lparr>dmx_url = u, dmx_error = 0\<rparr>]), nw_can_use_network = True,
      nw_should_verify_authenticode = False, nw_verify_authenticode = (\<lambda>_. S_OK), nw_find_extension = (\<lambda>_. [])\<rparr>"

definition sample_manager :: DownloadManager where
  "sample_manager = \<lparr>dm_package_cache = sample_cache, dm_download_state = [], dm_error_extra_code1 = 0\<rparr>"

definition sample_app :: App where
  "sample_app = (new_App ''A'' False)\<lparr>app_state := STATE_WAITING_TO_DOWNLOAD, is_eula_accepted := TRISTATE_TRUE,
     next_version := \<lparr>version = ''1'', install_manifest = None,
       packages = [\<lparr>filename = ''p'', expected_size = 3, expected_hash = abc_hash\<rparr>],
       download_base_urls = [''x'', ''u'']\<rparr>\<rparr>"

definition sample_download :: "(nat \<Rightarrow> bool) \<Rightarrow> hresult \<times> App \<times> DownloadManager \<times> disk" where
  "sample_download sched = DownloadApp sample_os sample_network sample_env sched sample_app sample_manager (\<lambda>_. None)"

lemmas sample_defs = sample_app_def sample_manager_def sample_network_def new_App_def

lemma sample_path:
  "cache_file sample_os sample_cache sample_app p = Inr f \<Longrightarrow> \<exists>t. f = ''C:'' @ t"
  by (auto simp: BuildCacheFileNameForKey_def BuildCacheFileName_def sample_cache_def ConcatenatePath_def sample_os_def
      split: if_splits)

lemma sample_separate: "separate sample_os sample_network sample_cache sample_app"
proof -
  have n: "\<exists>t. name = ''T'' @ t" if "BuildUniqueFileName sample_os sample_network s = Inr name" for s name
    using that by (auto simp: BuildUniqueFileName_def sample_network_def sample_os_def ConcatenatePath_def)
  have "\<not> in_target name f"
    if "cache_file sample_os sample_cache sample_app p = Inr f" "BuildUniqueFileName sample_os sample_network s = Inr name" for p f s name
    using sample_path [OF that(1)] n [OF that(2)] by (auto simp: in_target_def)
  moreover have "deletes_below sample_os" by (simp add: deletes_below_def sample_os_def)
  ultimately show ?thesis unfolding separate_def by (auto simp: sample_network_def)
qed

lemma sample_downloadable:
  "online sample_os sample_network sample_app"
  "list_all (downloadable sample_os sample_network (dm_package_cache sample_manager) sample_app) (packages (next_version sample_app))"
  "separate sample_os sample_network (dm_package_cache sample_manager) sample_app"
  "distinct (map (cache_file sample_os (dm_package_cache sample_manager) sample_app) (packages (next_version sample_app)))"
  "list_all (no_longer_file sample_os sample_network (dm_package_cache sample_manager) sample_app (\<lambda>_. None)) (packages (next_version sample_app))"
proof -
  show "separate sample_os sample_network (dm_package_cache sample_manager) sample_app"
    using sample_separate by (simp add: sample_manager_def)
  show "distinct (map (cache_file sample_os (dm_package_cache sample_manager) sample_app) (packages (next_version sample_app)))"
    by (simp add: sample_app_def)
  show "list_all (no_longer_file sample_os sample_network (dm_package_cache sample_manager) sample_app (\<lambda>_. None)) (packages (next_version sample_app))"
    by (simp add: list_all_iff no_longer_file_new)
  show "online sample_os sample_network sample_app"
    using sample_os_works by (simp add: online_def sample_defs)
  have "delivered sample_network \<lparr>filename = ''p'', expected_size = 3, expected_hash = abc_hash\<rparr> ''u'' \<noteq> None"
    by (simp add: delivered_def sample_network_def sha256_abc kMaxFileSizeForAuthentication_def)
  then show "list_all (downloadable sample_os sample_network (dm_package_cache sample_manager) sample_app) (packages (next_version sample_app))"
    by (simp add: downloadable_def sample_app_def BuildUniqueFileName_def BuildCacheFileNameForKey_def BuildCacheFileName_def
        package_key_def new_Key_def) (simp add: sample_defs ConcatenatePath_def sample_os_def)
qed

lemma sample_start:
  "app_state sample_app = STATE_WAITING_TO_DOWNLOAD" "SUCCEEDED (nw_create_request sample_network)"
  "app_guid sample_app \<notin> fst ` set (dm_download_state sample_manager)" "length (packages (next_version sample_app)) = 1"
  by (simp_all add: sample_defs)


theorem DownloadApp_contract_witness:
  "app_state (fst (snd (sample_download (\<lambda>k. k = 2)))) = STATE_ERROR"
proof -
  obtain hr a' dm' d' where r: "sample_download (\<lambda>k. k = 2) = (hr, a', dm', d')" by (metis prod_cases4)
  have "\<not> undisturbed (\<lambda>k. k = 2) 1" by code_simp
  with DownloadApp_contract [OF sample_start(1-3) r [unfolded sample_download_def]] r sample_start(4) show ?thesis by simp
qed

theorem DownloadApp_ready_verified_witness:
  "\<exists>hr a' dm' d' f c. sample_download (\<lambda>_. False) = (hr, a', dm', d') \<and> d' f = Some c
     \<and> SafeHexStringToVector abc_hash = Some (sha256 c)"
proof -
  obtain hr a' dm' d' where r: "sample_download (\<lambda>_. False) = (hr, a', dm', d')" by (metis prod_cases4)
  note r' = r [unfolded sample_download_def]
  have s: "app_state a' = STATE_READY_TO_INSTALL"
    using DownloadApp_state [OF sample_start(1,2) r'] DownloadApp_delivers [OF sample_start(2) sample_downloadable r']
    by (simp add: undisturbed_def list_all_iff)
  have i: "packages (next_version a') = packages (next_version sample_app)"
    using DownloadApp_manager [OF sample_start(2,3) r'] by (simp add: ident_def)
  show ?thesis
    using DownloadApp_ready_verified [OF sample_start(1-3) sample_downloadable(3,4) r' s] r unfolding i by (auto simp: sample_app_def)
qed

theorem cancel_before_Downloading_lost_witness:
  "error_code (error_context (fst (snd (sample_download (\<lambda>k. k = 0))))) = omaha_error 0x818"
proof -
  obtain hr a' dm' d' where r: "sample_download (\<lambda>k. k = 0) = (hr, a', dm', d')" by (metis prod_cases4)
  from cancel_before_Downloading_lost [OF sample_start(1,2) _ r [unfolded sample_download_def]] r show ?thesis
    by (simp add: sample_defs)
qed

end
