(* ===== verification/Installer_Wrapper.thy ===== *)
theory Installer_Wrapper
  imports App_Pings
begin

text \<open>
  The installer wrapper (\<open>goopdate/installer_wrapper.cc\<close>): the command line of an installer, running it with retries while
  the Windows Installer is busy, reading its result and checking the registration of the app.

  What the system does is the record \<open>installer_env\<close>: for the attempt \<open>k\<close>, the error with which the environment block cannot be created, whether the process starts, how it ends and which
  values the installer has left in the registry.
\<close>

section \<open>Command lines\<close>

datatype InstallerType = UNKNOWN_INSTALLER | CUSTOM_INSTALLER | MSI_INSTALLER | MAX_INSTALLER

text \<open>The values of the installer result API in the registry; a value that cannot be read is None.\<close>

record installer_api =
  api_InstallerResult :: "32 word option"
  api_InstallerError :: "32 word option"
  api_InstallerExtraCode1 :: "32 word option"
  api_InstallerResultUIString :: "string option"
  api_InstallerSuccessLaunchCmdLine :: "string option"

datatype process_end = StillRunning | Exited "32 word" | ExitCodeUnknown

record installer_env =
  ie_RemoveFileSpec :: "string \<Rightarrow> bool"
  ie_installer_data_file :: "string \<Rightarrow> string"
  ie_PathFindExtension :: "string \<Rightarrow> string"
  ie_is_xp_sp2 :: bool
  ie_environment_block :: "nat \<Rightarrow> 32 word option"
  ie_start :: "nat \<Rightarrow> hresult"
  ie_wait :: "nat \<Rightarrow> process_end"
  ie_registry :: "nat \<Rightarrow> installer_api option"
  ie_system_message :: "32 word \<Rightarrow> string"

definition BuildMsiCommandLine :: "installer_env \<Rightarrow> string \<Rightarrow> string \<Rightarrow> string \<Rightarrow> string" where
  "BuildMsiCommandLine env arguments msi_file_path enclosed_installer_data_file_path =
     (if \<not> IsEmpty enclosed_installer_data_file_path
      then ''INSTALLERDATA='' @ enclosed_installer_data_file_path @ '' '' else [])
     @ arguments @ '' REBOOT=ReallySuppress /qn /i '' @ [CHR 0x22] @ msi_file_path @ [CHR 0x22]
     @ (if ie_is_xp_sp2 env then '' /log '' @ [CHR 0x22] @ msi_file_path @ ''.log'' @ [CHR 0x22] else [])"

definition BuildCommandLineFromFilename ::
    "installer_env \<Rightarrow> string \<Rightarrow> string \<Rightarrow> string \<Rightarrow> hresult + (string \<times> string \<times> InstallerType)" where
  "BuildCommandLineFromFilename env file_path arguments installer_data =
     (if \<not> ie_RemoveFileSpec env file_path then Inl (itf_error 0x900)
      else
        let data_file = ie_installer_data_file env installer_data;
            enclosed = (if IsEmpty data_file then data_file else EnclosePath data_file)
        in case ie_PathFindExtension env file_path of
             [] \<Rightarrow> Inl (itf_error 0x900)
           | _ # ext \<Rightarrow>
               if EqualNoCase ext ''exe'' then
                 Inr (file_path,
                      if IsEmpty enclosed then arguments else arguments @ '' /installerdata='' @ enclosed,
                      CUSTOM_INSTALLER)
               else if EqualNoCase ext ''msi'' then
                 Inr (''msiexec'', BuildMsiCommandLine env arguments file_path enclosed, MSI_INSTALLER)
               else Inl (itf_error 0x900))"

definition InstallerWrapper_GetMessageForError :: "hresult \<Rightarrow> string \<Rightarrow> ui_message" where
  "InstallerWrapper_GetMessageForError code installer_filename =
     (if code = itf_error 0x900 then FormatMessage IDS_INVALID_INSTALLER_FILENAME installer_filename
      else if code = itf_error 0x901 then LoadString IDS_INSTALLER_FAILED_TO_START
      else if code = itf_error 0x904 then LoadString IDS_INSTALLER_TIMED_OUT
      else if code = itf_error 0x907 then LoadString IDS_MSI_INSTALL_ALREADY_RUNNING
      else LoadString IDS_INSTALL_FAILED)"

section \<open>The result of an installer\<close>

definition new_InstallerResultInfo :: InstallerResultInfo where
  "new_InstallerResultInfo =
     \<lparr>ir_type = INSTALLER_RESULT_UNKNOWN, ir_code = 0, ir_extra_code1 = 0, ir_text = NoMessage,
      ir_post_install_launch_command_line = [], ir_post_install_url = [],
      ir_post_install_action = POST_INSTALL_ACTION_DEFAULT\<rparr>"

text \<open>\<open>0x%08x\<close> for a failure and \<open>%u\<close> otherwise.\<close>

definition FormatErrorCode :: "32 word \<Rightarrow> string" where
  "FormatErrorCode code = (if FAILED code then ''0x'' @ hex8 code else decimal (unat code))"

definition GetSystemErrorString :: "installer_env \<Rightarrow> 32 word \<Rightarrow> ui_message" where
  "GetSystemErrorString env code =
     (if \<not> IsEmpty (ie_system_message env code)
      then FormatMessage2 IDS_INSTALLER_FAILED_WITH_MESSAGE (FormatErrorCode code) (ie_system_message env code)
      else FormatMessage IDS_INSTALLER_FAILED_NO_MESSAGE (FormatErrorCode code))"

definition text_of :: "string \<Rightarrow> ui_message" where
  "text_of s = (if IsEmpty s then NoMessage else MessageText s)"

definition with_default :: "'a \<Rightarrow> 'a option \<Rightarrow> 'a" where
  "with_default x v = (case v of None \<Rightarrow> x | Some y \<Rightarrow> y)"

text \<open>The installer result, by its number (4 is the default, the exit code), and the other values. The enumeration is compared as
  a signed number.\<close>

definition ReadInstallerResultApiValues ::
    "installer_api option \<Rightarrow> InstallerResultInfo \<Rightarrow> 32 word \<times> InstallerResultInfo" where
  "ReadInstallerResultApiValues key info =
     (case key of
        None \<Rightarrow> (4, info)
      | Some api \<Rightarrow>
          let result = with_default 4 (api_InstallerResult api)
          in (if 5 \<le> sint result then 4 else result,
              info\<lparr>ir_code := with_default (ir_code info) (api_InstallerError api),
                   ir_extra_code1 := with_default (ir_extra_code1 info) (api_InstallerExtraCode1 api),
                   ir_text := (case api_InstallerResultUIString api of None \<Rightarrow> ir_text info | Some s \<Rightarrow> text_of s),
                   ir_post_install_launch_command_line :=
                     with_default (ir_post_install_launch_command_line info) (api_InstallerSuccessLaunchCmdLine api)\<rparr>))"

definition result_type :: "32 word \<Rightarrow> InstallerType \<Rightarrow> 32 word \<Rightarrow> InstallerResultInfo \<Rightarrow> InstallerResultInfo" where
  "result_type installer_result installer_type result_code info =
     (if installer_result = 0 then info\<lparr>ir_type := INSTALLER_RESULT_SUCCESS\<rparr>
      else if installer_result = 1 then info\<lparr>ir_type := INSTALLER_RESULT_ERROR_OTHER\<rparr>
      else if installer_result = 2 then info\<lparr>ir_type := INSTALLER_RESULT_ERROR_MSI\<rparr>
      else if installer_result = 3 then info\<lparr>ir_type := INSTALLER_RESULT_ERROR_SYSTEM\<rparr>
      else if installer_result = 4 then
        (if result_code = 0 then info\<lparr>ir_type := INSTALLER_RESULT_SUCCESS, ir_code := 0\<rparr>
         else if result_code = itf_error 0x904 then info\<lparr>ir_type := INSTALLER_RESULT_UNKNOWN\<rparr>
         else if installer_type = MSI_INSTALLER then info\<lparr>ir_type := INSTALLER_RESULT_ERROR_MSI\<rparr>
         else info\<lparr>ir_type := INSTALLER_RESULT_ERROR_OTHER\<rparr>)
      else info)"

definition is_system_error :: "InstallerResultInfo \<Rightarrow> bool" where
  "is_system_error info \<longleftrightarrow> ir_type info = INSTALLER_RESULT_ERROR_MSI \<or> ir_type info = INSTALLER_RESULT_ERROR_SYSTEM"

definition text_IsEmpty :: "ui_message \<Rightarrow> bool" where
  "text_IsEmpty m \<longleftrightarrow> m = NoMessage"

text \<open>The reboot required case, and otherwise the command to launch.\<close>

definition set_post_install_action :: "InstallerResultInfo \<Rightarrow> InstallerResultInfo" where
  "set_post_install_action r =
     (if is_system_error r \<and> ir_code r = 3010
      then r\<lparr>ir_type := INSTALLER_RESULT_SUCCESS, ir_code := 0, ir_post_install_action := POST_INSTALL_ACTION_REBOOT\<rparr>
      else if \<not> IsEmpty (ir_post_install_launch_command_line r)
      then r\<lparr>ir_post_install_action := POST_INSTALL_ACTION_LAUNCH_COMMAND\<rparr>
      else r)"

text \<open>All errors have error strings.\<close>

definition ensure_text :: "installer_env \<Rightarrow> InstallerResultInfo \<Rightarrow> InstallerResultInfo" where
  "ensure_text env r =
     (case ir_type r of
        INSTALLER_RESULT_SUCCESS \<Rightarrow> r
      | INSTALLER_RESULT_ERROR_MSI \<Rightarrow> r\<lparr>ir_text := GetSystemErrorString env (ir_code r)\<rparr>
      | INSTALLER_RESULT_ERROR_SYSTEM \<Rightarrow> r\<lparr>ir_text := GetSystemErrorString env (ir_code r)\<rparr>
      | INSTALLER_RESULT_ERROR_OTHER \<Rightarrow>
          (if text_IsEmpty (ir_text r)
           then r\<lparr>ir_text := FormatMessage IDS_INSTALLER_FAILED_NO_MESSAGE (FormatErrorCode (ir_code r))\<rparr> else r)
      | INSTALLER_RESULT_UNKNOWN \<Rightarrow>
          (if text_IsEmpty (ir_text r)
           then r\<lparr>ir_text := InstallerWrapper_GetMessageForError (ir_code r) []\<rparr> else r))"

definition GetInstallerResultHelper ::
    "installer_env \<Rightarrow> installer_api option \<Rightarrow> InstallerType \<Rightarrow> 32 word \<Rightarrow> InstallerResultInfo" where
  "GetInstallerResultHelper env key installer_type result_code =
     (case ReadInstallerResultApiValues key (new_InstallerResultInfo\<lparr>ir_code := result_code\<rparr>) of (installer_result, info) \<Rightarrow>
        ensure_text env (set_post_install_action (result_type installer_result installer_type result_code info)))"

definition GetInstallerResult ::
    "installer_env \<Rightarrow> nat \<Rightarrow> InstallerType \<Rightarrow> InstallerResultInfo \<Rightarrow> hresult \<times> InstallerResultInfo" where
  "GetInstallerResult env k installer_type info =
     (case ie_wait env k of
        StillRunning \<Rightarrow> (itf_error 0x904, GetInstallerResultHelper env (ie_registry env k) installer_type (itf_error 0x904))
      | ExitCodeUnknown \<Rightarrow> (itf_error 0x903, info)
      | Exited exit_code \<Rightarrow> (S_OK, GetInstallerResultHelper env (ie_registry env k) installer_type exit_code))"

section \<open>Running an installer\<close>

text \<open>The last error of Windows as an HRESULT; the macro leaves a number alone that is negative and so an HRESULT already.\<close>

definition HRESULT_FROM_WIN32 :: "32 word \<Rightarrow> hresult" where
  "HRESULT_FROM_WIN32 x = (if sint x \<le> 0 then x else (x AND 0xFFFF) OR 0x80070000)"

definition HRESULTFromLastError :: "32 word \<Rightarrow> hresult" where
  "HRESULTFromLastError e = (if e \<noteq> 0 then HRESULT_FROM_WIN32 e else E_FAIL)"

definition DoExecuteAndWaitForInstaller ::
    "installer_env \<Rightarrow> nat \<Rightarrow> guid \<Rightarrow> InstallerType \<Rightarrow> InstallerResultInfo \<Rightarrow> hresult \<times> InstallerResultInfo" where
  "DoExecuteAndWaitForInstaller env k g installer_type info =
     (case ie_environment_block env k of
        Some e \<Rightarrow> (HRESULTFromLastError e, info)
      | None \<Rightarrow>
          if FAILED (ie_start env k) then (itf_error 0x901, info)
          else if g = kGoopdateGuid then (S_OK, info\<lparr>ir_type := INSTALLER_RESULT_SUCCESS\<rparr>)
          else GetInstallerResult env k installer_type info)"

definition msi_busy :: "InstallerResultInfo \<Rightarrow> bool" where
  "msi_busy info \<longleftrightarrow> is_system_error info \<and> ir_code info = 1618"

text \<open>The loop, with the number of tries left and the delays it has slept.\<close>

fun execute_loop :: "(nat \<Rightarrow> InstallerResultInfo \<Rightarrow> hresult \<times> InstallerResultInfo) \<Rightarrow> nat \<Rightarrow> nat \<Rightarrow> nat \<Rightarrow>
    InstallerResultInfo \<Rightarrow> nat list \<Rightarrow> hresult \<times> InstallerResultInfo \<times> nat list" where
  "execute_loop execute 0 num_tries retry_delay info slept = (itf_error 0x907, info, slept)"
| "execute_loop execute (Suc n) num_tries retry_delay info slept =
     (let (retry_delay1, slept1) =
            (if 0 < num_tries then (2 * retry_delay, slept @ [retry_delay]) else (retry_delay, slept))
      in case execute num_tries new_InstallerResultInfo of (hr, info1) \<Rightarrow>
        if FAILED hr then (hr, info1, slept1)
        else if msi_busy info1 then execute_loop execute n (Suc num_tries) retry_delay1 info1 slept1
        else (hr, info1, slept1))"

definition ExecuteAndWaitForInstaller ::
    "installer_env \<Rightarrow> nat \<Rightarrow> guid \<Rightarrow> InstallerType \<Rightarrow> hresult \<times> InstallerResultInfo \<times> nat list" where
  "ExecuteAndWaitForInstaller env num_tries_when_msi_busy g installer_type =
     execute_loop (\<lambda>k. DoExecuteAndWaitForInstaller env k g installer_type) num_tries_when_msi_busy 0 5000
       new_InstallerResultInfo []"

definition kChromeAppId :: guid where
  "kChromeAppId = ''{8A69D345-D564-463C-AFF1-A69D9E530F96}''"

definition DoInstallApp ::
    "installer_env \<Rightarrow> bool \<Rightarrow> nat \<Rightarrow> guid \<Rightarrow> string \<Rightarrow> string \<Rightarrow> string \<Rightarrow> hresult \<times> InstallerResultInfo" where
  "DoInstallApp env is_machine num_tries g installer_path arguments installer_data =
     (let modified_arguments = (if g = kChromeAppId \<and> is_machine then arguments @ '' --system-level'' else arguments)
      in case BuildCommandLineFromFilename env installer_path modified_arguments installer_data of
           Inl hr \<Rightarrow> (hr, new_InstallerResultInfo)
         | Inr (executable_path, command_line, installer_type) \<Rightarrow>
             case ExecuteAndWaitForInstaller env num_tries g installer_type of (hr, info, slept) \<Rightarrow>
               if FAILED hr then (hr, info)
               else if ir_type info \<noteq> INSTALLER_RESULT_SUCCESS then (itf_error 0x902, info)
               else (S_OK, info))"

definition CheckApplicationRegistration :: "string \<Rightarrow> string \<Rightarrow> string \<Rightarrow> bool \<Rightarrow> hresult" where
  "CheckApplicationRegistration registered_version expected_version previous_version upd =
     (if IsEmpty registered_version then itf_error 0x905
      else if \<not> IsEmpty expected_version \<and> registered_version \<noteq> expected_version
        \<and> (upd \<and> registered_version \<noteq> previous_version
           \<or> VersionFromString registered_version < VersionFromString expected_version
           \<or> VersionFromString registered_version = 0 \<or> VersionFromString expected_version = 0)
      then omaha_error 0x90B
      else if upd \<and> previous_version = registered_version then itf_error 0x908
      else S_OK)"

section \<open>The retries\<close>

lemma execute_loop_slept_retry:
  assumes "execute_loop ex n (Suc k) delay info slept = (hr, info', slept')"
  shows "\<exists>m\<le>n. slept' = slept @ map (\<lambda>i. delay * 2 ^ i) [0..<m]"
  using assms
proof (induction n arbitrary: k delay info slept)
  case (Suc n)
  obtain h i where e: "ex (Suc k) new_InstallerResultInfo = (h, i)" by fastforce
  have one: "\<exists>m\<le>Suc n. slept @ [delay] = slept @ map (\<lambda>i. delay * 2 ^ i) [0..<m]"
    by (intro exI [of _ 1]) simp
  show ?case
  proof (cases "SUCCEEDED h \<and> msi_busy i")
    case True
    with Suc.prems e have "execute_loop ex n (Suc (Suc k)) (2 * delay) i (slept @ [delay]) = (hr, info', slept')" by simp
    from Suc.IH [OF this] obtain m where m: "m \<le> n" "slept' = (slept @ [delay]) @ map (\<lambda>i. 2 * delay * 2 ^ i) [0..<m]" by blast
    have "map (\<lambda>i. delay * 2 ^ i) [0..<Suc m] = delay # map (\<lambda>i. 2 * delay * 2 ^ i) [0..<m]"
      by (subst upt_conv_Cons) (simp_all add: map_Suc_upt [symmetric] ac_simps del: upt_Suc)
    with m show ?thesis by (intro exI [of _ "Suc m"]) (simp del: upt_Suc)
  next
    case False
    with Suc.prems e one show ?thesis by (auto split: if_splits)
  qed
qed simp

lemma execute_loop_slept:
  assumes "execute_loop ex (Suc n) 0 delay info [] = (hr, info', slept')"
  shows "\<exists>m\<le>n. slept' = map (\<lambda>i. delay * 2 ^ i) [0..<m]"
proof -
  obtain h i where e: "ex 0 new_InstallerResultInfo = (h, i)" by fastforce
  show ?thesis
  proof (cases "SUCCEEDED h \<and> msi_busy i")
    case True
    with assms e have "execute_loop ex n (Suc 0) delay i [] = (hr, info', slept')" by simp
    from execute_loop_slept_retry [OF this] show ?thesis by simp
  next
    case False
    with assms e show ?thesis by (auto split: if_splits)
  qed
qed

lemma sum_delays: "sum_list (map (\<lambda>i. (delay :: nat) * 2 ^ i) [0..<m]) = delay * (2 ^ m - 1)"
  by (induction m) (simp_all add: diff_mult_distrib2 algebra_simps)

text \<open>C37. The installer is started at most as often as allowed, and the waits between the attempts double from five seconds: with
  \<open>n + 1\<close> tries the installer wrapper sleeps at most \<open>n\<close> times and at most \<open>5000 * (2 ^ n - 1)\<close> milliseconds in total.\<close>

theorem retry_time_bound:
  assumes "ExecuteAndWaitForInstaller env (Suc n) g t = (hr, info, slept)"
  shows "\<exists>m\<le>n. slept = map (\<lambda>i. 5000 * 2 ^ i) [0..<m] \<and> sum_list slept \<le> 5000 * (2 ^ n - 1)"
proof -
  from execute_loop_slept [OF assms [unfolded ExecuteAndWaitForInstaller_def]]
  obtain m where m: "m \<le> n" "slept = map (\<lambda>i. 5000 * 2 ^ i) [0..<m]" by blast
  have "(2 :: nat) ^ m \<le> 2 ^ n" using m(1) by (simp add: power_increasing)
  with m show ?thesis unfolding m(2) sum_delays by (intro exI [of _ m]) (simp add: diff_le_mono)
qed

text \<open>An installer that finds the Windows Installer busy at every attempt.\<close>

definition busy_env :: installer_env where
  "busy_env =
     \<lparr>ie_RemoveFileSpec = (\<lambda>_. True), ie_installer_data_file = (\<lambda>_. []), ie_PathFindExtension = (\<lambda>_. ''.msi''), ie_is_xp_sp2 = True,
      ie_environment_block = (\<lambda>_. None), ie_start = (\<lambda>_. S_OK), ie_wait = (\<lambda>_. Exited 1618), ie_registry = (\<lambda>_. None),
      ie_system_message = (\<lambda>_. [])\<rparr>"

theorem retry_time_bound_witness:
  "sum_list (snd (snd (ExecuteAndWaitForInstaller busy_env 7 ''{A}'' MSI_INSTALLER))) \<le> 315000"
proof -
  obtain hr info slept where r: "ExecuteAndWaitForInstaller busy_env 7 ''{A}'' MSI_INSTALLER = (hr, info, slept)"
    by (metis prod_cases3)
  have "(7 :: nat) = Suc 6" by simp
  from retry_time_bound [OF r [unfolded this]] have "sum_list slept \<le> 5000 * (2 ^ 6 - 1)" by blast
  then show ?thesis unfolding r by simp
qed

section \<open>The result of the wrapper\<close>

lemma ensure_text_type: "ir_type (ensure_text env r) = ir_type r"
  by (simp add: ensure_text_def split: InstallerResultType.split)

lemma ensure_text_text: "ir_type r \<noteq> INSTALLER_RESULT_SUCCESS \<Longrightarrow> ir_text (ensure_text env r) \<noteq> NoMessage"
  by (cases "ir_type r")
    (simp_all add: ensure_text_def text_IsEmpty_def GetSystemErrorString_def InstallerWrapper_GetMessageForError_def)

lemma GetInstallerResultHelper_text:
  "ir_type (GetInstallerResultHelper env key t code) \<noteq> INSTALLER_RESULT_SUCCESS \<Longrightarrow>
     ir_text (GetInstallerResultHelper env key t code) \<noteq> NoMessage"
  by (simp add: GetInstallerResultHelper_def ensure_text_type ensure_text_text split: prod.splits)

text \<open>The installer has left no result in the registry, or says that its exit code is the result.\<close>

definition api_silent :: "installer_api option \<Rightarrow> bool" where
  "api_silent key \<longleftrightarrow> (case key of None \<Rightarrow> True | Some api \<Rightarrow> with_default 4 (api_InstallerResult api) = 4)"

lemma timeout_unknown:
  assumes "api_silent key"
  shows "ir_type (GetInstallerResultHelper env key t (itf_error 0x904)) = INSTALLER_RESULT_UNKNOWN"
proof -
  let ?i = "new_InstallerResultInfo\<lparr>ir_code := itf_error 0x904\<rparr>"
  obtain r info where r: "ReadInstallerResultApiValues key ?i = (r, info)" by fastforce
  with assms have "r = 4" by (auto simp: ReadInstallerResultApiValues_def api_silent_def Let_def split: option.splits)
  then have "ir_type (result_type r t (itf_error 0x904) info) = INSTALLER_RESULT_UNKNOWN"
    by (simp add: result_type_def hresult_defs)
  then show ?thesis
    by (simp add: GetInstallerResultHelper_def r ensure_text_type set_post_install_action_def is_system_error_def)
qed

text \<open>The system error codes of Windows are small positive numbers.\<close>

definition system_errors :: "installer_env \<Rightarrow> bool" where
  "system_errors env \<longleftrightarrow> (\<forall>k. case ie_environment_block env k of None \<Rightarrow> True | Some e \<Rightarrow> e < 0x10000)"

lemma win32_bits:
  fixes e :: "32 word"
  shows "bit ((e AND 0xFFFF) OR 0x80070000) 31" and "bit ((e AND 0xFFFF) OR 0x80070000) 16"
  by (simp_all add: bit_or_iff)

lemma HRESULTFromLastError_failed: "\<not> SUCCEEDED (HRESULTFromLastError e)"
proof (cases "sint e \<le> 0")
  case True
  then have "e \<noteq> 0 \<Longrightarrow> sint e < 0" by (metis le_less signed_0 signed_word_eqI)
  with True show ?thesis
    by (cases "e = 0") (auto simp: HRESULTFromLastError_def HRESULT_FROM_WIN32_def SUCCEEDED_def word_sle_eq)
next
  case False
  then have "e \<noteq> 0" by auto
  with False win32_bits(1) [of e] show ?thesis
    by (simp add: HRESULTFromLastError_def HRESULT_FROM_WIN32_def SUCCEEDED_def bit_last_iff [where ?'a = 32, simplified] not_le)
qed

lemma HRESULTFromLastError_code:
  assumes "e < 0x10000"
  shows "HRESULTFromLastError e \<notin> {itf_error 0x902, itf_error 0x904, itf_error 0x907}"
proof -
  have "uint e < 0x10000" using assms by (simp add: word_less_def)
  then have "sint e = uint e" by (simp add: sint_uint signed_take_bit_int_eq_self_iff) (rule order_trans [OF _ uint_nonnegative], simp)
  then have "sint e \<le> 0 \<Longrightarrow> e = 0" using uint_nonnegative [of e] by (simp add: uint_0_iff)
  then have "bit (HRESULTFromLastError e) 16 \<or> HRESULTFromLastError e = E_FAIL"
    using win32_bits(2) [of e] by (auto simp: HRESULTFromLastError_def HRESULT_FROM_WIN32_def)
  moreover have "\<not> bit (itf_error 0x902) 16" "\<not> bit (itf_error 0x904) 16" "\<not> bit (itf_error 0x907) 16"
    by (simp_all add: hresult_defs)
  moreover have "E_FAIL \<notin> {itf_error 0x902, itf_error 0x904, itf_error 0x907}" by (simp add: hresult_defs)
  ultimately show ?thesis by auto
qed

text \<open>The results of one attempt: only an installer that times out may leave a kind of result with a failure.\<close>

definition attempt_ok :: "hresult \<Rightarrow> InstallerResultInfo \<Rightarrow> bool" where
  "attempt_ok hr info \<longleftrightarrow>
     (if SUCCEEDED hr then ir_type info = INSTALLER_RESULT_SUCCESS \<or> ir_text info \<noteq> NoMessage
      else if hr = itf_error 0x904 then ir_type info = INSTALLER_RESULT_UNKNOWN \<longrightarrow> ir_text info \<noteq> NoMessage
      else ir_type info = INSTALLER_RESULT_UNKNOWN \<and> hr \<notin> {itf_error 0x902, itf_error 0x907} \<and> ir_text info = NoMessage)"

lemma attempt:
  assumes "system_errors env"
  shows "attempt_ok (fst (DoExecuteAndWaitForInstaller env k g t new_InstallerResultInfo))
     (snd (DoExecuteAndWaitForInstaller env k g t new_InstallerResultInfo))"
proof (cases "ie_environment_block env k")
  case (Some e)
  with assms have "e < 0x10000" by (auto simp: system_errors_def split: option.splits dest: spec [of _ k])
  with Some HRESULTFromLastError_code [of e] HRESULTFromLastError_failed [of e] show ?thesis
    by (simp add: DoExecuteAndWaitForInstaller_def attempt_ok_def) (simp add: new_InstallerResultInfo_def)
next
  case None
  have x: "GetInstallerResultHelper env (ie_registry env k) t c = i \<Longrightarrow> ir_type i = INSTALLER_RESULT_UNKNOWN \<Longrightarrow> ir_text i \<noteq> NoMessage" for c i
    using GetInstallerResultHelper_text [of env "ie_registry env k" t c] by auto
  from None x show ?thesis using GetInstallerResultHelper_text [of env "ie_registry env k" t]
    by (auto simp: DoExecuteAndWaitForInstaller_def GetInstallerResult_def attempt_ok_def new_InstallerResultInfo_def hresult_defs
        split: process_end.splits)
qed

lemma execute_loop_result:
  assumes "\<And>k. attempt_ok (fst (ex k new_InstallerResultInfo)) (snd (ex k new_InstallerResultInfo))"
    and "execute_loop ex (Suc n) k delay info slept = (hr, info', slept')"
  shows "if hr = itf_error 0x907 then is_system_error info' \<and> ir_text info' \<noteq> NoMessage else attempt_ok hr info'"
  using assms(2)
proof (induction n arbitrary: k delay info slept)
  case 0
  then show ?case using assms(1) [of k]
    by (auto simp: attempt_ok_def msi_busy_def is_system_error_def hresult_defs split: if_splits prod.splits)
next
  case (Suc n)
  obtain h i where e: "ex k new_InstallerResultInfo = (h, i)" by fastforce
  show ?case
  proof (cases "SUCCEEDED h \<and> msi_busy i")
    case True
    with Suc.prems e obtain delay' slept'' where "execute_loop ex (Suc n) (Suc k) delay' i slept'' = (hr, info', slept')"
      by (auto simp del: execute_loop.simps simp: execute_loop.simps(2) [of ex "Suc n"] split: if_splits)
    from Suc.IH [OF this] show ?thesis .
  next
    case False
    with Suc.prems e assms(1) [of k] show ?thesis
      by (auto simp: attempt_ok_def hresult_defs split: if_splits)
  qed
qed

text \<open>A result with the code of a timeout is that of an attempt that timed out.\<close>

lemma execute_loop_timeout:
  assumes "execute_loop ex n k delay info slept = (itf_error 0x904, info', slept')"
  shows "\<exists>j<n. ex (k + j) new_InstallerResultInfo = (itf_error 0x904, info')"
  using assms
proof (induction n arbitrary: k delay info slept)
  case (Suc n)
  obtain h i where e: "ex k new_InstallerResultInfo = (h, i)" by fastforce
  show ?case
  proof (cases "SUCCEEDED h \<and> msi_busy i")
    case True
    with Suc.prems e obtain delay' slept'' where "execute_loop ex n (Suc k) delay' i slept'' = (itf_error 0x904, info', slept')"
      by (auto split: if_splits)
    from Suc.IH [OF this] obtain j where "j < n" "ex (Suc k + j) new_InstallerResultInfo = (itf_error 0x904, info')" by blast
    then show ?thesis by (intro exI [of _ "Suc j"]) simp
  next
    case False
    with Suc.prems e show ?thesis by (intro exI [of _ 0]) (auto split: if_splits)
  qed
qed (simp add: hresult_defs)

text \<open>What \<open>InstallerWrapper::InstallApp\<close> asserts of its result.\<close>

definition InstallApp_assertions :: "hresult \<Rightarrow> InstallerResultInfo \<Rightarrow> bool" where
  "InstallApp_assertions hr info \<longleftrightarrow>
     (SUCCEEDED hr \<and> ir_type info = INSTALLER_RESULT_SUCCESS
      \<or> hr = itf_error 0x902 \<and> (ir_type info = INSTALLER_RESULT_ERROR_MSI \<or> ir_type info = INSTALLER_RESULT_ERROR_SYSTEM
          \<or> ir_type info = INSTALLER_RESULT_ERROR_OTHER)
      \<or> hr = itf_error 0x907 \<and> (ir_type info = INSTALLER_RESULT_ERROR_MSI \<or> ir_type info = INSTALLER_RESULT_ERROR_SYSTEM)
      \<or> FAILED hr \<and> ir_type info = INSTALLER_RESULT_UNKNOWN)
     \<and> ((\<not> text_IsEmpty (ir_text info)) = (hr = itf_error 0x902 \<or> hr = itf_error 0x904 \<or> hr = itf_error 0x907) \<or> SUCCEEDED hr)"

lemma BuildCommandLine_error: "BuildCommandLineFromFilename env p args data = Inl e \<Longrightarrow> e = itf_error 0x900"
  by (auto simp: BuildCommandLineFromFilename_def Let_def split: if_splits list.splits)

lemma DoInstallApp_cases:
  assumes "DoInstallApp env m n g path args data = (hr, info)"
  obtains "hr = itf_error 0x900" "info = new_InstallerResultInfo"
  | h t sl where "ExecuteAndWaitForInstaller env n g t = (h, info, sl)"
      "hr = (if FAILED h then h else if ir_type info \<noteq> INSTALLER_RESULT_SUCCESS then itf_error 0x902 else S_OK)"
proof -
  let ?args = "if g = kChromeAppId \<and> m then args @ '' --system-level'' else args"
  show ?thesis
  proof (cases "BuildCommandLineFromFilename env path ?args data")
    case (Inl e)
    with BuildCommandLine_error [OF Inl] assms that(1) show ?thesis by (simp add: DoInstallApp_def Let_def)
  next
    case (Inr c)
    obtain x y t where c: "c = (x, y, t)" by (metis prod_cases3)
    obtain h i sl where r: "ExecuteAndWaitForInstaller env n g t = (h, i, sl)" by (metis prod_cases3)
    with assms Inr c that(2) show ?thesis by (auto simp: DoInstallApp_def Let_def split: if_splits)
  qed
qed

text \<open>The result that the install manager relies on, whatever the installer does.\<close>

lemma DoInstallApp_result:
  assumes "system_errors env" and "DoInstallApp env m (Suc n) g path args data = (hr, info)"
  shows "InstallApp_assertions hr info \<longleftrightarrow> \<not> (hr = itf_error 0x904 \<and> ir_type info \<noteq> INSTALLER_RESULT_UNKNOWN)"
    and "hr = itf_error 0x902 \<Longrightarrow> ir_type info \<noteq> INSTALLER_RESULT_SUCCESS \<and> ir_text info \<noteq> NoMessage"
proof -
  have f: "\<not> SUCCEEDED (itf_error 0x907)" "\<not> SUCCEEDED (itf_error 0x902)" "\<not> SUCCEEDED (itf_error 0x904)" "itf_error 0x907 \<noteq> itf_error 0x902"
    "itf_error 0x904 \<noteq> itf_error 0x902" "itf_error 0x904 \<noteq> itf_error 0x907"
    by (simp_all add: hresult_defs)
  from assms(2) have "(InstallApp_assertions hr info \<longleftrightarrow> \<not> (hr = itf_error 0x904 \<and> ir_type info \<noteq> INSTALLER_RESULT_UNKNOWN))
    \<and> (hr = itf_error 0x902 \<longrightarrow> ir_type info \<noteq> INSTALLER_RESULT_SUCCESS \<and> ir_text info \<noteq> NoMessage)"
  proof (cases rule: DoInstallApp_cases)
    case 1
    then show ?thesis by (simp add: InstallApp_assertions_def new_InstallerResultInfo_def text_IsEmpty_def hresult_defs)
  next
    case (2 h t sl)
    have a: "if h = itf_error 0x907 then is_system_error info \<and> ir_text info \<noteq> NoMessage else attempt_ok h info"
      by (rule execute_loop_result [OF attempt [OF assms(1)] 2(1) [unfolded ExecuteAndWaitForInstaller_def]])
    show ?thesis
      using a f unfolding 2(2)
      by (cases "ir_type info")
        (auto simp: attempt_ok_def InstallApp_assertions_def is_system_error_def text_IsEmpty_def split: if_splits)
  qed
  then show "InstallApp_assertions hr info \<longleftrightarrow> \<not> (hr = itf_error 0x904 \<and> ir_type info \<noteq> INSTALLER_RESULT_UNKNOWN)"
    "hr = itf_error 0x902 \<Longrightarrow> ir_type info \<noteq> INSTALLER_RESULT_SUCCESS \<and> ir_text info \<noteq> NoMessage" by blast+
qed

lemma DoInstallApp_timeout:
  assumes "system_errors env" and "DoInstallApp env m (Suc n) g path args data = (itf_error 0x904, info)"
  shows "\<exists>k\<le>n. ie_wait env k = StillRunning \<and> (api_silent (ie_registry env k) \<longrightarrow> ir_type info = INSTALLER_RESULT_UNKNOWN)"
  using assms(2)
proof (cases rule: DoInstallApp_cases)
  case (2 h t sl)
  then have "execute_loop (\<lambda>k. DoExecuteAndWaitForInstaller env k g t) (Suc n) 0 5000 new_InstallerResultInfo [] = (itf_error 0x904, info, sl)"
    by (simp add: ExecuteAndWaitForInstaller_def hresult_defs split: if_splits)
  from execute_loop_timeout [OF this] obtain j where j: "j < Suc n"
    "DoExecuteAndWaitForInstaller env j g t new_InstallerResultInfo = (itf_error 0x904, info)" by auto
  have e: "ie_environment_block env j = None \<or> HRESULTFromLastError (the (ie_environment_block env j)) \<noteq> itf_error 0x904"
    using assms(1) HRESULTFromLastError_code by (auto simp: system_errors_def split: option.splits dest: spec [of _ j])
  from j e have "ie_wait env j = StillRunning \<and> info = GetInstallerResultHelper env (ie_registry env j) t (itf_error 0x904)"
    by (auto simp: DoExecuteAndWaitForInstaller_def GetInstallerResult_def hresult_defs split: option.splits if_splits process_end.splits)
  with j(1) timeout_unknown show ?thesis by (intro exI [of _ j]) simp
qed (simp add: hresult_defs)

text \<open>C36. What the wrapper asserts of its result holds with one exception: success comes with a success result, an installer error with its
  kind, and another failure without a result; and there is a message for the user exactly for an installer that failed, timed out or found
  the Windows Installer busy at every attempt. The assertion fails exactly if the failure is a timeout and comes with a kind of result, which
  requires that an installer which was still running at the timeout had written an installer result to the registry. It is assumed that creating the environment
  block fails with a system error code of Windows.\<close>

theorem DoInstallApp_asserts:
  assumes "system_errors env" and "DoInstallApp env m (Suc n) g path args data = (hr, info)"
  shows "(InstallApp_assertions hr info \<longleftrightarrow> \<not> (hr = itf_error 0x904 \<and> ir_type info \<noteq> INSTALLER_RESULT_UNKNOWN))
    \<and> (\<not> InstallApp_assertions hr info \<longrightarrow> (\<exists>k\<le>n. ie_wait env k = StillRunning \<and> \<not> api_silent (ie_registry env k)))"
  using DoInstallApp_result(1) [OF assms] DoInstallApp_timeout [OF assms(1)] assms(2) by (metis (full_types))

text \<open>An installer that writes its success to the registry and then does not end.\<close>

definition hanging_env :: installer_env where
  "hanging_env = busy_env\<lparr>ie_wait := (\<lambda>_. StillRunning),
     ie_registry := (\<lambda>_. Some \<lparr>api_InstallerResult = Some 0, api_InstallerError = None, api_InstallerExtraCode1 = None,
       api_InstallerResultUIString = None, api_InstallerSuccessLaunchCmdLine = None\<rparr>)\<rparr>"

theorem DoInstallApp_asserts_witness:
  "(let r = DoInstallApp busy_env False (Suc 3) ''{A}'' ''x'' [] [] in InstallApp_assertions (fst r) (snd r))
   \<and> (let r = DoInstallApp hanging_env False (Suc 3) ''{A}'' ''x'' [] [] in \<not> InstallApp_assertions (fst r) (snd r))"
proof -
  obtain hr info where r: "DoInstallApp busy_env False (Suc 3) ''{A}'' ''x'' [] [] = (hr, info)" by fastforce
  have "system_errors busy_env" by (simp add: system_errors_def busy_env_def)
  from DoInstallApp_asserts [OF this r] have b: "InstallApp_assertions hr info"
    by (rule conjE) (rule ccontr, simp add: busy_env_def)
  obtain hr' info' where r': "DoInstallApp hanging_env False (Suc 3) ''{A}'' ''x'' [] [] = (hr', info')" by fastforce
  have "fst (DoInstallApp hanging_env False (Suc 3) ''{A}'' ''x'' [] []) = itf_error 0x904"
    "ir_type (snd (DoInstallApp hanging_env False (Suc 3) ''{A}'' ''x'' [] [])) = INSTALLER_RESULT_SUCCESS" by code_simp+
  moreover have "system_errors hanging_env" by (simp add: system_errors_def hanging_env_def busy_env_def)
  ultimately have "\<not> InstallApp_assertions hr' info'" using DoInstallApp_asserts [OF _ r'] r' by simp
  with b show ?thesis unfolding r r' Let_def by simp
qed

section \<open>The registration of an app\<close>

text \<open>The registration check accepts an update exactly if the installer has changed the version, to the expected one if there is
  one, and accepts an install exactly if the registered version is the expected one, or both are version numbers and
  the registered one is not lower. An update for which a newer version is already registered is refused.\<close>

theorem CheckApplicationRegistration_iff:
  "CheckApplicationRegistration registered expected previous upd = S_OK \<longleftrightarrow>
     registered \<noteq> [] \<and>
     (if upd then registered \<noteq> previous \<and> (expected = [] \<or> registered = expected)
      else expected = [] \<or> registered = expected
        \<or> VersionFromString expected \<noteq> 0 \<and> VersionFromString expected \<le> VersionFromString registered)"
  by (auto simp: CheckApplicationRegistration_def hresult_defs not_less)

text \<open>An installer result that is negative as a signed number is not replaced by the default: no result type is set, although the
  exit code says that the installer succeeded.\<close>

lemma negative_installer_result:
  assumes "api_InstallerResult api = Some 0xFFFFFFFF" and "api_InstallerResultUIString api = None"
  shows "ir_type (GetInstallerResultHelper env (Some api) t 0) = INSTALLER_RESULT_UNKNOWN"
  using assms
  by (simp add: GetInstallerResultHelper_def ReadInstallerResultApiValues_def Let_def with_default_def ensure_text_type
      set_post_install_action_def is_system_error_def result_type_def new_InstallerResultInfo_def)

end
