(* ===== verification/Install_Manager.thy ===== *)
theory Install_Manager
  imports Installer_Wrapper Download_Manager
begin

text \<open>
  The install manager (\<open>goopdate/install_manager.cc\<close>): running the installer of one app and reporting its result to the app.

  The record \<open>install_env\<close> extends the one of the installer wrapper with the properties of the bundle and with what the registry
  holds when the installer has ended. A client may cancel before the app is marked as installing (point 0 of the
  schedule) and while the installer runs (point 1); the model lock is not held there.
\<close>

section \<open>Installing an app\<close>

record install_env = installer_env +
  ie_session_id :: string
  ie_priority :: int
  ie_WritePreInstallData :: "App \<Rightarrow> hresult"
  ie_registered_version :: "string option"
  ie_is_registered :: bool

definition INSTALL_PRIORITY_HIGH :: int where
  "INSTALL_PRIORITY_HIGH = 10"

definition kNumMsiAlreadyRunningInteractiveMaxTries :: nat where
  "kNumMsiAlreadyRunningInteractiveMaxTries = 4"

definition kNumMsiAlreadyRunningSilentMaxTries :: nat where
  "kNumMsiAlreadyRunningSilentMaxTries = 7"

definition GetInstallActionForEvent :: "InstallAction list \<Rightarrow> InstallEvent \<Rightarrow> InstallAction option" where
  "GetInstallActionForEvent actions event = find (\<lambda>a. install_event a = event) actions"

definition success_post_install_action :: "InstallAction \<Rightarrow> InstallerResultInfo \<Rightarrow> PostInstallAction" where
  "success_post_install_action action info =
     (if ir_post_install_action info = POST_INSTALL_ACTION_LAUNCH_COMMAND
         \<and> success_action action = SUCCESS_ACTION_EXIT_SILENTLY_ON_LAUNCH_CMD
      then POST_INSTALL_ACTION_EXIT_SILENTLY_ON_LAUNCH_COMMAND
      else if ir_post_install_action info = POST_INSTALL_ACTION_DEFAULT then
        (if success_action action = SUCCESS_ACTION_EXIT_SILENTLY then POST_INSTALL_ACTION_EXIT_SILENTLY
         else if \<not> IsEmpty (ir_post_install_url info) then
           (if terminate_all_browsers action then POST_INSTALL_ACTION_RESTART_ALL_BROWSERS else POST_INSTALL_ACTION_RESTART_BROWSER)
         else ir_post_install_action info)
      else ir_post_install_action info)"

definition PopulateSuccessfulInstallResultInfo :: "InstallAction list \<Rightarrow> InstallerResultInfo \<Rightarrow> InstallerResultInfo" where
  "PopulateSuccessfulInstallResultInfo actions info =
     (let info1 = (case GetInstallActionForEvent actions kPostInstall of
                     None \<Rightarrow> info
                   | Some action \<Rightarrow>
                       let i = info\<lparr>ir_post_install_url := success_url action\<rparr>
                       in i\<lparr>ir_post_install_action := success_post_install_action action i\<rparr>)
      in if text_IsEmpty (ir_text info1)
         then info1\<lparr>ir_text := LoadString IDS_APPLICATION_INSTALLED_SUCCESSFULLY\<rparr> else info1)"

text \<open>What is run for an app: the path of the installer, its arguments and data and the version that it must register.\<close>

record install_command =
  ic_path :: string
  ic_arguments :: string
  ic_data :: string
  ic_expected_version :: string
  ic_actions :: "InstallAction list"

definition manifest_arguments :: "install_env \<Rightarrow> App \<Rightarrow> InstallAction list \<Rightarrow> string" where
  "manifest_arguments iv a actions =
     (case GetInstallActionForEvent actions (if is_update a then kUpdate else kInstall) of
        None \<Rightarrow> []
      | Some action \<Rightarrow>
          program_arguments action
          @ (if is_update a \<and> app_guid a = kGoopdateGuid
             then '' /sessionid '' @ [CHR 0x22] @ ie_session_id iv @ [CHR 0x22] else []))"

text \<open>The first block under the model lock. A missing manifest is dereferenced.\<close>

definition prepare_install :: "os \<Rightarrow> app_env \<Rightarrow> install_env \<Rightarrow> string \<Rightarrow> App \<Rightarrow> (hresult + install_command) \<times> App" where
  "prepare_install os env iv dir a =
     (let a1 = App_Installing env a
      in case packages (next_version a1) of
           [] \<Rightarrow> (Inl E_FAIL, App_Error env (ErrorContext1 E_FAIL) (InstallerWrapper_GetMessageForError E_FAIL []) a1)
         | p # _ \<Rightarrow>
             case install_manifest (next_version a1) of
               None \<Rightarrow> (Inl E_POINTER, add_effect Eff_NullDereference a1)
             | Some m \<Rightarrow>
                 let hr = ie_WritePreInstallData iv a1
                 in if \<not> is_update a1 \<and> FAILED hr
                    then (Inl hr, App_Error env (ErrorContext1 hr) (InstallerWrapper_GetMessageForError hr []) a1)
                    else (Inr \<lparr>ic_path = ConcatenatePath os dir (filename p),
                              ic_arguments = manifest_arguments iv a1 (install_actions m),
                              ic_data = App_GetInstallData a1, ic_expected_version = im_version m,
                              ic_actions = install_actions m\<rparr>, a1))"

definition check_registration :: "install_env \<Rightarrow> string \<Rightarrow> string \<Rightarrow> App \<Rightarrow> hresult \<times> App" where
  "check_registration iv existing_version expected_version a =
     (if app_guid a = kGoopdateGuid then (S_OK, a)
      else case ReadInstallerRegistrationValues (ie_registered_version iv) a of (hr, a1) \<Rightarrow>
        if SUCCEEDED hr
        then (CheckApplicationRegistration (version (next_version a1)) expected_version existing_version (is_update a1), a1)
        else (hr, a1))"

text \<open>What an installation does to the system: calling the installer wrapper and removing the state key of an app that it did not register.\<close>

datatype install_effect = CalledInstallerWrapper string string string | RemovedClientState

text \<open>The last block under the model lock.\<close>

definition report_install :: "app_env \<Rightarrow> install_env \<Rightarrow> install_command \<Rightarrow> hresult \<Rightarrow> InstallerResultInfo \<Rightarrow> App \<Rightarrow>
    hresult \<times> App \<times> install_effect list" where
  "report_install env iv cmd hr info a =
     (if FAILED hr then
        (let removed = (if \<not> is_update a \<and> \<not> ie_is_registered iv then [RemovedClientState] else [])
         in if hr = itf_error 0x902 then (hr, App_ReportInstallerComplete env info a, removed)
            else (hr, App_Error env \<lparr>error_code = hr, extra_code1 = ir_extra_code1 info\<rparr>
                        (InstallerWrapper_GetMessageForError hr (ic_path cmd)) a, removed))
      else (S_OK, App_ReportInstallerComplete env (PopulateSuccessfulInstallResultInfo (ic_actions cmd) info) a, []))"

definition finish_install :: "app_env \<Rightarrow> install_env \<Rightarrow> string \<Rightarrow> install_command \<Rightarrow> hresult \<Rightarrow> InstallerResultInfo \<Rightarrow> App \<Rightarrow>
    hresult \<times> App \<times> install_effect list" where
  "finish_install env iv existing_version cmd hr info a =
     (case (if SUCCEEDED hr then check_registration iv existing_version (ic_expected_version cmd) a else (hr, a)) of (hr1, a1) \<Rightarrow>
        report_install env iv cmd hr1 info a1)"

definition InstallApp :: "os \<Rightarrow> app_env \<Rightarrow> install_env \<Rightarrow> (nat \<Rightarrow> bool) \<Rightarrow> string \<Rightarrow> nat \<Rightarrow> App \<Rightarrow> string \<Rightarrow>
    hresult \<times> App \<times> install_effect list" where
  "InstallApp os env iv sched existing_version num_tries a dir =
     (case prepare_install os env iv dir (interfere env sched 0 a) of
        (Inl hr, a1) \<Rightarrow> (hr, a1, [])
      | (Inr cmd, a1) \<Rightarrow>
          case DoInstallApp (installer_env.truncate iv) (bundle_is_machine env) num_tries (app_guid a1) (ic_path cmd) (ic_arguments cmd) (ic_data cmd) of
            (hr, info) \<Rightarrow>
            let a2 = SetCurrentTimeAs env TIME_INSTALL_COMPLETE
                       (interfere env sched 1 (SetCurrentTimeAs env TIME_INSTALL_START a1))
            in case finish_install env iv existing_version cmd hr info a2 of (hr1, a3, removed) \<Rightarrow>
                 (hr1, a3, CalledInstallerWrapper (ic_path cmd) (ic_arguments cmd) (ic_data cmd) # removed))"

definition InstallManager_InstallApp :: "os \<Rightarrow> app_env \<Rightarrow> install_env \<Rightarrow> (nat \<Rightarrow> bool) \<Rightarrow> App \<Rightarrow> string \<Rightarrow>
    hresult \<times> App \<times> install_effect list" where
  "InstallManager_InstallApp os env iv sched a dir =
     (let num_tries = (if ie_priority iv < INSTALL_PRIORITY_HIGH then kNumMsiAlreadyRunningSilentMaxTries
                       else kNumMsiAlreadyRunningInteractiveMaxTries)
      in case InstallApp os env iv sched (current_version a) num_tries a dir of (hr, a1, fx) \<Rightarrow>
           (hr, LogTextAppend (''Install result=0x'' @ hex8 hr) a1, fx))"

section \<open>The contract of an installation\<close>

lemma DoInstallApp_success: "DoInstallApp ie m n g path args data = (hr, info) \<Longrightarrow> SUCCEEDED hr \<Longrightarrow> ir_type info = INSTALLER_RESULT_SUCCESS"
  by (auto simp: DoInstallApp_def Let_def split: sum.splits prod.splits if_splits dest!: BuildCommandLine_error) (simp_all add: hresult_defs)

lemma GetMessage_nonempty: "InstallerWrapper_GetMessageForError hr f \<noteq> NoMessage"
  by (simp add: InstallerWrapper_GetMessageForError_def)

lemma Populate_simps:
  "ir_type (PopulateSuccessfulInstallResultInfo actions info) = ir_type info"
  "ir_text (PopulateSuccessfulInstallResultInfo actions info) \<noteq> NoMessage"
  by (auto simp: PopulateSuccessfulInstallResultInfo_def Let_def text_IsEmpty_def split: option.split)

lemma check_registration_view:
  assumes "check_registration iv cur ex a = (hr, a')"
  shows "app_state a' = app_state a" "is_update a' = is_update a" "app_guid a' = app_guid a"
    "hr \<noteq> itf_error 0x902"
  using assms
  by (auto simp: check_registration_def ReadInstallerRegistrationValues_def CheckApplicationRegistration_def hresult_defs
      split: if_splits option.splits)

lemma check_registration_ok:
  assumes "check_registration iv cur ex a = (hr, a')" and "SUCCEEDED hr" and "app_guid a \<noteq> kGoopdateGuid"
  shows "\<exists>v. ie_registered_version iv = Some v \<and> version (next_version a') = v
     \<and> CheckApplicationRegistration v ex cur (is_update a) = S_OK"
  using assms
  by (auto simp: check_registration_def ReadInstallerRegistrationValues_def CheckApplicationRegistration_def hresult_defs
      split: if_splits option.splits)

lemma report_complete:
  assumes "app_state a = STATE_INSTALLING"
  shows "app_state (App_ReportInstallerComplete env info a) =
      (if ir_type info = INSTALLER_RESULT_SUCCESS then STATE_INSTALL_COMPLETE else STATE_ERROR)"
    "completion_message (App_ReportInstallerComplete env info a) = ir_text info"
    "next_version (App_ReportInstallerComplete env info a) = next_version a"
  using assms
  by (simp_all add: App_ReportInstallerComplete_def Installing_ReportInstallerComplete_def new_InstallComplete_def Let_def app_simps
      SetInstallerResult_def split: InstallerResultType.split)

lemma report_error:
  assumes "app_state a = STATE_INSTALLING"
  shows "app_state (App_Error env ec m a) = STATE_ERROR" "completion_message (App_Error env ec m a) = m"
  using assms by (simp_all add: App_Error_def AppState_Error_def app_simps)

lemma report_install_contract:
  assumes "report_install env iv cmd hr info a = (hr', a', fx)" and "app_state a = STATE_INSTALLING"
    and "SUCCEEDED hr \<Longrightarrow> ir_type info = INSTALLER_RESULT_SUCCESS"
    and "hr = itf_error 0x902 \<Longrightarrow> ir_type info \<noteq> INSTALLER_RESULT_SUCCESS \<and> ir_text info \<noteq> NoMessage"
  shows "app_state a' = (if FAILED hr' then STATE_ERROR else STATE_INSTALL_COMPLETE)" "completion_message a' \<noteq> NoMessage"
    "SUCCEEDED hr' \<longleftrightarrow> SUCCEEDED hr" "SUCCEEDED hr' \<Longrightarrow> next_version a' = next_version a"
  using assms
  by (auto simp: report_install_def Let_def report_complete report_error Populate_simps GetMessage_nonempty hresult_defs split: if_splits)

lemma interfere_installing: "app_state a = STATE_INSTALLING \<Longrightarrow> interfere env sched k a = a"
  by (simp add: interfere_def App_Cancel_def)

lemma prepare_install_ok:
  assumes "prepare_install os env iv dir a = (Inr cmd, a1)" and "app_state a = STATE_WAITING_TO_INSTALL"
  shows "app_state a1 = STATE_INSTALLING" "is_update a1 = is_update a" "app_guid a1 = app_guid a"
    "\<exists>m. install_manifest (next_version a) = Some m \<and> ic_expected_version cmd = im_version m"
  using assms
  by (auto simp: prepare_install_def Let_def App_Installing_def app_simps split: list.splits option.splits if_splits)

lemma prepare_install_fails:
  assumes "prepare_install os env iv dir a = (Inl hr, a1)" and "app_state a = STATE_WAITING_TO_INSTALL"
    and "install_manifest (next_version a) \<noteq> None"
  shows "FAILED hr" "app_state a1 = STATE_ERROR" "completion_message a1 \<noteq> NoMessage"
  using assms
  by (auto simp: prepare_install_def Let_def App_Installing_def app_simps report_error GetMessage_nonempty hresult_defs
      split: list.splits option.splits if_splits)

lemma finish_install_contract:
  assumes "finish_install env iv cur cmd h info a = (hr, a', fx)" and st: "app_state a = STATE_INSTALLING"
    and failed: "h = itf_error 0x902 \<Longrightarrow> ir_type info \<noteq> INSTALLER_RESULT_SUCCESS \<and> ir_text info \<noteq> NoMessage" and ok: "SUCCEEDED h \<Longrightarrow> ir_type info = INSTALLER_RESULT_SUCCESS"
  shows "app_state a' = (if FAILED hr then STATE_ERROR else STATE_INSTALL_COMPLETE) \<and> completion_message a' \<noteq> NoMessage
    \<and> (SUCCEEDED hr \<longrightarrow> app_guid a \<noteq> kGoopdateGuid \<longrightarrow>
       (\<exists>v. ie_registered_version iv = Some v \<and> version (next_version a') = v
         \<and> CheckApplicationRegistration v (ic_expected_version cmd) cur (is_update a) = S_OK))"
proof -
  obtain h1 a1 where c: "(if SUCCEEDED h then check_registration iv cur (ic_expected_version cmd) a else (h, a)) = (h1, a1)"
    by fastforce
  with assms(1) have rep: "report_install env iv cmd h1 info a1 = (hr, a', fx)" by (simp add: finish_install_def)
  have st1: "app_state a1 = STATE_INSTALLING" using c st check_registration_view(1) by (auto split: if_splits)
  have s: "SUCCEEDED h1 \<Longrightarrow> ir_type info = INSTALLER_RESULT_SUCCESS" using c ok by (auto split: if_splits)
  have "h1 = itf_error 0x902 \<Longrightarrow> h = h1 \<and> \<not> SUCCEEDED h"
    using c check_registration_view(4) [of iv cur "ic_expected_version cmd" a h1 a1] by (auto split: if_splits)
  then have f: "h1 = itf_error 0x902 \<Longrightarrow> ir_type info \<noteq> INSTALLER_RESULT_SUCCESS \<and> ir_text info \<noteq> NoMessage"
    using failed by simp
  note rc = report_install_contract [OF rep st1 s f]
  have "SUCCEEDED hr \<Longrightarrow> app_guid a \<noteq> kGoopdateGuid \<Longrightarrow>
       \<exists>v. ie_registered_version iv = Some v \<and> version (next_version a') = v
         \<and> CheckApplicationRegistration v (ic_expected_version cmd) cur (is_update a) = S_OK"
    using rc(3,4) c check_registration_ok [of iv cur "ic_expected_version cmd" a h1 a1] by (auto split: if_splits)
  with rc(1,2) show ?thesis by blast
qed

lemma InstallApp_result:
  assumes "app_state a = STATE_WAITING_TO_INSTALL" and "\<not> sched 0" and "install_manifest (next_version a) = Some m"
    and "system_errors (installer_env.truncate iv)"
    and "InstallApp os env iv sched cur (Suc n) a dir = (hr, a', fx)"
  shows "app_state a' = (if FAILED hr then STATE_ERROR else STATE_INSTALL_COMPLETE) \<and> completion_message a' \<noteq> NoMessage
    \<and> (SUCCEEDED hr \<longrightarrow> app_guid a \<noteq> kGoopdateGuid \<longrightarrow>
       (\<exists>v. ie_registered_version iv = Some v \<and> version (next_version a') = v
         \<and> CheckApplicationRegistration v (im_version m) cur (is_update a) = S_OK))"
proof -
  have i: "interfere env sched 0 a = a" using assms(2) by (simp add: interfere_def)
  obtain p a1 where p: "prepare_install os env iv dir a = (p, a1)" by fastforce
  show ?thesis
  proof (cases p)
    case (Inl e)
    with assms(5) i p have "hr = e" "a' = a1" by (simp_all add: InstallApp_def)
    with prepare_install_fails [OF p [unfolded Inl] assms(1)] assms(3) show ?thesis by simp
  next
    case (Inr cmd)
    note p = p [unfolded Inr] and ok = prepare_install_ok [OF p [unfolded Inr] assms(1)]
    obtain h info where r: "DoInstallApp (installer_env.truncate iv) (bundle_is_machine env) (Suc n) (app_guid a1) (ic_path cmd)
        (ic_arguments cmd) (ic_data cmd) = (h, info)" by fastforce
    note failed = DoInstallApp_result(2) [OF assms(4) r]
    define a2 where "a2 = SetCurrentTimeAs env TIME_INSTALL_COMPLETE (SetCurrentTimeAs env TIME_INSTALL_START a1)"
    from ok have a2: "app_state a2 = STATE_INSTALLING" "is_update a2 = is_update a" "app_guid a2 = app_guid a"
      by (simp_all add: a2_def app_simps)
    from ok(1) have "interfere env sched 1 (SetCurrentTimeAs env TIME_INSTALL_START a1) = SetCurrentTimeAs env TIME_INSTALL_START a1"
      by (intro interfere_installing) (simp add: app_simps)
    then have "finish_install env iv cur cmd h info a2 = (hr, a', tl fx)"
      using assms(5) i p r unfolding a2_def by (auto simp: InstallApp_def Let_def split: prod.splits)
    from finish_install_contract [OF this a2(1) failed DoInstallApp_success [OF r]] a2 ok(4) assms(3) show ?thesis by auto
  qed
qed

text \<open>C17. An installation that no client cancels between the queue and its start returns what the install manager asserts, whatever the
  installer does, a timeout included: it fails exactly
  if the app ends in the error state, else the app is installed; there is always a message for the user; and an app other than the updater
  that is reported as installed has registered a version that the registration check accepts, which is now the version of the app. A
  cancellation while the installer runs has no effect. The hypotheses are that no cancellation comes while the manager waits for the lock,
  where C38 says what happens, and that the system error codes of Windows are below 0x10000.\<close>

theorem InstallApp_contract:
  assumes "app_state a = STATE_WAITING_TO_INSTALL" and "\<not> sched 0" and "install_manifest (next_version a) = Some m"
    and "system_errors (installer_env.truncate iv)"
    and "InstallApp os env iv sched cur (Suc n) a dir = (hr, a', fx)"
  shows "app_state a' = (if FAILED hr then STATE_ERROR else STATE_INSTALL_COMPLETE) \<and> completion_message a' \<noteq> NoMessage
    \<and> (SUCCEEDED hr \<longrightarrow> app_guid a \<noteq> kGoopdateGuid \<longrightarrow>
       (\<exists>v. ie_registered_version iv = Some v \<and> version (next_version a') = v
         \<and> CheckApplicationRegistration v (im_version m) cur (is_update a) = S_OK))"
  by (rule InstallApp_result [OF assms])

section \<open>A cancellation that comes too early\<close>

lemma invalid_transition:
  "app_state (HandleInvalidStateTransition env a) = STATE_ERROR"
  "error_code (error_context (HandleInvalidStateTransition env a)) = omaha_error 0x818"
  by (simp_all add: HandleInvalidStateTransition_def AppState_Error_def app_simps)

lemma cancel_waiting: "app_state a = STATE_WAITING_TO_INSTALL \<Longrightarrow> app_state (App_Cancel env a) = STATE_ERROR"
  by (simp add: App_Cancel_def AppState_Cancel_def Let_def app_simps)

lemma cancel_keeps:
  "is_update (App_Cancel env a) = is_update a" "next_version (App_Cancel env a) = next_version a"
  by (simp_all add: App_Cancel_def AppState_Cancel_def Let_def app_simps split: CurrentState.split)

lemma error_is_final:
  assumes "app_state a = STATE_ERROR" and "error_code (error_context a) = omaha_error 0x818"
  shows "interfere env sched k a = a" "App_Error env ec m a = a"
    "app_state (App_ReportInstallerComplete env info a) = STATE_ERROR"
    "error_code (error_context (App_ReportInstallerComplete env info a)) = omaha_error 0x818"
  using assms by (simp_all add: interfere_def App_Cancel_def App_Error_def App_ReportInstallerComplete_def invalid_transition)

text \<open>C38. An app that a client cancels after it was queued for installation and before the install manager marks it as installing is
  installed all the same: the installer wrapper is called, although the app is in the error state, and what the installer does is
  reported as an invalid transition instead of the cancellation.\<close>

theorem cancelled_app_is_installed:
  assumes "app_state a = STATE_WAITING_TO_INSTALL" and "sched 0"
    and "install_manifest (next_version a) = Some m" and "packages (next_version a) = p # ps"
    and "\<And>b. SUCCEEDED (ie_WritePreInstallData iv b)"
    and "InstallApp os env iv sched cur n a dir = (hr, a', fx)"
  shows "(\<exists>args data. CalledInstallerWrapper (ConcatenatePath os dir (filename p)) args data \<in> set fx)
    \<and> app_state a' = STATE_ERROR \<and> error_code (error_context a') = omaha_error 0x818"
proof -
  define b where "b = App_Installing env (App_Cancel env a)"
  have b: "app_state b = STATE_ERROR" "error_code (error_context b) = omaha_error 0x818"
    using cancel_waiting [OF assms(1), of env] by (simp_all add: b_def App_Installing_def invalid_transition)
  have v: "next_version b = next_version a"
    using cancel_waiting [OF assms(1), of env]
    by (simp add: b_def App_Installing_def HandleInvalidStateTransition_def AppState_Error_def app_simps cancel_keeps)
  obtain cmd where cmd: "prepare_install os env iv dir (interfere env sched 0 a) = (Inr cmd, b)"
    "ic_path cmd = ConcatenatePath os dir (filename p)"
    using assms(2-5) v by (simp add: prepare_install_def interfere_def b_def [symmetric] Let_def)
  obtain h info where r: "DoInstallApp (installer_env.truncate iv) (bundle_is_machine env) n (app_guid b) (ic_path cmd)
      (ic_arguments cmd) (ic_data cmd) = (h, info)" by fastforce
  define a2 where "a2 = SetCurrentTimeAs env TIME_INSTALL_COMPLETE
      (interfere env sched 1 (SetCurrentTimeAs env TIME_INSTALL_START b))"
  have a2: "app_state a2 = STATE_ERROR" "error_code (error_context a2) = omaha_error 0x818"
    using b by (simp_all add: a2_def error_is_final app_simps)
  obtain fx' where f: "finish_install env iv cur cmd h info a2 = (hr, a', fx')"
    and fx: "fx = CalledInstallerWrapper (ic_path cmd) (ic_arguments cmd) (ic_data cmd) # fx'"
    using assms(6) cmd r unfolding a2_def by (auto simp: InstallApp_def Let_def split: prod.splits)
  obtain h1 a3 where c: "(if SUCCEEDED h then check_registration iv cur (ic_expected_version cmd) a2 else (h, a2)) = (h1, a3)"
    by fastforce
  then have a3: "app_state a3 = STATE_ERROR" "error_code (error_context a3) = omaha_error 0x818"
    using a2
    by (auto simp: check_registration_def ReadInstallerRegistrationValues_def split: if_splits option.splits)
  with f c have "app_state a' = STATE_ERROR \<and> error_code (error_context a') = omaha_error 0x818"
    by (auto simp: finish_install_def report_install_def Let_def error_is_final split: if_splits)
  with fx cmd(2) show ?thesis by auto
qed

text \<open>An app in the install queue, and an installer that ends well and registers the expected version.\<close>

definition queued_app :: App where
  "queued_app = sample_app\<lparr>app_state := STATE_WAITING_TO_INSTALL, is_update := True, current_version := ''1'',
     next_version := (next_version sample_app)\<lparr>install_manifest :=
       Some \<lparr>im_name = [], im_version = ''2'', im_packages = [], install_actions = []\<rparr>\<rparr>\<rparr>"

definition good_installer :: install_env where
  "good_installer =
     \<lparr>ie_RemoveFileSpec = (\<lambda>_. True), ie_installer_data_file = (\<lambda>_. []), ie_PathFindExtension = (\<lambda>_. ''.exe''), ie_is_xp_sp2 = True,
      ie_environment_block = (\<lambda>_. None), ie_start = (\<lambda>_. S_OK), ie_wait = (\<lambda>_. Exited 0), ie_registry = (\<lambda>_. None),
      ie_system_message = (\<lambda>_. []), ie_session_id = [], ie_priority = 0, ie_WritePreInstallData = (\<lambda>_. S_OK),
      ie_registered_version = Some ''2'', ie_is_registered = True\<rparr>"

theorem InstallApp_contract_witness:
  "case InstallApp sample_os sample_env good_installer (\<lambda>k. k = 1) ''1'' (Suc 6) queued_app ''d'' of (hr, a, fx) \<Rightarrow>
     app_state a = (if FAILED hr then STATE_ERROR else STATE_INSTALL_COMPLETE) \<and> completion_message a \<noteq> NoMessage"
proof -
  obtain hr a fx where r: "InstallApp sample_os sample_env good_installer (\<lambda>k. k = 1) ''1'' (Suc 6) queued_app ''d'' = (hr, a, fx)"
    by (metis prod_cases3)
  have "app_state a = (if FAILED hr then STATE_ERROR else STATE_INSTALL_COMPLETE) \<and> completion_message a \<noteq> NoMessage
    \<and> (SUCCEEDED hr \<longrightarrow> app_guid queued_app \<noteq> kGoopdateGuid \<longrightarrow>
       (\<exists>v. ie_registered_version good_installer = Some v \<and> version (next_version a) = v
         \<and> CheckApplicationRegistration v
             (im_version \<lparr>im_name = [], im_version = ''2'', im_packages = [], install_actions = []\<rparr>) ''1'' (is_update queued_app) = S_OK))"
    by (rule InstallApp_contract [OF _ _ _ _ r]) (simp_all add: queued_app_def good_installer_def system_errors_def installer_env.defs)
  then show ?thesis unfolding r by simp
qed

theorem cancelled_app_is_installed_witness:
  "case InstallApp sample_os sample_env good_installer (\<lambda>k. k = 0) ''1'' 7 queued_app ''d'' of (hr, a, fx) \<Rightarrow>
     (\<exists>path args data. CalledInstallerWrapper path args data \<in> set fx) \<and> app_state a = STATE_ERROR"
proof -
  obtain p ps where p: "packages (next_version queued_app) = p # ps" by (simp add: queued_app_def sample_app_def)
  obtain hr a fx where r: "InstallApp sample_os sample_env good_installer (\<lambda>k. k = 0) ''1'' 7 queued_app ''d'' = (hr, a, fx)"
    by (metis prod_cases3)
  have "(\<exists>args data. CalledInstallerWrapper (ConcatenatePath sample_os ''d'' (filename p)) args data \<in> set fx)
    \<and> app_state a = STATE_ERROR \<and> error_code (error_context a) = omaha_error 0x818"
    by (rule cancelled_app_is_installed [OF _ _ _ p _ r]) (simp_all add: queued_app_def good_installer_def hresult_defs)
  then show ?thesis unfolding r by auto
qed

end
