(* ===== verification/App_Bundle.thy ===== *)
theory App_Bundle
  imports Install_Manager
begin

text \<open>
  The bundle of apps (\<open>goopdate/app_bundle.cc\<close>), its state machine (\<open>goopdate/app_bundle_state*.cc\<close>) and the calls of the
  worker that only queue a request (\<open>goopdate/worker.cc\<close>, \<open>goopdate/model.cc\<close>).

  A state object is a value of \<open>AppBundleState\<close>, with the members of its class. What Windows and the registry answer is the record
  \<open>bundle_env\<close>. Each call of a client runs under the model lock, so it is one step; the calls of clients, the completion of
  a request by the thread pool and what the worker does to an app while it serves a request are the steps of \<open>bundle_step\<close>.
\<close>

section \<open>The bundle\<close>

datatype AppBundleState =
    BundleInit
  | BundleInitialized (has_new_app: bool) (has_installed_app: bool) (has_reloaded_policy_managers: bool)
  | BundleBusy
  | BundleReady
  | BundlePaused (is_async_call_complete: bool)
  | BundleStopped

datatype work_item =
    Work_CheckForUpdate | Work_Download | Work_DownloadAndInstall | Work_UpdateAllApps | Work_DownloadPackage guid string

record AppBundle =
  ab_state :: AppBundleState
  ab_apps :: "App list"
  ab_uninstalled_apps :: "App list"
  ab_user_work_item :: "work_item option"
  ab_is_machine :: bool
  ab_is_auto_update :: bool
  ab_session_id :: string
  ab_priority :: int
  ab_display_language :: string
  ab_offline_dir :: string
  ab_has_update_check_client :: bool
  ab_alt_impersonation_token :: bool
  ab_alt_primary_token :: bool
  ab_impersonation_token :: bool
  ab_primary_token :: bool

text \<open>The values that the registry holds for an app.\<close>

record persistent_data =
  pd_is_eula_accepted :: bool
  pd_version :: string
  pd_display_name :: string
  pd_tt_token :: string
  pd_cohort :: "string \<times> string \<times> string"

record bundle_env =
  be_OpenProcess :: hresult
  be_DuplicateImpersonationToken :: hresult
  be_DuplicatePrimaryToken :: hresult
  be_GetGuid :: string
  be_GetCallerToken :: hresult
  be_TokenIsAdmin :: bool
  be_CreatePrimaryToken :: hresult
  be_impersonate :: hresult
  be_client_Initialize :: hresult
  be_StringToGuidSafe :: "string \<Rightarrow> hresult + guid"
  be_IsLanguageSupported :: "string \<Rightarrow> bool"
  be_LoadPolicies :: hresult
  be_CreateExternalUpdaterActiveEvent :: "string \<Rightarrow> hresult"
  be_ReadAppPersistentData :: "guid \<Rightarrow> hresult + persistent_data"
  be_GetRegisteredApps :: "hresult + string list"
  be_current_packages :: "App \<Rightarrow> Package list"
  be_QueueUserWorkItem :: hresult
  be_app_env :: app_env

definition new_AppBundle :: "bool \<Rightarrow> string \<Rightarrow> AppBundle" where
  "new_AppBundle is_machine default_language =
     \<lparr>ab_state = BundleInit, ab_apps = [], ab_uninstalled_apps = [], ab_user_work_item = None, ab_is_machine = is_machine,
      ab_is_auto_update = False, ab_session_id = [], ab_priority = INSTALL_PRIORITY_HIGH, ab_display_language = default_language,
      ab_offline_dir = [], ab_has_update_check_client = False, ab_alt_impersonation_token = False,
      ab_alt_primary_token = False, ab_impersonation_token = False, ab_primary_token = False\<rparr>"

text \<open>The environment of the apps of a bundle.\<close>

definition env_of :: "bundle_env \<Rightarrow> AppBundle \<Rightarrow> app_env" where
  "env_of be b = (be_app_env be)\<lparr>bundle_is_auto_update := ab_is_auto_update b, bundle_is_machine := ab_is_machine b,
     bundle_is_offline_install := \<not> IsEmpty (ab_offline_dir b), bundle_number_of_apps := length (ab_apps b)\<rparr>"

definition is_pending_non_blocking_call :: "AppBundle \<Rightarrow> bool" where
  "is_pending_non_blocking_call b \<longleftrightarrow> ab_user_work_item b \<noteq> None"

text \<open>\<open>GOOPDATE_E_CALL_UNEXPECTED\<close>; the state of the bundle does not change.\<close>

definition Bundle_HandleInvalidStateTransition :: "AppBundle \<Rightarrow> hresult \<times> AppBundle" where
  "Bundle_HandleInvalidStateTransition b = (omaha_error 0x819, b)"

definition Bundle_ChangeState :: "AppBundleState \<Rightarrow> AppBundle \<Rightarrow> AppBundle" where
  "Bundle_ChangeState s b = b\<lparr>ab_state := s\<rparr>"

definition CaptureCallerImpersonationToken :: "bundle_env \<Rightarrow> AppBundle \<Rightarrow> hresult \<times> AppBundle" where
  "CaptureCallerImpersonationToken be b =
     (if \<not> ab_is_machine b then (S_OK, b)
      else if FAILED (be_GetCallerToken be) then (be_GetCallerToken be, b\<lparr>ab_impersonation_token := False\<rparr>)
      else (S_OK, b\<lparr>ab_impersonation_token := True\<rparr>))"

definition CaptureCallerPrimaryToken :: "bundle_env \<Rightarrow> AppBundle \<Rightarrow> hresult \<times> AppBundle" where
  "CaptureCallerPrimaryToken be b =
     (if \<not> ab_is_machine b then (S_OK, b)
      else if \<not> be_TokenIsAdmin be then (E_UNEXPECTED, b)
      else if FAILED (be_CreatePrimaryToken be) then (be_CreatePrimaryToken be, b\<lparr>ab_primary_token := False\<rparr>)
      else (S_OK, b\<lparr>ab_primary_token := True\<rparr>))"

section \<open>Queueing a request\<close>

definition QueueDeferredFunctionCall :: "bundle_env \<Rightarrow> work_item \<Rightarrow> AppBundle \<Rightarrow> hresult \<times> AppBundle" where
  "QueueDeferredFunctionCall be w b =
     (if FAILED (be_QueueUserWorkItem be) then (be_QueueUserWorkItem be, b)
      else (S_OK, b\<lparr>ab_user_work_item := Some w\<rparr>))"

definition queue_async :: "bundle_env \<Rightarrow> work_item \<Rightarrow> (app_env \<Rightarrow> App \<Rightarrow> App) \<Rightarrow> AppBundle \<Rightarrow> hresult \<times> AppBundle" where
  "queue_async be w queue b =
     (case QueueDeferredFunctionCall be w b of (hr, b1) \<Rightarrow>
        if FAILED hr then (hr, b1)
        else (S_OK, b1\<lparr>ab_apps := map (queue (env_of be b1)) (ab_apps b1)\<rparr>))"

definition CheckForUpdateAsync :: "bundle_env \<Rightarrow> AppBundle \<Rightarrow> hresult \<times> AppBundle" where
  "CheckForUpdateAsync be = queue_async be Work_CheckForUpdate App_QueueUpdateCheck"

definition DownloadAsync :: "bundle_env \<Rightarrow> AppBundle \<Rightarrow> hresult \<times> AppBundle" where
  "DownloadAsync be = queue_async be Work_Download App_QueueDownload"

definition DownloadAndInstallAsync :: "bundle_env \<Rightarrow> AppBundle \<Rightarrow> hresult \<times> AppBundle" where
  "DownloadAndInstallAsync be = queue_async be Work_DownloadAndInstall App_QueueDownloadOrInstall"

definition UpdateAllAppsAsync :: "bundle_env \<Rightarrow> AppBundle \<Rightarrow> hresult \<times> AppBundle" where
  "UpdateAllAppsAsync be = queue_async be Work_UpdateAllApps App_QueueUpdateCheck"

definition DownloadPackageAsync :: "bundle_env \<Rightarrow> guid \<Rightarrow> string \<Rightarrow> AppBundle \<Rightarrow> hresult \<times> AppBundle" where
  "DownloadPackageAsync be g package_name =
     queue_async be (Work_DownloadPackage g package_name) (\<lambda>env a. if app_guid a = g then App_QueueDownload env a else a)"

definition Worker_Stop :: "bundle_env \<Rightarrow> DownloadManager \<Rightarrow> AppBundle \<Rightarrow> hresult \<times> DownloadManager \<times> AppBundle" where
  "Worker_Stop be dm b =
     (S_OK, fold DownloadManager_Cancel (ab_apps b) dm, b\<lparr>ab_apps := map (App_Cancel (env_of be b)) (ab_apps b)\<rparr>)"

text \<open>Neither is implemented: \<open>E_NOTIMPL\<close>.\<close>

definition Worker_Pause :: "AppBundle \<Rightarrow> hresult" where
  "Worker_Pause b = 0x80004001"

definition Worker_Resume :: "AppBundle \<Rightarrow> hresult" where
  "Worker_Resume b = 0x80004001"

section \<open>The states\<close>

definition Init_put_altTokens :: "bundle_env \<Rightarrow> AppBundle \<Rightarrow> hresult \<times> AppBundle" where
  "Init_put_altTokens be b =
     (if FAILED (be_OpenProcess be) then (be_OpenProcess be, b)
      else if ab_alt_impersonation_token b \<or> ab_alt_primary_token b then (E_UNEXPECTED, b)
      else if FAILED (be_DuplicateImpersonationToken be) then (be_DuplicateImpersonationToken be, b)
      else
        let b1 = b\<lparr>ab_alt_impersonation_token := True\<rparr>
        in if FAILED (be_DuplicatePrimaryToken be) then (be_DuplicatePrimaryToken be, b1)
           else (be_DuplicatePrimaryToken be, b1\<lparr>ab_alt_primary_token := True\<rparr>))"

text \<open>A session identifier that is a null pointer is None.\<close>

definition Init_put_sessionId :: "string option \<Rightarrow> AppBundle \<Rightarrow> hresult \<times> AppBundle" where
  "Init_put_sessionId session_id b =
     (case session_id of None \<Rightarrow> (E_POINTER, b) | Some s \<Rightarrow> (S_OK, b\<lparr>ab_session_id := s\<rparr>))"

definition Init_Initialize :: "bundle_env \<Rightarrow> AppBundle \<Rightarrow> hresult \<times> AppBundle" where
  "Init_Initialize be b =
     (let b1 = (if IsEmpty (ab_session_id b) then b\<lparr>ab_session_id := be_GetGuid be\<rparr> else b)
      in case CaptureCallerImpersonationToken be b1 of (hr, b2) \<Rightarrow>
           if FAILED hr then (hr, b2)
           else if FAILED (be_client_Initialize be) then (be_client_Initialize be, b2)
           else (S_OK, Bundle_ChangeState (BundleInitialized False False False) (b2\<lparr>ab_has_update_check_client := True\<rparr>)))"

definition IsAppInBundle :: "AppBundle \<Rightarrow> guid \<Rightarrow> bool" where
  "IsAppInBundle b g = list_ex (\<lambda>a. app_guid a = g) (ab_apps b)"

definition AddAppToBundle :: "App \<Rightarrow> AppBundle \<Rightarrow> AppBundle" where
  "AddAppToBundle a b = b\<lparr>ab_apps := ab_apps b @ [a]\<rparr>"

definition AddApp :: "App \<Rightarrow> AppBundle \<Rightarrow> hresult \<times> AppBundle" where
  "AddApp a b = (if IsAppInBundle b (app_guid a) then (omaha_error 0x819, b) else (S_OK, AddAppToBundle a b))"

text \<open>\<open>has_reloaded_policy_managers_\<close> after \<open>LoadPolicies\<close> was called, if it is called.\<close>

definition reload_policies :: "bundle_env \<Rightarrow> bool \<Rightarrow> bool \<Rightarrow> bool" where
  "reload_policies be allowed reloaded = (if \<not> reloaded \<and> allowed then SUCCEEDED (be_LoadPolicies be) else reloaded)"

definition Initialized_CreateApp :: "bundle_env \<Rightarrow> string \<Rightarrow> AppBundle \<Rightarrow> hresult \<times> AppBundle" where
  "Initialized_CreateApp be app_id b =
     (if has_installed_app (ab_state b) then Bundle_HandleInvalidStateTransition b
      else case be_StringToGuidSafe be app_id of
             Inl hr \<Rightarrow> (hr, b)
           | Inr g \<Rightarrow>
               case AddApp (new_App g False) b of (hr, b1) \<Rightarrow>
                 if FAILED hr then (hr, b1)
                 else (S_OK, b1\<lparr>ab_state := BundleInitialized True (has_installed_app (ab_state b))
                        (reload_policies be (\<not> ab_is_machine b) (has_reloaded_policy_managers (ab_state b)))\<rparr>))"

definition apply_persistent_data :: "persistent_data \<Rightarrow> App \<Rightarrow> App" where
  "apply_persistent_data pd a =
     a\<lparr>is_eula_accepted := (if pd_is_eula_accepted pd then TRISTATE_TRUE else TRISTATE_FALSE),
       current_version := pd_version pd, display_name := pd_display_name pd, tt_token := pd_tt_token pd, cohort := pd_cohort pd\<rparr>"

definition AddInstalledApp :: "bundle_env \<Rightarrow> string \<Rightarrow> AppBundle \<Rightarrow> hresult \<times> AppBundle" where
  "AddInstalledApp be app_id b =
     (case be_StringToGuidSafe be app_id of
        Inl hr \<Rightarrow> (hr, b)
      | Inr g \<Rightarrow>
          if IsAppInBundle b g then (omaha_error 0x819, b)
          else if be_CreateExternalUpdaterActiveEvent be app_id = omaha_error 0x81d then (omaha_error 0x81d, b)
          else case be_ReadAppPersistentData be g of
                 Inl hr \<Rightarrow> (hr, b)
               | Inr pd \<Rightarrow>
                   case AddApp (apply_persistent_data pd (new_App g True)) b of (hr, b1) \<Rightarrow>
                     if FAILED hr then (hr, b1)
                     else (S_OK, b1\<lparr>ab_state := BundleInitialized (has_new_app (ab_state b)) True
                            (has_reloaded_policy_managers (ab_state b))\<rparr>))"

definition set_reloaded :: "bundle_env \<Rightarrow> AppBundle \<Rightarrow> AppBundle" where
  "set_reloaded be b =
     b\<lparr>ab_state := BundleInitialized (has_new_app (ab_state b)) (has_installed_app (ab_state b))
        (reload_policies be True (has_reloaded_policy_managers (ab_state b)))\<rparr>"

definition Initialized_CreateInstalledApp :: "bundle_env \<Rightarrow> string \<Rightarrow> AppBundle \<Rightarrow> hresult \<times> AppBundle" where
  "Initialized_CreateInstalledApp be app_id b =
     (if has_new_app (ab_state b) then Bundle_HandleInvalidStateTransition b
      else case AddInstalledApp be app_id b of (hr, b1) \<Rightarrow>
        if FAILED hr then (hr, b1) else (S_OK, set_reloaded be b1))"

text \<open>The errors of the single apps are ignored.\<close>

definition Initialized_CreateAllInstalledApps :: "bundle_env \<Rightarrow> AppBundle \<Rightarrow> hresult \<times> AppBundle" where
  "Initialized_CreateAllInstalledApps be b =
     (if 0 < length (ab_apps b) then Bundle_HandleInvalidStateTransition b
      else case be_GetRegisteredApps be of
             Inl hr \<Rightarrow> (hr, b)
           | Inr ids \<Rightarrow> (S_OK, set_reloaded be (foldl (\<lambda>b app_id. snd (AddInstalledApp be app_id b)) b ids)))"

text \<open>A call of the model that queues a request, and then the change to the busy state.\<close>

definition busy_if :: "hresult \<times> AppBundle \<Rightarrow> hresult \<times> AppBundle" where
  "busy_if r = (case r of (hr, b) \<Rightarrow> if FAILED hr then (hr, b) else (S_OK, Bundle_ChangeState BundleBusy b))"

definition Initialized_CheckForUpdate :: "bundle_env \<Rightarrow> AppBundle \<Rightarrow> hresult \<times> AppBundle" where
  "Initialized_CheckForUpdate be b =
     (if length (ab_apps b) = 0 then Bundle_HandleInvalidStateTransition b else busy_if (CheckForUpdateAsync be b))"

definition Bundle_DoDownloadPackage :: "bundle_env \<Rightarrow> string \<Rightarrow> string \<Rightarrow> AppBundle \<Rightarrow> hresult \<times> AppBundle" where
  "Bundle_DoDownloadPackage be app_id package_name b =
     (case be_StringToGuidSafe be app_id of
        Inl hr \<Rightarrow> (hr, b)
      | Inr g \<Rightarrow>
          case find (\<lambda>a. app_guid a = g) (ab_apps b) of
            None \<Rightarrow> (E_INVALIDARG, b)
          | Some a \<Rightarrow>
              if \<not> list_ex (\<lambda>p. filename p = package_name) (be_current_packages be a) then (E_INVALIDARG, b)
              else busy_if (DownloadPackageAsync be g package_name b))"

definition Initialized_DownloadPackage :: "bundle_env \<Rightarrow> string \<Rightarrow> string \<Rightarrow> AppBundle \<Rightarrow> hresult \<times> AppBundle" where
  "Initialized_DownloadPackage be app_id package_name b =
     (if length (ab_apps b) = 0 \<or> has_new_app (ab_state b) then Bundle_HandleInvalidStateTransition b
      else Bundle_DoDownloadPackage be app_id package_name b)"

definition Busy_Pause :: "AppBundle \<Rightarrow> hresult \<times> AppBundle" where
  "Busy_Pause b = (if FAILED (Worker_Pause b) then (Worker_Pause b, b) else (S_OK, Bundle_ChangeState (BundlePaused False) b))"

definition Busy_Stop :: "bundle_env \<Rightarrow> DownloadManager \<Rightarrow> AppBundle \<Rightarrow> hresult \<times> DownloadManager \<times> AppBundle" where
  "Busy_Stop be dm b =
     (case Worker_Stop be dm b of (hr, dm1, b1) \<Rightarrow>
        if FAILED hr then (hr, dm1, b1) else (S_OK, dm1, Bundle_ChangeState BundleStopped b1))"

definition Paused_Resume :: "AppBundle \<Rightarrow> hresult \<times> AppBundle" where
  "Paused_Resume b =
     (if FAILED (Worker_Resume b) then (Worker_Resume b, b)
      else (S_OK, Bundle_ChangeState (if is_async_call_complete (ab_state b) then BundleReady else BundleBusy) b))"

section \<open>The calls of a client\<close>

text \<open>Each method that runs as the caller fails first if the impersonation does.\<close>

definition impersonating :: "bundle_env \<Rightarrow> (AppBundle \<Rightarrow> hresult \<times> AppBundle) \<Rightarrow> AppBundle \<Rightarrow> hresult \<times> AppBundle" where
  "impersonating be f b = (if FAILED (be_impersonate be) then (be_impersonate be, b) else f b)"

definition put_altTokens :: "bundle_env \<Rightarrow> AppBundle \<Rightarrow> hresult \<times> AppBundle" where
  "put_altTokens be b =
     (case ab_state b of BundleInit \<Rightarrow> Init_put_altTokens be b | _ \<Rightarrow> Bundle_HandleInvalidStateTransition b)"

definition put_sessionId :: "string option \<Rightarrow> AppBundle \<Rightarrow> hresult \<times> AppBundle" where
  "put_sessionId s b =
     (case ab_state b of BundleInit \<Rightarrow> Init_put_sessionId s b | _ \<Rightarrow> Bundle_HandleInvalidStateTransition b)"

definition put_priority :: "int \<Rightarrow> AppBundle \<Rightarrow> hresult \<times> AppBundle" where
  "put_priority p b =
     (if p < 0 \<or> INSTALL_PRIORITY_HIGH < p then (E_INVALIDARG, b) else (S_OK, b\<lparr>ab_priority := p\<rparr>))"

definition put_displayLanguage :: "bundle_env \<Rightarrow> string \<Rightarrow> AppBundle \<Rightarrow> hresult \<times> AppBundle" where
  "put_displayLanguage be l b =
     (if length l = 0 then (E_INVALIDARG, b)
      else if \<not> be_IsLanguageSupported be l then (E_INVALIDARG, b)
      else (S_OK, b\<lparr>ab_display_language := l\<rparr>))"

definition put_offlineDirectory :: "string \<Rightarrow> AppBundle \<Rightarrow> hresult \<times> AppBundle" where
  "put_offlineDirectory dir b = (S_OK, b\<lparr>ab_offline_dir := dir\<rparr>)"

text \<open>None is the dereference of a null pointer: the client of the update check does not exist before \<open>initialize\<close>.\<close>

definition put_parentHWND :: "AppBundle \<Rightarrow> (hresult \<times> AppBundle) option" where
  "put_parentHWND b = (if ab_has_update_check_client b then Some (S_OK, b) else None)"

definition AppBundle_initialize :: "bundle_env \<Rightarrow> AppBundle \<Rightarrow> hresult \<times> AppBundle" where
  "AppBundle_initialize be b =
     (case ab_state b of BundleInit \<Rightarrow> Init_Initialize be b | _ \<Rightarrow> Bundle_HandleInvalidStateTransition b)"

definition AppBundle_createApp :: "bundle_env \<Rightarrow> string \<Rightarrow> AppBundle \<Rightarrow> hresult \<times> AppBundle" where
  "AppBundle_createApp be app_id = impersonating be (\<lambda>b.
     case ab_state b of BundleInitialized _ _ _ \<Rightarrow> Initialized_CreateApp be app_id b | _ \<Rightarrow> Bundle_HandleInvalidStateTransition b)"

definition AppBundle_createInstalledApp :: "bundle_env \<Rightarrow> string \<Rightarrow> AppBundle \<Rightarrow> hresult \<times> AppBundle" where
  "AppBundle_createInstalledApp be app_id = impersonating be (\<lambda>b.
     case ab_state b of
       BundleInitialized _ _ _ \<Rightarrow> Initialized_CreateInstalledApp be app_id b | _ \<Rightarrow> Bundle_HandleInvalidStateTransition b)"

definition AppBundle_createAllInstalledApps :: "bundle_env \<Rightarrow> AppBundle \<Rightarrow> hresult \<times> AppBundle" where
  "AppBundle_createAllInstalledApps be = impersonating be (\<lambda>b.
     case ab_state b of
       BundleInitialized _ _ _ \<Rightarrow> Initialized_CreateAllInstalledApps be b | _ \<Rightarrow> Bundle_HandleInvalidStateTransition b)"

definition get_Item :: "int \<Rightarrow> AppBundle \<Rightarrow> hresult + App" where
  "get_Item index b =
     (if index < 0 \<or> int (length (ab_apps b)) \<le> index then Inl (win32_error 1413) else Inr (ab_apps b ! nat index))"

definition AppBundle_checkForUpdate :: "bundle_env \<Rightarrow> AppBundle \<Rightarrow> hresult \<times> AppBundle" where
  "AppBundle_checkForUpdate be = impersonating be (\<lambda>b.
     case ab_state b of BundleInitialized _ _ _ \<Rightarrow> Initialized_CheckForUpdate be b | _ \<Rightarrow> Bundle_HandleInvalidStateTransition b)"

definition AppBundle_download :: "bundle_env \<Rightarrow> AppBundle \<Rightarrow> hresult \<times> AppBundle" where
  "AppBundle_download be = impersonating be (\<lambda>b.
     case ab_state b of
       BundleReady \<Rightarrow> busy_if (DownloadAsync be b)
     | BundleBusy \<Rightarrow> (omaha_error 0x817, b)
     | _ \<Rightarrow> Bundle_HandleInvalidStateTransition b)"

definition AppBundle_install :: "bundle_env \<Rightarrow> AppBundle \<Rightarrow> hresult \<times> AppBundle" where
  "AppBundle_install be b =
     (case CaptureCallerPrimaryToken be b of (hr, b1) \<Rightarrow>
        if FAILED hr then (hr, b1)
        else impersonating be (\<lambda>b.
               case ab_state b of
                 BundleReady \<Rightarrow> busy_if (DownloadAndInstallAsync be b)
               | BundleBusy \<Rightarrow> (omaha_error 0x817, b)
               | _ \<Rightarrow> Bundle_HandleInvalidStateTransition b) b1)"

definition Initialized_UpdateAllApps :: "bundle_env \<Rightarrow> AppBundle \<Rightarrow> hresult \<times> AppBundle" where
  "Initialized_UpdateAllApps be b =
     (if length (ab_apps b) \<noteq> 0 then Bundle_HandleInvalidStateTransition b
      else case AppBundle_createAllInstalledApps be (b\<lparr>ab_is_auto_update := True\<rparr>) of (hr, b1) \<Rightarrow>
        if FAILED hr then (hr, b1) else busy_if (UpdateAllAppsAsync be b1))"

definition AppBundle_updateAllApps :: "bundle_env \<Rightarrow> AppBundle \<Rightarrow> hresult \<times> AppBundle" where
  "AppBundle_updateAllApps be = impersonating be (\<lambda>b.
     case ab_state b of BundleInitialized _ _ _ \<Rightarrow> Initialized_UpdateAllApps be b | _ \<Rightarrow> Bundle_HandleInvalidStateTransition b)"

definition AppBundle_stop :: "bundle_env \<Rightarrow> DownloadManager \<Rightarrow> AppBundle \<Rightarrow> hresult \<times> DownloadManager \<times> AppBundle" where
  "AppBundle_stop be dm b =
     (case ab_state b of
        BundleInitialized _ _ _ \<Rightarrow> (S_OK, dm, Bundle_ChangeState BundleStopped b)
      | BundleBusy \<Rightarrow> Busy_Stop be dm b
      | BundleStopped \<Rightarrow> (S_OK, dm, b)
      | _ \<Rightarrow> (case Bundle_HandleInvalidStateTransition b of (hr, b1) \<Rightarrow> (hr, dm, b1)))"

definition AppBundle_pause :: "AppBundle \<Rightarrow> hresult \<times> AppBundle" where
  "AppBundle_pause b =
     (case ab_state b of
        BundleInitialized _ _ _ \<Rightarrow> (S_OK, Bundle_ChangeState (BundlePaused False) b)
      | BundleBusy \<Rightarrow> Busy_Pause b
      | BundleReady \<Rightarrow> (S_OK, b)
      | BundlePaused _ \<Rightarrow> (S_OK, b)
      | _ \<Rightarrow> Bundle_HandleInvalidStateTransition b)"

definition AppBundle_resume :: "AppBundle \<Rightarrow> hresult \<times> AppBundle" where
  "AppBundle_resume b =
     (case ab_state b of
        BundleReady \<Rightarrow> (S_OK, b)
      | BundlePaused _ \<Rightarrow> Paused_Resume b
      | _ \<Rightarrow> Bundle_HandleInvalidStateTransition b)"

definition AppBundle_downloadPackage :: "bundle_env \<Rightarrow> string \<Rightarrow> string \<Rightarrow> AppBundle \<Rightarrow> hresult \<times> AppBundle" where
  "AppBundle_downloadPackage be app_id package_name = impersonating be (\<lambda>b.
     case ab_state b of
       BundleInitialized _ _ _ \<Rightarrow> Initialized_DownloadPackage be app_id package_name b
     | BundleReady \<Rightarrow> Bundle_DoDownloadPackage be app_id package_name b
     | BundleBusy \<Rightarrow> (omaha_error 0x817, b)
     | _ \<Rightarrow> Bundle_HandleInvalidStateTransition b)"

definition AppBundle_IsBusy :: "AppBundle \<Rightarrow> bool" where
  "AppBundle_IsBusy b \<longleftrightarrow> ab_state b = BundleBusy"

definition CreateUninstalledApp :: "bundle_env \<Rightarrow> string \<Rightarrow> AppBundle \<Rightarrow> (hresult + App) \<times> AppBundle" where
  "CreateUninstalledApp be app_id b =
     (case be_StringToGuidSafe be app_id of
        Inl hr \<Rightarrow> (Inl hr, b)
      | Inr g \<Rightarrow>
          case be_ReadAppPersistentData be g of
            Inl hr \<Rightarrow> (Inl hr, b)
          | Inr pd \<Rightarrow>
              let a = apply_persistent_data pd (new_App g True)
              in (Inr a, b\<lparr>ab_uninstalled_apps := ab_uninstalled_apps b @ [a]\<rparr>))"

text \<open>The result of the state and the bundle after a request is complete.\<close>

definition State_CompleteAsyncCall :: "AppBundle \<Rightarrow> hresult \<times> AppBundle" where
  "State_CompleteAsyncCall b =
     (case ab_state b of
        BundleBusy \<Rightarrow> (S_OK, Bundle_ChangeState BundleReady b)
      | BundlePaused _ \<Rightarrow> (S_OK, b\<lparr>ab_state := BundlePaused True\<rparr>)
      | BundleStopped \<Rightarrow> (S_OK, b)
      | _ \<Rightarrow> Bundle_HandleInvalidStateTransition b)"

definition CompleteAsyncCall :: "AppBundle \<Rightarrow> hresult \<times> AppBundle" where
  "CompleteAsyncCall b = (case State_CompleteAsyncCall b of (hr, b1) \<Rightarrow> (hr, b1\<lparr>ab_user_work_item := None\<rparr>))"

section \<open>The steps of a bundle\<close>

text \<open>The properties of an app that a client may set at any time.\<close>

fun is_put :: "app_event \<Rightarrow> bool" where
  "is_put (PutIsEulaAccepted b) = True"
| "is_put (PutDisplayName s) = True"
| "is_put (PutTtToken s) = True"
| "is_put (PutClientInstallData s) = True"
| "is_put (PutServerInstallDataIndex s) = True"
| "is_put (PutUntrustedData s) = True"
| "is_put e = False"

definition app_event_at :: "bundle_env \<Rightarrow> nat \<Rightarrow> app_event \<Rightarrow> AppBundle \<Rightarrow> AppBundle" where
  "app_event_at be i e b = b\<lparr>ab_apps := (ab_apps b)[i := app_step (ab_apps b ! i) (env_of be b, e)]\<rparr>"

text \<open>The calls of clients in any order, each with its own answers of the environment; what the worker does to one app while it serves a
  request; and the end of the request.\<close>

inductive bundle_step :: "AppBundle \<Rightarrow> AppBundle \<Rightarrow> bool" where
  alt_tokens: "put_altTokens be b = (hr, b') \<Longrightarrow> bundle_step b b'"
| session_id: "put_sessionId s b = (hr, b') \<Longrightarrow> bundle_step b b'"
| priority: "put_priority p b = (hr, b') \<Longrightarrow> bundle_step b b'"
| language: "put_displayLanguage be l b = (hr, b') \<Longrightarrow> bundle_step b b'"
| offline: "put_offlineDirectory dir b = (hr, b') \<Longrightarrow> bundle_step b b'"
| initialize: "AppBundle_initialize be b = (hr, b') \<Longrightarrow> bundle_step b b'"
| create_app: "AppBundle_createApp be app_id b = (hr, b') \<Longrightarrow> bundle_step b b'"
| create_installed: "AppBundle_createInstalledApp be app_id b = (hr, b') \<Longrightarrow> bundle_step b b'"
| create_all: "AppBundle_createAllInstalledApps be b = (hr, b') \<Longrightarrow> bundle_step b b'"
| check_for_update: "AppBundle_checkForUpdate be b = (hr, b') \<Longrightarrow> bundle_step b b'"
| download: "AppBundle_download be b = (hr, b') \<Longrightarrow> bundle_step b b'"
| install: "AppBundle_install be b = (hr, b') \<Longrightarrow> bundle_step b b'"
| update_all: "AppBundle_updateAllApps be b = (hr, b') \<Longrightarrow> bundle_step b b'"
| download_package: "AppBundle_downloadPackage be app_id name b = (hr, b') \<Longrightarrow> bundle_step b b'"
| stop: "AppBundle_stop be dm b = (hr, dm', b') \<Longrightarrow> bundle_step b b'"
| pause: "AppBundle_pause b = (hr, b') \<Longrightarrow> bundle_step b b'"
| resume: "AppBundle_resume b = (hr, b') \<Longrightarrow> bundle_step b b'"
| app_property: "i < length (ab_apps b) \<Longrightarrow> is_put e \<Longrightarrow> bundle_step b (app_event_at be i e b)"
| work: "is_pending_non_blocking_call b \<Longrightarrow> i < length (ab_apps b) \<Longrightarrow> bundle_step b (app_event_at be i e b)"
| complete: "is_pending_non_blocking_call b \<Longrightarrow> CompleteAsyncCall b = (hr, b') \<Longrightarrow> bundle_step b b'"

inductive bundle_reachable :: "AppBundle \<Rightarrow> bool" where
  start: "bundle_reachable (new_AppBundle m l)"
| step: "bundle_reachable b \<Longrightarrow> bundle_step b b' \<Longrightarrow> bundle_reachable b'"

section \<open>The protocol of a bundle\<close>

text \<open>What a client can rely on: the state of the bundle, whether a request is pending, whether the client of the update check exists, and
  for each app its identifier and whether it is an update.\<close>

type_synonym bundle_view = "AppBundleState \<times> bool \<times> bool \<times> (guid \<times> bool) list"

definition kind :: "App \<Rightarrow> guid \<times> bool" where
  "kind a = (app_guid a, is_update a)"

definition view :: "AppBundle \<Rightarrow> bundle_view" where
  "view b = (ab_state b, is_pending_non_blocking_call b, ab_has_update_check_client b, map kind (ab_apps b))"

inductive protocol :: "bundle_view \<Rightarrow> bundle_view \<Rightarrow> bool" where
  stay: "protocol v v"
| initialize: "protocol (BundleInit, p, c, ks) (BundleInitialized False False False, p, True, ks)"
| new_app: "\<not> i \<Longrightarrow> g \<notin> fst ` set ks \<Longrightarrow> protocol (BundleInitialized n i r, p, c, ks) (BundleInitialized True i r', p, c, ks @ [(g, False)])"
| installed_app: "\<not> n \<Longrightarrow> g \<notin> fst ` set ks \<Longrightarrow> protocol (BundleInitialized n i r, p, c, ks) (BundleInitialized n True r, p, c, ks @ [(g, True)])"
| reload: "protocol (BundleInitialized n i r, p, c, ks) (BundleInitialized n i r', p, c, ks)"
| first_request: "protocol (BundleInitialized n i r, p, c, ks) (BundleBusy, True, c, ks)"
| next_request: "protocol (BundleReady, p, c, ks) (BundleBusy, True, c, ks)"
| pause: "protocol (BundleInitialized n i r, p, c, ks) (BundlePaused False, p, c, ks)"
| stop: "protocol (BundleInitialized n i r, p, c, ks) (BundleStopped, p, c, ks)"
| stop_busy: "protocol (BundleBusy, p, c, ks) (BundleStopped, p, c, ks)"
| complete: "protocol (BundleBusy, True, c, ks) (BundleReady, False, c, ks)"
| complete_stopped: "protocol (BundleStopped, True, c, ks) (BundleStopped, False, c, ks)"
| complete_paused: "protocol (BundlePaused x, True, c, ks) (BundlePaused True, False, c, ks)"

inductive_cases protocolE: "protocol v v'"

text \<open>What the methods of the states assert: a request is pending exactly while it is served, the client of the update check exists once
  the bundle is initialized, no app is in the bundle twice, and new apps are not mixed with installed ones.\<close>

fun view_ok :: "bundle_view \<Rightarrow> bool" where
  "view_ok (s, p, c, ks) \<longleftrightarrow>
     (s = BundleBusy \<longrightarrow> p) \<and> (p \<longrightarrow> s = BundleBusy \<or> s = BundleStopped) \<and> (c \<longleftrightarrow> s \<noteq> BundleInit)
     \<and> distinct (map fst ks) \<and> (\<exists>u. snd ` set ks \<subseteq> {u})
     \<and> (case s of
          BundleInit \<Rightarrow> ks = []
        | BundleInitialized n i r \<Rightarrow> (n \<longleftrightarrow> ks \<noteq> [] \<and> snd ` set ks \<subseteq> {False}) \<and> (i \<longleftrightarrow> ks \<noteq> [] \<and> snd ` set ks \<subseteq> {True})
        | _ \<Rightarrow> True)"

lemma protocol_ok: "protocol v v' \<Longrightarrow> view_ok v \<Longrightarrow> view_ok v'"
  by (induction rule: protocol.induct) auto

lemma protocols_ok: "protocol\<^sup>*\<^sup>* v v' \<Longrightarrow> view_ok v \<Longrightarrow> view_ok v'"
  by (induction rule: rtranclp_induct) (auto intro: protocol_ok)

section \<open>The code follows the protocol\<close>

lemma pending_setters [simp]:
  "is_pending_non_blocking_call (b\<lparr>ab_state := s\<rparr>) = is_pending_non_blocking_call b"
  "is_pending_non_blocking_call (b\<lparr>ab_apps := as\<rparr>) = is_pending_non_blocking_call b"
  "is_pending_non_blocking_call (b\<lparr>ab_session_id := x\<rparr>) = is_pending_non_blocking_call b"
  "is_pending_non_blocking_call (b\<lparr>ab_priority := p\<rparr>) = is_pending_non_blocking_call b"
  "is_pending_non_blocking_call (b\<lparr>ab_display_language := x\<rparr>) = is_pending_non_blocking_call b"
  "is_pending_non_blocking_call (b\<lparr>ab_offline_dir := x\<rparr>) = is_pending_non_blocking_call b"
  "is_pending_non_blocking_call (b\<lparr>ab_is_auto_update := t\<rparr>) = is_pending_non_blocking_call b"
  "is_pending_non_blocking_call (b\<lparr>ab_has_update_check_client := t\<rparr>) = is_pending_non_blocking_call b"
  "is_pending_non_blocking_call (b\<lparr>ab_alt_impersonation_token := t\<rparr>) = is_pending_non_blocking_call b"
  "is_pending_non_blocking_call (b\<lparr>ab_alt_primary_token := t\<rparr>) = is_pending_non_blocking_call b"
  "is_pending_non_blocking_call (b\<lparr>ab_impersonation_token := t\<rparr>) = is_pending_non_blocking_call b"
  "is_pending_non_blocking_call (b\<lparr>ab_primary_token := t\<rparr>) = is_pending_non_blocking_call b"
  "is_pending_non_blocking_call (b\<lparr>ab_user_work_item := Some w\<rparr>)" "\<not> is_pending_non_blocking_call (b\<lparr>ab_user_work_item := None\<rparr>)"
  by (simp_all add: is_pending_non_blocking_call_def)

lemma busy_queue:
  "busy_if (queue_async be w f b) =
     (if FAILED (be_QueueUserWorkItem be) then (be_QueueUserWorkItem be, b)
      else (S_OK, b\<lparr>ab_user_work_item := Some w, ab_apps := map (f (env_of be b)) (ab_apps b), ab_state := BundleBusy\<rparr>))"
  by (simp add: busy_if_def queue_async_def QueueDeferredFunctionCall_def Bundle_ChangeState_def env_of_def)

lemma kind_keeps:
  "kind (app_step a e) = kind a" "kind (App_QueueUpdateCheck env a) = kind a" "kind (App_QueueDownload env a) = kind a"
  "kind (App_QueueDownloadOrInstall env a) = kind a" "kind (App_Cancel env a) = kind a"
  using app_step_keeps [of a e] app_step_keeps [of a "(env, QueueUpdateCheck)"] app_step_keeps [of a "(env, QueueDownload)"]
    app_step_keeps [of a "(env, QueueDownloadOrInstall)"] app_step_keeps [of a "(env, Cancel)"]
  by (simp_all add: kind_def)

lemma map_kind_keeps:
  "kind \<circ> App_QueueUpdateCheck env = kind" "kind \<circ> App_QueueDownload env = kind" "kind \<circ> App_QueueDownloadOrInstall env = kind"
  "kind \<circ> App_Cancel env = kind" "kind \<circ> (\<lambda>a. if app_guid a = g then App_QueueDownload env a else a) = kind"
  by (auto simp: fun_eq_iff kind_keeps)

lemma kind_simps [simp]:
  "kind (new_App g u) = (g, u)" "kind (apply_persistent_data pd a) = kind a" "app_guid (new_App g u) = g"
  "app_guid (apply_persistent_data pd a) = app_guid a" "fst ` kind ` A = app_guid ` A"
  by (auto simp: kind_def new_App_def apply_persistent_data_def image_image)

lemma IsAppInBundle_iff: "IsAppInBundle b g \<longleftrightarrow> g \<in> app_guid ` set (ab_apps b)"
  by (auto simp: IsAppInBundle_def list_ex_iff)

lemma app_protocol:
  "g \<notin> app_guid ` set as \<Longrightarrow> protocol (BundleInitialized n False r, p, c, map kind as) (BundleInitialized True False r', p, c, map kind as @ [(g, False)])"
  "g \<notin> app_guid ` set as \<Longrightarrow> protocol (BundleInitialized False i r, p, c, map kind as) (BundleInitialized False True r, p, c, map kind as @ [(g, True)])"
  by (rule protocol.new_app protocol.installed_app; simp)+

lemmas request_defs = busy_queue CheckForUpdateAsync_def DownloadAsync_def DownloadAndInstallAsync_def UpdateAllAppsAsync_def
  DownloadPackageAsync_def map_kind_keeps

lemmas bundle_defs = view_def impersonating_def Bundle_HandleInvalidStateTransition_def Bundle_ChangeState_def Busy_Pause_def Worker_Pause_def
  Paused_Resume_def Worker_Resume_def Busy_Stop_def Worker_Stop_def request_defs hresult_defs

lemma put_altTokens_protocol: "put_altTokens be b = (hr, b') \<Longrightarrow> protocol (view b) (view b')"
  by (cases "ab_state b") (auto simp: put_altTokens_def Init_put_altTokens_def Let_def bundle_defs split: if_splits sum.splits option.splits intro: protocol.intros)

lemma put_sessionId_protocol: "put_sessionId s b = (hr, b') \<Longrightarrow> protocol (view b) (view b')"
  by (cases "ab_state b") (auto simp: put_sessionId_def Init_put_sessionId_def bundle_defs split: if_splits sum.splits option.splits intro: protocol.intros)

lemma put_priority_protocol: "put_priority p b = (hr, b') \<Longrightarrow> protocol (view b) (view b')"
  by (cases "ab_state b") (auto simp: put_priority_def bundle_defs split: if_splits sum.splits option.splits intro: protocol.intros)

lemma put_displayLanguage_protocol: "put_displayLanguage be l b = (hr, b') \<Longrightarrow> protocol (view b) (view b')"
  by (cases "ab_state b") (auto simp: put_displayLanguage_def bundle_defs split: if_splits sum.splits option.splits intro: protocol.intros)

lemma put_offlineDirectory_protocol: "put_offlineDirectory dir b = (hr, b') \<Longrightarrow> protocol (view b) (view b')"
  by (cases "ab_state b") (auto simp: put_offlineDirectory_def bundle_defs split: if_splits sum.splits option.splits intro: protocol.intros)

lemma initialize_protocol: "AppBundle_initialize be b = (hr, b') \<Longrightarrow> protocol (view b) (view b')"
  by (cases "ab_state b") (auto simp: AppBundle_initialize_def Init_Initialize_def CaptureCallerImpersonationToken_def Let_def bundle_defs split: if_splits sum.splits option.splits intro: protocol.intros)

lemma checkForUpdate_protocol: "AppBundle_checkForUpdate be b = (hr, b') \<Longrightarrow> protocol (view b) (view b')"
  by (cases "ab_state b") (auto simp: AppBundle_checkForUpdate_def Initialized_CheckForUpdate_def bundle_defs split: if_splits sum.splits option.splits intro: protocol.intros)

lemma download_protocol: "AppBundle_download be b = (hr, b') \<Longrightarrow> protocol (view b) (view b')"
  by (cases "ab_state b") (auto simp: AppBundle_download_def bundle_defs split: if_splits sum.splits option.splits intro: protocol.intros)

lemma install_protocol: "AppBundle_install be b = (hr, b') \<Longrightarrow> protocol (view b) (view b')"
  by (cases "ab_state b") (auto simp: AppBundle_install_def CaptureCallerPrimaryToken_def bundle_defs split: if_splits sum.splits option.splits intro: protocol.intros)

lemma downloadPackage_protocol: "AppBundle_downloadPackage be app_id name b = (hr, b') \<Longrightarrow> protocol (view b) (view b')"
  by (cases "ab_state b") (auto simp: AppBundle_downloadPackage_def Initialized_DownloadPackage_def Bundle_DoDownloadPackage_def bundle_defs split: if_splits sum.splits option.splits intro: protocol.intros)

lemma pause_protocol: "AppBundle_pause b = (hr, b') \<Longrightarrow> protocol (view b) (view b')"
  by (cases "ab_state b") (auto simp: AppBundle_pause_def bundle_defs split: if_splits sum.splits option.splits intro: protocol.intros)

lemma resume_protocol: "AppBundle_resume b = (hr, b') \<Longrightarrow> protocol (view b) (view b')"
  by (cases "ab_state b") (auto simp: AppBundle_resume_def bundle_defs split: if_splits sum.splits option.splits intro: protocol.intros)

lemma createApp_protocol: "AppBundle_createApp be app_id b = (hr, b') \<Longrightarrow> protocol (view b) (view b')"
  by (cases "ab_state b") (auto simp: AppBundle_createApp_def Initialized_CreateApp_def AddApp_def AddAppToBundle_def IsAppInBundle_iff bundle_defs
      split: if_splits sum.splits intro: protocol.stay app_protocol)

lemma stop_protocol: "AppBundle_stop be dm b = (hr, dm', b') \<Longrightarrow> protocol (view b) (view b')"
  by (cases "ab_state b") (auto simp: AppBundle_stop_def bundle_defs split: if_splits prod.splits intro: protocol.intros)

lemma complete_protocol:
  "CompleteAsyncCall b = (hr, b') \<Longrightarrow> is_pending_non_blocking_call b \<Longrightarrow> view_ok (view b) \<Longrightarrow> protocol (view b) (view b')"
  by (cases "ab_state b") (auto simp: CompleteAsyncCall_def State_CompleteAsyncCall_def is_pending_non_blocking_call_def bundle_defs
      intro: protocol.intros)

lemma app_event_protocol:
  assumes "i < length (ab_apps b)" shows "protocol (view b) (view (app_event_at be i e b))"
proof -
  have "map kind ((ab_apps b)[i := app_step (ab_apps b ! i) (env_of be b, e)]) = map kind (ab_apps b)"
    using assms by (metis kind_keeps(1) list_update_id map_update)
  then show ?thesis by (simp add: view_def app_event_at_def protocol.stay)
qed

lemma AddInstalledApp_protocol:
  assumes "ab_state b = BundleInitialized False i r"
  shows "protocol (view b) (view (snd (AddInstalledApp be app_id b)))"
    and "\<exists>i' r'. ab_state (snd (AddInstalledApp be app_id b)) = BundleInitialized False i' r'"
  using assms
  by (auto simp: view_def AddInstalledApp_def AddApp_def AddAppToBundle_def IsAppInBundle_iff hresult_defs
      split: sum.split intro: protocol.stay app_protocol)

lemma AddInstalledApps_protocol:
  assumes "ab_state b = BundleInitialized False i r"
  shows "protocol\<^sup>*\<^sup>* (view b) (view (foldl (\<lambda>b app_id. snd (AddInstalledApp be app_id b)) b ids))
    \<and> (\<exists>i' r'. ab_state (foldl (\<lambda>b app_id. snd (AddInstalledApp be app_id b)) b ids) = BundleInitialized False i' r')"
  using assms
proof (induction ids arbitrary: b i r)
  case (Cons app_id ids)
  note one = AddInstalledApp_protocol [OF Cons.prems, of be app_id]
  then obtain i' r' where "ab_state (snd (AddInstalledApp be app_id b)) = BundleInitialized False i' r'" by blast
  from Cons.IH [OF this] one(1) show ?case by (auto intro: converse_rtranclp_into_rtranclp)
qed simp

lemma set_reloaded_protocol: "ab_state b = BundleInitialized n i r \<Longrightarrow> protocol (view b) (view (set_reloaded be b))"
  by (simp add: view_def set_reloaded_def protocol.reload)

lemma createInstalledApp_protocol:
  assumes "AppBundle_createInstalledApp be app_id b = (hr, b')"
  shows "protocol\<^sup>*\<^sup>* (view b) (view b')"
proof (cases "ab_state b")
  case (BundleInitialized n i r)
  show ?thesis
  proof (cases "n \<or> FAILED (fst (AddInstalledApp be app_id b))")
    case False
    with BundleInitialized have "ab_state b = BundleInitialized False i r" by simp
    from AddInstalledApp_protocol [OF this, of be app_id]
      obtain i' r' where p: "protocol (view b) (view (snd (AddInstalledApp be app_id b)))"
        and s: "ab_state (snd (AddInstalledApp be app_id b)) = BundleInitialized False i' r'" by blast
    from False BundleInitialized assms p set_reloaded_protocol [OF s, of be] show ?thesis
      by (auto simp: AppBundle_createInstalledApp_def Initialized_CreateInstalledApp_def impersonating_def split: prod.splits if_splits)
  next
    case True
    with BundleInitialized assms AddInstalledApp_protocol(1) [of b i r be app_id] show ?thesis
      by (cases n) (auto simp: AppBundle_createInstalledApp_def Initialized_CreateInstalledApp_def bundle_defs split: prod.splits if_splits)
  qed
qed (use assms in \<open>auto simp: AppBundle_createInstalledApp_def bundle_defs split: if_splits\<close>)

lemma createAllInstalledApps_protocol:
  assumes "AppBundle_createAllInstalledApps be b = (hr, b')" "view_ok (view b)"
  shows "protocol\<^sup>*\<^sup>* (view b) (view b')"
proof (cases "\<exists>n i r ids. ab_state b = BundleInitialized n i r \<and> ab_apps b = [] \<and> be_GetRegisteredApps be = Inr ids \<and> SUCCEEDED (be_impersonate be)")
  case True
  then obtain n i r ids where s: "ab_state b = BundleInitialized n i r" and e: "ab_apps b = []" and ids: "be_GetRegisteredApps be = Inr ids"
    by blast
  with assms(2) have "ab_state b = BundleInitialized False i r" by (simp add: view_def)
  from AddInstalledApps_protocol [OF this, of be ids] obtain i' r' where
    p: "protocol\<^sup>*\<^sup>* (view b) (view (foldl (\<lambda>b app_id. snd (AddInstalledApp be app_id b)) b ids))" and
    q: "ab_state (foldl (\<lambda>b app_id. snd (AddInstalledApp be app_id b)) b ids) = BundleInitialized False i' r'" by blast
  from assms(1) s e ids p set_reloaded_protocol [OF q, of be] show ?thesis
    by (auto simp: AppBundle_createAllInstalledApps_def Initialized_CreateAllInstalledApps_def impersonating_def split: if_splits)
next
  case False
  with assms(1) show ?thesis
    by (cases "ab_state b") (auto simp: AppBundle_createAllInstalledApps_def Initialized_CreateAllInstalledApps_def bundle_defs
        split: if_splits sum.splits)
qed

lemma updateAllApps_protocol:
  assumes "AppBundle_updateAllApps be b = (hr, b')" "view_ok (view b)"
  shows "protocol\<^sup>*\<^sup>* (view b) (view b')"
proof (cases "\<exists>n i r. ab_state b = BundleInitialized n i r \<and> ab_apps b = [] \<and> SUCCEEDED (be_impersonate be)")
  case True
  define b0 where "b0 = b\<lparr>ab_is_auto_update := True\<rparr>"
  have v: "view b0 = view b" by (simp add: b0_def view_def)
  obtain hr1 b1 where r: "AppBundle_createAllInstalledApps be b0 = (hr1, b1)" by (cases "AppBundle_createAllInstalledApps be b0")
  have "protocol\<^sup>*\<^sup>* (view b) (view b1)" using createAllInstalledApps_protocol [OF r] assms(2) v by simp
  moreover have "protocol (view b1) (view b')"
  proof -
    have "\<exists>n i r. ab_state b1 = BundleInitialized n i r" if "SUCCEEDED hr1"
      using r True that by (auto simp: AppBundle_createAllInstalledApps_def Initialized_CreateAllInstalledApps_def impersonating_def b0_def
          set_reloaded_def split: if_splits sum.splits)
    then show ?thesis using assms(1) True r
      by (auto simp: AppBundle_updateAllApps_def Initialized_UpdateAllApps_def b0_def [symmetric] bundle_defs
          split: if_splits intro!: protocol.stay protocol.first_request)
  qed
  ultimately show ?thesis by (rule rtranclp.rtrancl_into_rtrancl)
next
  case False
  with assms(1) show ?thesis
    by (cases "ab_state b") (auto simp: AppBundle_updateAllApps_def Initialized_UpdateAllApps_def bundle_defs split: if_splits)
qed

lemmas op_protocol = put_altTokens_protocol put_sessionId_protocol put_priority_protocol put_displayLanguage_protocol
  put_offlineDirectory_protocol initialize_protocol createApp_protocol checkForUpdate_protocol download_protocol install_protocol
  downloadPackage_protocol stop_protocol pause_protocol resume_protocol complete_protocol app_event_protocol

lemma bundle_step_protocol: "bundle_step b b' \<Longrightarrow> view_ok (view b) \<Longrightarrow> protocol\<^sup>*\<^sup>* (view b) (view b')"
  by (induction rule: bundle_step.induct)
    (blast intro: op_protocol createInstalledApp_protocol createAllInstalledApps_protocol updateAllApps_protocol)+

text \<open>A bundle without apps serves no request, except that the errors of the single apps are ignored in an automatic update.\<close>

definition apps_to_serve :: "AppBundle \<Rightarrow> bool" where
  "apps_to_serve b \<longleftrightarrow> (ab_state b \<in> {BundleBusy, BundleReady} \<longrightarrow> ab_apps b \<noteq> [] \<or> ab_is_auto_update b)"

lemma AddInstalledApp_flag: "ab_is_auto_update (snd (AddInstalledApp be app_id b)) = ab_is_auto_update b"
  by (auto simp: AddInstalledApp_def AddApp_def AddAppToBundle_def split: sum.split prod.split)

lemma AddInstalledApps_flag: "ab_is_auto_update (foldl (\<lambda>b app_id. snd (AddInstalledApp be app_id b)) b ids) = ab_is_auto_update b"
  by (induction ids arbitrary: b) (simp_all add: AddInstalledApp_flag)

lemma createAllInstalledApps_flag: "AppBundle_createAllInstalledApps be b = (hr, b') \<Longrightarrow> ab_is_auto_update b' = ab_is_auto_update b"
  by (cases "ab_state b") (auto simp: AppBundle_createAllInstalledApps_def Initialized_CreateAllInstalledApps_def impersonating_def
      Bundle_HandleInvalidStateTransition_def set_reloaded_def AddInstalledApps_flag split: if_splits sum.splits)

lemma updateAllApps_flag:
  "AppBundle_updateAllApps be b = (hr, b') \<Longrightarrow> b' = b \<or> ab_is_auto_update b'"
  by (cases "ab_state b") (auto simp: AppBundle_updateAllApps_def Initialized_UpdateAllApps_def bundle_defs
      split: if_splits prod.splits dest!: createAllInstalledApps_flag)

lemma create_installed_state:
  assumes "ab_state b = BundleInitialized n i r"
  shows "AppBundle_createInstalledApp be app_id b = (hr, b') \<Longrightarrow> \<exists>n i r. ab_state b' = BundleInitialized n i r"
    and "AppBundle_createAllInstalledApps be b = (hr, b') \<Longrightarrow> \<exists>n i r. ab_state b' = BundleInitialized n i r"
proof -
  have "\<exists>n i r. ab_state (snd (AddInstalledApp be app_id b)) = BundleInitialized n i r"
    using assms by (auto simp: AddInstalledApp_def AddApp_def AddAppToBundle_def split: sum.split)
  then show "AppBundle_createInstalledApp be app_id b = (hr, b') \<Longrightarrow> \<exists>n i r. ab_state b' = BundleInitialized n i r"
    using assms by (auto simp: AppBundle_createInstalledApp_def Initialized_CreateInstalledApp_def impersonating_def set_reloaded_def
        Bundle_HandleInvalidStateTransition_def split: if_splits prod.splits)
  show "AppBundle_createAllInstalledApps be b = (hr, b') \<Longrightarrow> \<exists>n i r. ab_state b' = BundleInitialized n i r"
    using assms by (auto simp: AppBundle_createAllInstalledApps_def Initialized_CreateAllInstalledApps_def impersonating_def set_reloaded_def
        Bundle_HandleInvalidStateTransition_def split: if_splits sum.splits)
qed

lemma create_installed_other:
  assumes "\<nexists>n i r. ab_state b = BundleInitialized n i r"
  shows "AppBundle_createInstalledApp be app_id b = (hr, b') \<Longrightarrow> b' = b" and "AppBundle_createAllInstalledApps be b = (hr, b') \<Longrightarrow> b' = b"
  using assms by (cases "ab_state b"; auto simp: AppBundle_createInstalledApp_def AppBundle_createAllInstalledApps_def impersonating_def
      Bundle_HandleInvalidStateTransition_def split: if_splits)+

lemma updateAllApps_apps: "AppBundle_updateAllApps be b = (hr, b') \<Longrightarrow> apps_to_serve b \<Longrightarrow> apps_to_serve b'"
  using updateAllApps_flag [of be b hr b'] by (auto simp: apps_to_serve_def)

lemma checkForUpdate_apps: "AppBundle_checkForUpdate be b = (hr, b') \<Longrightarrow> apps_to_serve b \<Longrightarrow> apps_to_serve b'"
  by (cases "ab_state b") (auto simp: apps_to_serve_def AppBundle_checkForUpdate_def Initialized_CheckForUpdate_def bundle_defs
      split: if_splits)

lemma downloadPackage_apps: "AppBundle_downloadPackage be app_id name b = (hr, b') \<Longrightarrow> apps_to_serve b \<Longrightarrow> apps_to_serve b'"
  by (cases "ab_state b") (auto simp: apps_to_serve_def AppBundle_downloadPackage_def Initialized_DownloadPackage_def Bundle_DoDownloadPackage_def bundle_defs
      split: if_splits sum.splits option.splits)

lemma download_apps: "AppBundle_download be b = (hr, b') \<Longrightarrow> apps_to_serve b \<Longrightarrow> apps_to_serve b'"
  by (cases "ab_state b") (auto simp: apps_to_serve_def AppBundle_download_def bundle_defs
      split: if_splits)

lemma install_apps: "AppBundle_install be b = (hr, b') \<Longrightarrow> apps_to_serve b \<Longrightarrow> apps_to_serve b'"
  by (cases "ab_state b") (auto simp: apps_to_serve_def AppBundle_install_def CaptureCallerPrimaryToken_def bundle_defs
      split: if_splits)

lemma stop_apps: "AppBundle_stop be dm b = (hr, dm', b') \<Longrightarrow> apps_to_serve b \<Longrightarrow> apps_to_serve b'"
  by (cases "ab_state b") (auto simp: apps_to_serve_def AppBundle_stop_def bundle_defs
      split: if_splits prod.splits)

lemma complete_apps: "CompleteAsyncCall b = (hr, b') \<Longrightarrow> apps_to_serve b \<Longrightarrow> apps_to_serve b'"
  by (cases "ab_state b") (auto simp: apps_to_serve_def CompleteAsyncCall_def State_CompleteAsyncCall_def bundle_defs
      split: prod.splits)

lemma resume_apps: "AppBundle_resume b = (hr, b') \<Longrightarrow> apps_to_serve b \<Longrightarrow> apps_to_serve b'"
  by (cases "ab_state b") (auto simp: apps_to_serve_def AppBundle_resume_def bundle_defs
      split: if_splits)

lemma pause_apps: "AppBundle_pause b = (hr, b') \<Longrightarrow> apps_to_serve b \<Longrightarrow> apps_to_serve b'"
  by (cases "ab_state b") (auto simp: apps_to_serve_def AppBundle_pause_def bundle_defs
      split: if_splits)

lemma createApp_apps: "AppBundle_createApp be app_id b = (hr, b') \<Longrightarrow> apps_to_serve b \<Longrightarrow> apps_to_serve b'"
  by (cases "ab_state b") (auto simp: apps_to_serve_def AppBundle_createApp_def Initialized_CreateApp_def AddApp_def AddAppToBundle_def bundle_defs
      split: if_splits sum.splits prod.splits)

lemma initialize_apps: "AppBundle_initialize be b = (hr, b') \<Longrightarrow> apps_to_serve b \<Longrightarrow> apps_to_serve b'"
  by (cases "ab_state b") (auto simp: apps_to_serve_def AppBundle_initialize_def Init_Initialize_def CaptureCallerImpersonationToken_def Let_def bundle_defs
      split: if_splits prod.splits)

lemma put_altTokens_apps: "put_altTokens be b = (hr, b') \<Longrightarrow> apps_to_serve b \<Longrightarrow> apps_to_serve b'"
  by (cases "ab_state b") (auto simp: apps_to_serve_def put_altTokens_def Init_put_altTokens_def Let_def bundle_defs
      split: if_splits)

lemma put_sessionId_apps: "put_sessionId s b = (hr, b') \<Longrightarrow> apps_to_serve b \<Longrightarrow> apps_to_serve b'"
  by (cases "ab_state b") (auto simp: apps_to_serve_def put_sessionId_def Init_put_sessionId_def bundle_defs
      split: option.splits)

lemma put_priority_apps: "put_priority p b = (hr, b') \<Longrightarrow> apps_to_serve b \<Longrightarrow> apps_to_serve b'"
  by (auto simp: apps_to_serve_def put_priority_def
      split: if_splits)

lemma put_displayLanguage_apps: "put_displayLanguage be l b = (hr, b') \<Longrightarrow> apps_to_serve b \<Longrightarrow> apps_to_serve b'"
  by (auto simp: apps_to_serve_def put_displayLanguage_def
      split: if_splits)

lemma put_offlineDirectory_apps: "put_offlineDirectory dir b = (hr, b') \<Longrightarrow> apps_to_serve b \<Longrightarrow> apps_to_serve b'"
  by (auto simp: apps_to_serve_def put_offlineDirectory_def)

lemma app_event_apps: "apps_to_serve b \<Longrightarrow> apps_to_serve (app_event_at be i e b)"
  by (auto simp: apps_to_serve_def app_event_at_def)

lemma createInstalledApp_apps: "AppBundle_createInstalledApp be app_id b = (hr, b') \<Longrightarrow> apps_to_serve b \<Longrightarrow> apps_to_serve b'"
  using create_installed_state(1) [of b _ _ _ be app_id hr b'] create_installed_other(1) [of b be app_id hr b'] by (cases "ab_state b") (auto simp: apps_to_serve_def)

lemma createAllInstalledApps_apps: "AppBundle_createAllInstalledApps be b = (hr, b') \<Longrightarrow> apps_to_serve b \<Longrightarrow> apps_to_serve b'"
  using create_installed_state(2) [of b _ _ _ be hr b'] create_installed_other(2) [of b be hr b'] by (cases "ab_state b") (auto simp: apps_to_serve_def)

lemma bundle_step_apps: "bundle_step b b' \<Longrightarrow> apps_to_serve b \<Longrightarrow> apps_to_serve b'"
  by (induction rule: bundle_step.induct) (blast intro: updateAllApps_apps checkForUpdate_apps downloadPackage_apps download_apps install_apps stop_apps complete_apps resume_apps pause_apps createApp_apps
      initialize_apps put_altTokens_apps put_sessionId_apps put_priority_apps put_displayLanguage_apps put_offlineDirectory_apps app_event_apps createInstalledApp_apps createAllInstalledApps_apps)+

lemma new_AppBundle_ok: "view_ok (view (new_AppBundle m l))"
  by (simp add: view_def new_AppBundle_def is_pending_non_blocking_call_def)

lemma reachable_view_ok: "bundle_reachable b \<Longrightarrow> view_ok (view b)"
  by (induction rule: bundle_reachable.induct) (auto simp: new_AppBundle_ok intro: protocols_ok bundle_step_protocol)

lemma reachable_apps: "bundle_reachable b \<Longrightarrow> apps_to_serve b"
  by (induction rule: bundle_reachable.induct) (auto simp: apps_to_serve_def new_AppBundle_def dest: bundle_step_apps [unfolded apps_to_serve_def])

lemma reachable_steps: "bundle_step\<^sup>*\<^sup>* b b' \<Longrightarrow> bundle_reachable b \<Longrightarrow> bundle_reachable b'"
  by (induction rule: rtranclp_induct) (auto intro: bundle_reachable.step)

lemma reachable_protocols: "bundle_step\<^sup>*\<^sup>* b b' \<Longrightarrow> bundle_reachable b \<Longrightarrow> protocol\<^sup>*\<^sup>* (view b) (view b')"
proof (induction rule: rtranclp_induct)
  case (step b1 b2)
  with reachable_steps bundle_step_protocol reachable_view_ok show ?case by (blast intro: rtranclp_trans)
qed simp

lemma paused_protocol: "protocol\<^sup>*\<^sup>* v v' \<Longrightarrow> v = (BundlePaused x, False, c, ks) \<Longrightarrow> v' = v"
  by (induction rule: rtranclp_induct) (auto elim: protocolE)

lemma CompleteAsyncCall_pending:
  assumes "view_ok (view b)" "is_pending_non_blocking_call b"
  shows "\<exists>b'. CompleteAsyncCall b = (S_OK, b') \<and> \<not> is_pending_non_blocking_call b' \<and> ab_state b' \<in> {BundleReady, BundleStopped}"
  using assms by (cases "ab_state b")
    (auto simp: view_def CompleteAsyncCall_def State_CompleteAsyncCall_def Bundle_ChangeState_def is_pending_non_blocking_call_def)

text \<open>The window of a client can be set without a fault only once the bundle is initialized.\<close>

lemma put_parentHWND_faults: "bundle_reachable b \<Longrightarrow> put_parentHWND b = None \<longleftrightarrow> ab_state b = BundleInit"
  using reachable_view_ok [of b] by (simp add: put_parentHWND_def view_def)

text \<open>C6. A bundle implements the protocol of its clients: every call, every request carried out and every event of an app is, for the state,
  the pending request and the kinds of the apps, a sequence of moves of the protocol; so a request is pending while the bundle is busy
  and only then or after a stop, no app is twice in the bundle, and new and installed apps are never mixed; a bundle that serves a request has
  an app, unless it is an automatic update; and
  the completion of a pending request always succeeds and leaves the bundle ready or stopped.\<close>

theorem bundle_follows_protocol:
  assumes "bundle_reachable b" and "bundle_step b b'"
  shows "protocol\<^sup>*\<^sup>* (view b) (view b') \<and> view_ok (view b')
    \<and> (ab_state b' = BundleBusy \<longrightarrow> ab_apps b' \<noteq> [] \<or> ab_is_auto_update b')
    \<and> (is_pending_non_blocking_call b' \<longrightarrow>
         (\<exists>b''. CompleteAsyncCall b' = (S_OK, b'') \<and> \<not> is_pending_non_blocking_call b'' \<and> ab_state b'' \<in> {BundleReady, BundleStopped}))"
proof -
  have "protocol\<^sup>*\<^sup>* (view b) (view b')" by (rule bundle_step_protocol [OF assms(2) reachable_view_ok [OF assms(1)]])
  moreover from this have "view_ok (view b')" using reachable_view_ok [OF assms(1)] by (rule protocols_ok)
  moreover have "apps_to_serve b'" by (rule reachable_apps [OF bundle_reachable.step [OF assms]])
  ultimately show ?thesis using CompleteAsyncCall_pending by (auto simp: apps_to_serve_def)
qed

text \<open>
  The exception is real: when no registered app can be added, \<open>UpdateAllApps\<close> makes the bundle busy without apps, although the method asserts that there
  is one.
\<close>

lemma updateAllApps_without_apps:
  assumes "ab_state b = BundleInitialized n i r" and "ab_apps b = []" and "be_GetRegisteredApps be = Inr []"
    and "SUCCEEDED (be_impersonate be)" and "SUCCEEDED (be_QueueUserWorkItem be)"
  shows "\<exists>b'. AppBundle_updateAllApps be b = (S_OK, b') \<and> ab_state b' = BundleBusy \<and> ab_apps b' = []"
  using assms by (simp add: AppBundle_updateAllApps_def Initialized_UpdateAllApps_def AppBundle_createAllInstalledApps_def
      Initialized_CreateAllInstalledApps_def impersonating_def set_reloaded_def request_defs)

text \<open>C40. A bundle that a client pauses before its first request never leaves the paused state: the call to resume it is not implemented,
  and it can be neither stopped nor used.\<close>

theorem paused_forever:
  assumes "bundle_reachable b" and "ab_state b = BundlePaused x" and "bundle_step\<^sup>*\<^sup>* b b'"
  shows "ab_state b' = BundlePaused x \<and> AppBundle_resume b' = (0x80004001, b')"
proof -
  from reachable_view_ok [OF assms(1)] assms(2) have "view b = (BundlePaused x, False, ab_has_update_check_client b, map kind (ab_apps b))"
    by (simp add: view_def)
  from paused_protocol [OF reachable_protocols [OF assms(3,1)] this] assms(2) show ?thesis
    by (simp add: view_def AppBundle_resume_def Paused_Resume_def Worker_Resume_def)
qed

text \<open>A machine on which every call succeeds, and the first calls of a client.\<close>

definition sample_bundle_env :: bundle_env where
  "sample_bundle_env =
     \<lparr>be_OpenProcess = S_OK, be_DuplicateImpersonationToken = S_OK, be_DuplicatePrimaryToken = S_OK, be_GetGuid = ''s'',
      be_GetCallerToken = S_OK, be_TokenIsAdmin = True, be_CreatePrimaryToken = S_OK, be_impersonate = S_OK,
      be_client_Initialize = S_OK, be_StringToGuidSafe = Inr, be_IsLanguageSupported = (\<lambda>_. True), be_LoadPolicies = S_OK,
      be_CreateExternalUpdaterActiveEvent = (\<lambda>_. S_OK), be_ReadAppPersistentData = (\<lambda>_. Inl E_FAIL), be_GetRegisteredApps = Inr [],
      be_current_packages = (\<lambda>_. []), be_QueueUserWorkItem = S_OK, be_app_env = sample_env\<rparr>"

definition initialized_bundle :: AppBundle where
  "initialized_bundle = snd (AppBundle_initialize sample_bundle_env (new_AppBundle False ''en''))"

definition one_app_bundle :: AppBundle where
  "one_app_bundle = snd (AppBundle_createApp sample_bundle_env ''{7}'' initialized_bundle)"

lemma initialized_reachable: "bundle_reachable initialized_bundle"
  unfolding initialized_bundle_def by (rule bundle_reachable.step [OF bundle_reachable.start bundle_step.initialize]) (rule surjective_pairing)

lemma one_app_reachable: "bundle_reachable one_app_bundle"
  unfolding one_app_bundle_def by (rule bundle_reachable.step [OF initialized_reachable bundle_step.create_app]) (rule surjective_pairing)

lemma sample_states:
  "ab_state initialized_bundle = BundleInitialized False False False" "ab_apps initialized_bundle = []"
  "ab_state one_app_bundle = BundleInitialized True False True" "ab_apps one_app_bundle = [new_App ''{7}'' False]"
  by (simp_all add: one_app_bundle_def initialized_bundle_def sample_bundle_env_def new_AppBundle_def AppBundle_initialize_def
      Init_Initialize_def AppBundle_createApp_def Initialized_CreateApp_def AddApp_def AddAppToBundle_def IsAppInBundle_def
      CaptureCallerImpersonationToken_def reload_policies_def impersonating_def Bundle_ChangeState_def Let_def hresult_defs)

theorem bundle_follows_protocol_witness:
  "case AppBundle_checkForUpdate sample_bundle_env one_app_bundle of (hr, b) \<Rightarrow>
     hr = S_OK \<and> ab_state b = BundleBusy \<and> protocol\<^sup>*\<^sup>* (view one_app_bundle) (view b) \<and> view_ok (view b)"
proof -
  obtain hr b where r: "AppBundle_checkForUpdate sample_bundle_env one_app_bundle = (hr, b)" by (cases "AppBundle_checkForUpdate sample_bundle_env one_app_bundle")
  from bundle_follows_protocol [OF one_app_reachable bundle_step.check_for_update [OF r]]
  have "protocol\<^sup>*\<^sup>* (view one_app_bundle) (view b) \<and> view_ok (view b)" by blast
  moreover have "hr = S_OK \<and> ab_state b = BundleBusy"
    using r by (auto simp: sample_states AppBundle_checkForUpdate_def Initialized_CheckForUpdate_def impersonating_def request_defs
        sample_bundle_env_def hresult_defs split: if_splits)
  ultimately show ?thesis unfolding r by simp
qed

theorem paused_forever_witness:
  "case AppBundle_pause one_app_bundle of (hr, b) \<Rightarrow> hr = S_OK \<and> AppBundle_resume b = (0x80004001, b)"
proof -
  define b where "b = one_app_bundle\<lparr>ab_state := BundlePaused False\<rparr>"
  have r: "AppBundle_pause one_app_bundle = (S_OK, b)" by (simp add: AppBundle_pause_def sample_states b_def Bundle_ChangeState_def)
  from paused_forever [OF bundle_reachable.step [OF one_app_reachable bundle_step.pause [OF r]], of False b] show ?thesis
    by (simp add: r) (simp add: b_def)
qed

end
