(* ===== verification/Worker.thy ===== *)
theory Worker
  imports App_Bundle
begin

text \<open>
  The worker (\<open>goopdate/worker.cc\<close>): the requests of a bundle, served by the thread pool, from the update check to the installers.
  It composes the app and its states, the package cache, the download manager, the installer wrapper, the install manager and the bundle.

  A request runs without the model lock, so a client may stop an app whenever one of the calls on the app does not hold it. The record
  \<open>app_world\<close> has what one app meets while it is served: the answers of Windows, of the network and of its installer, and the
  points at which it is cancelled (\<open>aw_cancel phase k\<close>: phase 0 before the download, 1 during it, 2 between download and installation,
  3 while the packages are copied, 4 during the installation, 5 during the update check). A cancellation of another app at these
  moments is one of that app's own points. The trace of the worker has what it does outside the bundle and the files; an installer that is
  run appears with the content of its file at that moment.
\<close>

section \<open>Retrying\<close>

definition IsCupError :: "hresult \<Rightarrow> bool" where
  "IsCupError hr \<longleftrightarrow> sint (itf_error 0x880) \<le> sint hr \<and> sint hr \<le> sint (itf_error 0x889)"

definition kSecondsPerDay :: "32 word" where
  "kSecondsPerDay = 24 * 60 * 60"

text \<open>The time written to the registry; the sum is one of 32-bit unsigned integers.\<close>

definition PersistRetryAfter :: "32 word \<Rightarrow> 32 word \<Rightarrow> 32 word option" where
  "PersistRetryAfter now_sec retry_after_sec = (if sint retry_after_sec \<le> 0 then None else Some (now_sec + retry_after_sec))"

definition CanRetryNow :: "32 word \<Rightarrow> 32 word \<Rightarrow> bool" where
  "CanRetryNow now retry_after \<longleftrightarrow> retry_after \<le> now \<or> now + kSecondsPerDay < retry_after"

section \<open>The world of one app\<close>

record app_world =
  aw_env :: app_env
  aw_network :: network
  aw_install :: install_env
  aw_guid :: "hresult + string"
  aw_install_working_dir :: string
  aw_cancel :: "nat \<Rightarrow> nat \<Rightarrow> bool"

datatype worker_effect =
    RanInstaller guid string "byte list option"
  | RemovedState guid
  | SetRetryAfterTime "32 word"
  | UpdateLastChecked
  | SendOemInstalledPing
  | SendCupFailurePing hresult

definition cancels :: "app_world \<Rightarrow> nat \<Rightarrow> nat \<Rightarrow> App \<Rightarrow> App" where
  "cancels w phase k a = interfere (aw_env w) (aw_cancel w phase) k a"

section \<open>Download and installation of an app\<close>

fun get_packages :: "os \<Rightarrow> DownloadManager \<Rightarrow> App \<Rightarrow> string \<Rightarrow> Package list \<Rightarrow> disk \<Rightarrow> hresult \<times> disk" where
  "get_packages os dm a dir [] d = (S_OK, d)"
| "get_packages os dm a dir (p # ps) d =
     (case DownloadManager_GetPackage os dm a p dir d of (hr, d1) \<Rightarrow>
        if FAILED hr then (hr, d1) else get_packages os dm a dir ps d1)"

definition CopyAppVersionPackages :: "os \<Rightarrow> DownloadManager \<Rightarrow> App \<Rightarrow> string \<Rightarrow> disk \<Rightarrow> hresult \<times> disk" where
  "CopyAppVersionPackages os dm a dir d =
     (if FAILED (os_CreateDir os dir) then (os_CreateDir os dir, d)
      else get_packages os dm a dir (packages (next_version a)) d)"

text \<open>The files of lower versions are deleted when an app asks for it.\<close>

definition run_purges :: "os \<Rightarrow> PackageCache \<Rightarrow> App \<Rightarrow> App \<Rightarrow> disk \<Rightarrow> disk" where
  "run_purges os pc a a' d =
     foldl (\<lambda>d e. case e of Eff_PurgeAppLowerVersions v \<Rightarrow> snd (PurgeAppLowerVersions os pc (app_guid a) v d) | _ \<Rightarrow> d) d
       (drop (length (effects a)) (effects a'))"

definition App_Download_by :: "os \<Rightarrow> app_world \<Rightarrow> App \<Rightarrow> DownloadManager \<Rightarrow> disk \<Rightarrow> App \<times> DownloadManager \<times> disk" where
  "App_Download_by os w a dm d =
     (if app_state a = STATE_WAITING_TO_DOWNLOAD then
        case DownloadApp os (aw_network w) (aw_env w) (aw_cancel w 1) a dm d of (hr, a1, dm1, d1) \<Rightarrow>
          (App_Download (aw_env w) (\<lambda>_. (hr, a1)) a, dm1, d1)
      else (App_Download (aw_env w) (\<lambda>b. (S_OK, b)) a, dm, d))"

definition ran_installer :: "guid \<Rightarrow> disk \<Rightarrow> install_effect \<Rightarrow> worker_effect" where
  "ran_installer g d e = (case e of CalledInstallerWrapper path _ _ \<Rightarrow> RanInstaller g path (d path) | RemovedClientState \<Rightarrow> RemovedState g)"

text \<open>The state object is chosen when the call is made: a cancellation while the packages are copied does not end it.\<close>

definition WaitingToInstall_Install_by ::
    "os \<Rightarrow> app_world \<Rightarrow> DownloadManager \<Rightarrow> App \<Rightarrow> disk \<Rightarrow> App \<times> disk \<times> worker_effect list" where
  "WaitingToInstall_Install_by os w dm a d =
     (let fail = (\<lambda>hr. AppState_Error (aw_env w) (ErrorContext1 hr) (LoadString IDS_INSTALL_FAILED) (cancels w 3 0 a))
      in case aw_guid w of
           Inl hr \<Rightarrow> (fail hr, d, [])
         | Inr guid \<Rightarrow>
             let installer_dir = ConcatenatePath os (aw_install_working_dir w) guid
             in case CopyAppVersionPackages os dm a installer_dir d of (hr, d1) \<Rightarrow>
                  if FAILED hr then (fail hr, d1, [])
                  else case InstallManager_InstallApp os (aw_env w) (aw_install w) (aw_cancel w 4) (cancels w 3 0 a) installer_dir of
                         (_, a1, fx) \<Rightarrow>
                         (a1, run_purges os (dm_package_cache dm) a a1 d1, map (ran_installer (app_guid a) d1) fx))"

definition App_Install_by :: "os \<Rightarrow> app_world \<Rightarrow> DownloadManager \<Rightarrow> App \<Rightarrow> disk \<Rightarrow> App \<times> disk \<times> worker_effect list" where
  "App_Install_by os w dm a d =
     (case app_state a of
        STATE_WAITING_TO_INSTALL \<Rightarrow> WaitingToInstall_Install_by os w dm a d
      | STATE_NO_UPDATE \<Rightarrow> (a, d, [])
      | STATE_ERROR \<Rightarrow> (a, d, [])
      | _ \<Rightarrow> (HandleInvalidStateTransition (aw_env w) a, d, []))"

definition download_and_install :: "os \<Rightarrow> app_world \<Rightarrow> App \<Rightarrow> DownloadManager \<Rightarrow> disk \<Rightarrow>
    App \<times> DownloadManager \<times> disk \<times> worker_effect list" where
  "download_and_install os w a dm d =
     (case App_Download_by os w (cancels w 0 0 a) dm d of (a1, dm1, d1) \<Rightarrow>
      case App_Install_by os w dm1 (cancels w 2 1 (App_QueueInstall (aw_env w) (cancels w 2 0 a1))) d1 of (a2, d2, fx) \<Rightarrow>
        (a2, dm1, d2, fx))"

section \<open>The loops over the apps\<close>

fun download_loop :: "os \<Rightarrow> (nat \<Rightarrow> app_world) \<Rightarrow> nat \<Rightarrow> App list \<Rightarrow> DownloadManager \<Rightarrow> disk \<Rightarrow> App list \<times> DownloadManager \<times> disk" where
  "download_loop os ws i [] dm d = ([], dm, d)"
| "download_loop os ws i (a # as) dm d =
     (case App_Download_by os (ws i) (cancels (ws i) 0 0 a) dm d of (a1, dm1, d1) \<Rightarrow>
      case download_loop os ws (Suc i) as dm1 d1 of (as1, dm2, d2) \<Rightarrow> (a1 # as1, dm2, d2))"

fun install_loop :: "os \<Rightarrow> (nat \<Rightarrow> app_world) \<Rightarrow> nat \<Rightarrow> App list \<Rightarrow> DownloadManager \<Rightarrow> disk \<Rightarrow>
    App list \<times> DownloadManager \<times> disk \<times> worker_effect list" where
  "install_loop os ws i [] dm d = ([], dm, d, [])"
| "install_loop os ws i (a # as) dm d =
     (case download_and_install os (ws i) a dm d of (a1, dm1, d1, fx1) \<Rightarrow>
      case install_loop os ws (Suc i) as dm1 d1 of (as1, dm2, d2, fx2) \<Rightarrow> (a1 # as1, dm2, d2, fx1 @ fx2))"

section \<open>The state of the worker\<close>

record worker_env =
  wk_os :: os
  wk_impersonate :: "nat \<Rightarrow> hresult"
  wk_apps :: "nat \<Rightarrow> app_world"
  wk_can_use_network :: bool
  wk_parse_offline_manifest :: "hresult \<times> Response"
  wk_send :: "guid list \<Rightarrow> hresult \<times> Response"
  wk_empty_response :: Response
  wk_retry_after_sec :: "32 word"
  wk_now_sec :: "32 word"
  wk_uninstalled_apps :: "hresult + string list"
  wk_bundle_env :: bundle_env

record Worker_state =
  ws_bundle :: AppBundle
  ws_manager :: DownloadManager
  ws_disk :: disk
  ws_trace :: "worker_effect list"

definition with_apps :: "App list \<Rightarrow> Worker_state \<Rightarrow> Worker_state" where
  "with_apps as s = s\<lparr>ws_bundle := (ws_bundle s)\<lparr>ab_apps := as\<rparr>\<rparr>"

definition traced :: "worker_effect list \<Rightarrow> Worker_state \<Rightarrow> Worker_state" where
  "traced fx s = s\<lparr>ws_trace := ws_trace s @ fx\<rparr>"

definition complete :: "Worker_state \<Rightarrow> Worker_state" where
  "complete s = s\<lparr>ws_bundle := snd (CompleteAsyncCall (ws_bundle s))\<rparr>"

fun mapi :: "(nat \<Rightarrow> 'a \<Rightarrow> 'b) \<Rightarrow> nat \<Rightarrow> 'a list \<Rightarrow> 'b list" where
  "mapi f i [] = []"
| "mapi f i (x # xs) = f i x # mapi f (Suc i) xs"

text \<open>The apps after the calls of \<open>PreUpdateCheck\<close> and the apps of the request: those that are now being checked.\<close>

definition DoPreUpdateCheck :: "worker_env \<Rightarrow> App list \<Rightarrow> App list \<times> guid list" where
  "DoPreUpdateCheck wk as =
     (let as1 = mapi (\<lambda>i a. App_PreUpdateCheck (aw_env (wk_apps wk i)) (cancels (wk_apps wk i) 5 0 a)) 0 as
      in (as1, map app_guid (filter (\<lambda>a. app_state a = STATE_CHECKING_FOR_UPDATE) as1)))"

definition DoUpdateCheck :: "worker_env \<Rightarrow> bool \<Rightarrow> guid list \<Rightarrow> hresult \<times> Response" where
  "DoUpdateCheck wk is_offline_install request =
     (if request = [] then (S_OK, wk_empty_response wk)
      else if is_offline_install then wk_parse_offline_manifest wk
      else if \<not> wk_can_use_network wk then (itf_error 0x815, wk_empty_response wk)
      else wk_send wk request)"

section \<open>Offline packages\<close>

definition FindV2OfflinePackagePath :: "os \<Rightarrow> disk \<Rightarrow> string \<Rightarrow> hresult + string" where
  "FindV2OfflinePackagePath os d offline_app_dir =
     (if \<not> File_Exists os d offline_app_dir then Inl (win32_error 3)
      else case os_FindFiles os d offline_app_dir of
             Inl hr \<Rightarrow> Inl hr
           | Inr es \<Rightarrow>
               if length es \<noteq> 3 then Inl (win32_error 2)
               else case find (\<lambda>f. \<not> File_IsDirectory os d f) (map (\<lambda>e. ConcatenatePath os offline_app_dir (cFileName e)) es) of
                      None \<Rightarrow> Inl (win32_error 2)
                    | Some f \<Rightarrow> Inr f)"

definition cache_offline_package :: "os \<Rightarrow> network \<Rightarrow> string \<Rightarrow> App \<Rightarrow> Package \<Rightarrow> DownloadManager \<Rightarrow> disk \<Rightarrow>
    hresult \<times> DownloadManager \<times> disk" where
  "cache_offline_package os nw offline_dir a p dm d =
     (if IsPackageAvailable os dm a p d then (S_OK, dm, d)
      else
        let offline_app_dir = ConcatenatePath os offline_dir (app_guid a);
            path = ConcatenatePath os offline_app_dir (filename p)
        in case (if File_Exists os d path then Inr path else FindV2OfflinePackagePath os d offline_app_dir) of
             Inl hr \<Rightarrow> (hr, dm, d)
           | Inr file \<Rightarrow>
               if FAILED (os_open_read os file) then (os_open_read os file, dm, d)
               else case d file of
                      None \<Rightarrow> (win32_error 2, dm, d)
                    | Some content \<Rightarrow> CachePackage os nw dm a p content file d)"

fun cache_offline_loop :: "os \<Rightarrow> string \<Rightarrow> (network \<times> App \<times> Package) list \<Rightarrow> DownloadManager \<Rightarrow> disk \<Rightarrow> hresult \<times> DownloadManager \<times> disk" where
  "cache_offline_loop os offline_dir [] dm d = (S_OK, dm, d)"
| "cache_offline_loop os offline_dir ((nw, a, p) # ps) dm d =
     (case cache_offline_package os nw offline_dir a p dm d of (hr, dm1, d1) \<Rightarrow>
        if FAILED hr then (hr, dm1, d1) else cache_offline_loop os offline_dir ps dm1 d1)"

definition CacheOfflinePackages :: "worker_env \<Rightarrow> string \<Rightarrow> App list \<Rightarrow> DownloadManager \<Rightarrow> disk \<Rightarrow> hresult \<times> DownloadManager \<times> disk" where
  "CacheOfflinePackages wk offline_dir as dm d =
     cache_offline_loop (wk_os wk) offline_dir
       (concat (mapi (\<lambda>i a. map (\<lambda>p. (aw_network (wk_apps wk i), a, p)) (packages (next_version a))) 0 as)) dm d"

section \<open>The requests\<close>

definition bundle_is_offline :: "AppBundle \<Rightarrow> bool" where
  "bundle_is_offline b \<longleftrightarrow> \<not> IsEmpty (ab_offline_dir b)"

definition pre_update_check :: "worker_env \<Rightarrow> Worker_state \<Rightarrow> guid list \<times> Worker_state" where
  "pre_update_check wk s =
     (case DoPreUpdateCheck wk (ab_apps (ws_bundle s)) of (as, request) \<Rightarrow>
        (request, (with_apps as s)\<lparr>ws_disk :=
           foldl (\<lambda>d (a, a1). run_purges (wk_os wk) (dm_package_cache (ws_manager s)) a a1 d) (ws_disk s)
             (zip (ab_apps (ws_bundle s)) as)\<rparr>))"

definition DoPostUpdateCheck :: "worker_env \<Rightarrow> hresult \<Rightarrow> Response \<Rightarrow> Worker_state \<Rightarrow> Worker_state" where
  "DoPostUpdateCheck wk hr response s =
     (let s1 = (case PersistRetryAfter (wk_now_sec wk) (wk_retry_after_sec wk) of
                  None \<Rightarrow> s | Some t \<Rightarrow> traced [SetRetryAfterTime t] s);
          as = mapi (\<lambda>i a. App_PostUpdateCheck (aw_env (wk_apps wk i)) hr response (cancels (wk_apps wk i) 5 1 a)) 0
                 (ab_apps (ws_bundle s1));
          s2 = with_apps as s1; dir = ab_offline_dir (ws_bundle s2)
      in if bundle_is_offline (ws_bundle s2) then
           case CacheOfflinePackages wk dir as (ws_manager s2) (ws_disk s2) of (_, dm, d) \<Rightarrow>
             s2\<lparr>ws_manager := dm, ws_disk := snd (DeleteDirectory (wk_os wk) dir d)\<rparr>
         else s2)"

definition CheckForUpdateHelper :: "worker_env \<Rightarrow> Worker_state \<Rightarrow> bool \<times> Worker_state" where
  "CheckForUpdateHelper wk s =
     (let s1 = (if wk_can_use_network wk then traced [SendOemInstalledPing] s else s)
      in if FAILED (wk_impersonate wk 0) then (False, s1)
         else
           case pre_update_check wk s1 of (request, s2) \<Rightarrow>
           case DoUpdateCheck wk (bundle_is_offline (ws_bundle s2)) request of (hr, response) \<Rightarrow>
             let s3 = DoPostUpdateCheck wk hr response s2
             in (SUCCEEDED hr,
                 if IsCupError hr \<and> sint (wk_retry_after_sec wk) \<le> 0 then traced [SendCupFailurePing hr] s3 else s3))"

definition Worker_CheckForUpdate :: "worker_env \<Rightarrow> Worker_state \<Rightarrow> Worker_state" where
  "Worker_CheckForUpdate wk s = complete (snd (CheckForUpdateHelper wk s))"

definition Worker_Download :: "worker_env \<Rightarrow> Worker_state \<Rightarrow> Worker_state" where
  "Worker_Download wk s =
     (if FAILED (wk_impersonate wk 0) then s
      else case download_loop (wk_os wk) (wk_apps wk) 0 (ab_apps (ws_bundle s)) (ws_manager s) (ws_disk s) of (as, dm, d) \<Rightarrow>
        complete ((with_apps as s)\<lparr>ws_manager := dm, ws_disk := d\<rparr>))"

definition DownloadAndInstallHelper :: "worker_env \<Rightarrow> Worker_state \<Rightarrow> Worker_state" where
  "DownloadAndInstallHelper wk s =
     (if FAILED (wk_impersonate wk 1) then s
      else case install_loop (wk_os wk) (wk_apps wk) 0 (ab_apps (ws_bundle s)) (ws_manager s) (ws_disk s) of (as, dm, d, fx) \<Rightarrow>
        traced fx ((with_apps as s)\<lparr>ws_manager := dm, ws_disk := d\<rparr>))"

text \<open>The state of an uninstalled app is removed once its ping is part of the bundle. A failure leaves the rest of the apps.\<close>

fun add_uninstalled :: "bundle_env \<Rightarrow> string list \<Rightarrow> Worker_state \<Rightarrow> hresult \<times> Worker_state" where
  "add_uninstalled be [] s = (S_OK, s)"
| "add_uninstalled be (app_id # ids) s =
     (if app_id = kGoopdateGuid then add_uninstalled be ids s
      else case CreateUninstalledApp be app_id (ws_bundle s) of
             (Inl hr, b) \<Rightarrow> (hr, s\<lparr>ws_bundle := b\<rparr>)
           | (Inr a, b) \<Rightarrow>
               let a1 = AddPingEvent (PingEvent4 EVENT_UNINSTALL EVENT_RESULT_SUCCESS 0 0) a
               in add_uninstalled be ids
                    (traced [RemovedState (app_guid a)]
                      (s\<lparr>ws_bundle := b\<lparr>ab_uninstalled_apps := butlast (ab_uninstalled_apps b) @ [a1]\<rparr>\<rparr>)))"

definition AddUninstalledAppsPings :: "worker_env \<Rightarrow> Worker_state \<Rightarrow> hresult \<times> Worker_state" where
  "AddUninstalledAppsPings wk s =
     (case wk_uninstalled_apps wk of Inl hr \<Rightarrow> (hr, s) | Inr ids \<Rightarrow> add_uninstalled (wk_bundle_env wk) ids s)"

definition Worker_DownloadAndInstall :: "worker_env \<Rightarrow> Worker_state \<Rightarrow> Worker_state" where
  "Worker_DownloadAndInstall wk s = complete (DownloadAndInstallHelper wk (snd (AddUninstalledAppsPings wk s)))"

definition Worker_UpdateAllApps :: "worker_env \<Rightarrow> Worker_state \<Rightarrow> Worker_state" where
  "Worker_UpdateAllApps wk s =
     (case CheckForUpdateHelper wk s of (is_check_successful, s1) \<Rightarrow>
        let s2 = (if is_check_successful then traced [UpdateLastChecked] s1 else s1);
            s3 = with_apps (mapi (\<lambda>i a. App_QueueDownloadOrInstall (aw_env (wk_apps wk i)) (cancels (wk_apps wk i) 5 2 a)) 0
                   (ab_apps (ws_bundle s2))) s2
        in complete (DownloadAndInstallHelper wk (snd (AddUninstalledAppsPings wk s3))))"

definition Worker_DownloadPackage :: "worker_env \<Rightarrow> Worker_state \<Rightarrow> Worker_state" where
  "Worker_DownloadPackage wk s = (if FAILED (wk_impersonate wk 0) then s else complete s)"

section \<open>What the installers get\<close>

lemma get_packages_content:
  assumes "get_packages os dm a dir ps d = (hr, d')" and "SUCCEEDED hr"
  shows "(f \<in> (\<lambda>p. ConcatenatePath os dir (filename p)) ` set ps \<longrightarrow>
           (\<exists>p\<in>set ps. \<exists>c. d' f = Some c \<and> SafeHexStringToVector (expected_hash p) = Some (sha256 c)))
       \<and> (f \<notin> (\<lambda>p. ConcatenatePath os dir (filename p)) ` set ps \<longrightarrow> d' f = d f)"
  using assms
proof (induction ps arbitrary: d)
  case (Cons p ps)
  obtain h1 d1 where g: "DownloadManager_GetPackage os dm a p dir d = (h1, d1)" by fastforce
  with Cons.prems have h: "SUCCEEDED h1" and r: "get_packages os dm a dir ps d1 = (hr, d')" by (auto split: if_splits)
  from g h obtain h2 where "PackageCache_Get os (dm_package_cache dm) (package_key a p) (ConcatenatePath os dir (filename p)) (expected_hash p) d = (h2, d1)"
    and "SUCCEEDED h2" by (auto simp: DownloadManager_GetPackage_def split: prod.splits if_splits)
  from pc.get_content [OF this] obtain c where c: "d1 = d(ConcatenatePath os dir (filename p) \<mapsto> c)"
    "SafeHexStringToVector (expected_hash p) = Some (sha256 c)" by blast
  from Cons.IH [OF r Cons.prems(2)] c show ?case by (auto split: if_splits)
qed simp

lemma CopyAppVersionPackages_content:
  assumes "CopyAppVersionPackages os dm a dir d = (hr, d')" and "SUCCEEDED hr" and "p \<in> set (packages (next_version a))"
  shows "\<exists>q\<in>set (packages (next_version a)). \<exists>c. d' (ConcatenatePath os dir (filename p)) = Some c
    \<and> SafeHexStringToVector (expected_hash q) = Some (sha256 c)"
  using assms get_packages_content [of os dm a dir "packages (next_version a)" d hr d' "ConcatenatePath os dir (filename p)"]
  by (auto simp: CopyAppVersionPackages_def split: if_splits)

lemma App_Installing_version: "next_version (App_Installing env a) = next_version a"
  by (simp add: App_Installing_def HandleInvalidStateTransition_def AppState_Error_def app_simps split: CurrentState.split)

lemma InstallApp_path:
  assumes "InstallApp os env iv sched cur n a dir = (hr, a', fx)" and "CalledInstallerWrapper path args data \<in> set fx"
  shows "\<exists>p\<in>set (packages (next_version a)). path = ConcatenatePath os dir (filename p)"
proof -
  have v: "next_version (App_Installing env (interfere env sched 0 a)) = next_version a"
    by (simp add: App_Installing_version interfere_def cancel_keeps)
  have "CalledInstallerWrapper path args data \<notin> set fx'" if "finish_install env iv cur cmd h info b = (hr', b', fx')" for cmd h info b hr' b' fx'
    using that by (auto simp: finish_install_def report_install_def Let_def split: prod.splits if_splits)
  with assms show ?thesis
    by (auto simp: InstallApp_def prepare_install_def Let_def v split: prod.splits sum.splits list.splits option.splits if_splits)
qed

definition verified_for :: "App \<Rightarrow> worker_effect \<Rightarrow> bool" where
  "verified_for a e \<longleftrightarrow> (\<forall>g path c. e = RanInstaller g path c \<longrightarrow> g = app_guid a \<and>
     (\<exists>p\<in>set (packages (next_version a)). \<exists>bytes. c = Some bytes \<and> SafeHexStringToVector (expected_hash p) = Some (sha256 bytes)))"

lemma WaitingToInstall_verified:
  assumes "WaitingToInstall_Install_by os w dm a d = (a', d', fx)" and "e \<in> set fx"
  shows "verified_for a e"
proof -
  have v: "next_version (cancels w 3 0 a) = next_version a" by (simp add: cancels_def interfere_def cancel_keeps)
  have "\<exists>p\<in>set (packages (next_version a)). \<exists>bytes. d1 path = Some bytes \<and> SafeHexStringToVector (expected_hash p) = Some (sha256 bytes)"
    if c: "CopyAppVersionPackages os dm a dir d = (hr, d1)" "SUCCEEDED hr"
      and i: "InstallManager_InstallApp os (aw_env w) (aw_install w) (aw_cancel w 4) (cancels w 3 0 a) dir = (h, b, fx')"
      and e: "CalledInstallerWrapper path args data \<in> set fx'" for dir hr d1 h b fx' path args data
  proof -
    from i e obtain p where "p \<in> set (packages (next_version a))" "path = ConcatenatePath os dir (filename p)"
      by (auto simp: InstallManager_InstallApp_def Let_def v split: prod.splits dest!: InstallApp_path)
    with CopyAppVersionPackages_content [OF c this(1)] show ?thesis by simp
  qed
  with assms show ?thesis
    by (fastforce simp: verified_for_def WaitingToInstall_Install_by_def Let_def ran_installer_def
        split: sum.splits prod.splits if_splits install_effect.splits)
qed

lemma DownloadApp_ident: "DownloadApp os nw env sched a dm d = (hr, a', dm', d') \<Longrightarrow> ident a' = ident a"
proof (cases "SUCCEEDED (nw_create_request nw)")
  case True
  assume "DownloadApp os nw env sched a dm d = (hr, a', dm', d')"
  from DownloadApp_parts [OF this True] obtain a1 dm2 where
    "download_packages os nw env (\<lambda>k. sched (Suc (Suc k))) 0 (packages (next_version a))
       (App_Downloading env (interfere env sched 0 a)) (add_state a dm) d = (hr, a1, dm2, d')"
    and "a' = finish_download env sched hr (dm_error_extra_code1 dm2) a1" by metis
  with download_packages_view [OF this(1)] show ?thesis by (simp add: finish_download_ident transitions_ident interfere_ident)
qed (auto simp: DownloadApp_def CreateStateForApp_def)

lemma invalid_ident: "ident (HandleInvalidStateTransition env a) = ident a"
  by (simp add: HandleInvalidStateTransition_def AppState_Error_def transition_parts_ident)

lemma LogTextAppend_ident: "ident (LogTextAppend s a) = ident a"
  by (simp add: LogTextAppend_def ident_def)

lemma App_Download_by_ident:
  "App_Download_by os w a dm d = (a', dm', d') \<Longrightarrow> ident a' = ident a"
  by (cases "app_state a")
    (auto simp: App_Download_by_def App_Download_def WaitingToDownload_Download_def LogTextAppend_ident invalid_ident
      split: prod.splits dest: DownloadApp_ident)

lemma App_QueueInstall_ident: "ident (App_QueueInstall env a) = ident a"
  by (simp add: App_QueueInstall_def invalid_ident transition_parts_ident split: CurrentState.split)

lemma cancels_ident: "ident (cancels w p k a) = ident a"
  by (simp add: cancels_def interfere_ident)

lemma verified_for_ident: "ident a' = ident a \<Longrightarrow> verified_for a' e = verified_for a e"
  by (simp add: verified_for_def ident_def)

lemma download_and_install_verified:
  assumes "download_and_install os w a dm d = (a', dm', d', fx)" and "e \<in> set fx"
  shows "verified_for a e"
proof -
  obtain a1 dm1 d1 where dl: "App_Download_by os w (cancels w 0 0 a) dm d = (a1, dm1, d1)" by (metis prod_cases3)
  define b where "b = cancels w 2 1 (App_QueueInstall (aw_env w) (cancels w 2 0 a1))"
  have i: "ident b = ident a"
    using App_Download_by_ident [OF dl] by (simp add: b_def cancels_ident App_QueueInstall_ident)
  from assms dl obtain a2 d2 where "App_Install_by os w dm1 b d1 = (a2, d2, fx)"
    by (auto simp: download_and_install_def b_def split: prod.splits)
  with assms(2) have "verified_for b e"
    by (cases "app_state b") (auto simp: App_Install_by_def dest: WaitingToInstall_verified)
  with verified_for_ident [OF i] show ?thesis by simp
qed

abbreviation run_effects :: "os \<Rightarrow> app_world \<Rightarrow> App \<Rightarrow> DownloadManager \<Rightarrow> disk \<Rightarrow> worker_effect list" where
  "run_effects os w a dm d \<equiv> snd (snd (snd (download_and_install os w a dm d)))"

lemma install_loop_effects:
  assumes "install_loop os ws i as dm d = (as', dm', d', fx)" and "e \<in> set fx"
  shows "\<exists>j<length as. \<exists>dm1 d1. e \<in> set (run_effects os (ws (i + j)) (as ! j) dm1 d1)"
  using assms
proof (induction as arbitrary: i dm d as' dm' d' fx)
  case (Cons a as)
  obtain a1 dm1 d1 fx1 where one: "download_and_install os (ws i) a dm d = (a1, dm1, d1, fx1)" by (metis prod_cases4)
  obtain as1 dm2 d2 fx2 where rest: "install_loop os ws (Suc i) as dm1 d1 = (as1, dm2, d2, fx2)" by (metis prod_cases4)
  from Cons.prems one rest consider "e \<in> set (run_effects os (ws i) a dm d)" | "e \<in> set fx2" by auto
  then show ?case
  proof cases
    case 1
    then show ?thesis by (metis add_0_right length_greater_0_conv list.distinct(1) nth_Cons_0)
  next
    case 2
    from Cons.IH [OF rest 2] show ?thesis by (metis Suc_less_eq add_Suc_right add_Suc length_Cons nth_Cons_Suc)
  qed
qed simp

lemma run_effects_verified: "e \<in> set (run_effects os w a dm d) \<Longrightarrow> verified_for a e"
  by (metis download_and_install_verified prod.collapse)

lemma cancel_states: "app_state (App_Cancel env a) = app_state a \<or> app_state (App_Cancel env a) = STATE_ERROR"
  by (simp add: App_Cancel_def AppState_Cancel_def Let_def app_simps split: CurrentState.split)

lemma cancels_states: "app_state (cancels w p k a) = app_state a \<or> app_state (cancels w p k a) = STATE_ERROR"
  using cancel_states by (simp add: cancels_def interfere_def)

lemma run_effects_waiting:
  assumes "e \<in> set (run_effects os w a dm d)"
  shows "app_state a = STATE_WAITING_TO_DOWNLOAD \<or> app_state a = STATE_WAITING_TO_INSTALL"
proof (rule ccontr)
  assume n: "\<not> ?thesis"
  define b where "b = cancels w 0 0 a"
  obtain a1 dm1 d1 where dl: "App_Download_by os w b dm d = (a1, dm1, d1)" by (metis prod_cases3)
  from n cancels_states [of w 0 0 a] have "app_state b \<noteq> STATE_WAITING_TO_DOWNLOAD" "app_state b \<noteq> STATE_WAITING_TO_INSTALL"
    by (auto simp: b_def)
  with dl have s: "app_state a1 = STATE_ERROR \<or> app_state a1 = STATE_NO_UPDATE"
    by (cases "app_state b") (auto simp: App_Download_by_def App_Download_def invalid_transition)
  define c where "c = cancels w 2 (Suc 0) (App_QueueInstall (aw_env w) (cancels w 2 0 a1))"
  from s cancels_states [of w 2 0 a1] cancels_states [of w 2 "Suc 0" "App_QueueInstall (aw_env w) (cancels w 2 0 a1)"]
  have "app_state c = STATE_ERROR \<or> app_state c = STATE_NO_UPDATE"
    by (auto simp: c_def App_QueueInstall_def)
  then have "App_Install_by os w dm1 c d1 = (c, d1, [])" by (auto simp: App_Install_by_def)
  with dl assms show False by (simp add: download_and_install_def b_def [symmetric] c_def [symmetric])
qed

lemma add_packages_done:
  assumes "add_packages ps v = (hr, v')" and "SUCCEEDED hr"
  shows "packages v' = packages v @
    map (\<lambda>p. \<lparr>filename = ip_name p, expected_size = ucast (word_of_int (ip_size p) :: 32 word), expected_hash = hash_sha256 p\<rparr>) ps"
  using assms by (induction ps arbitrary: v) (auto simp: AddPackage_def hresult_defs split: if_splits prod.splits)

lemma base_urls_packages: "packages (foldl (\<lambda>v u. AddDownloadBaseUrl u v) v us) = packages v"
  by (induction us arbitrary: v) (simp_all add: AddDownloadBaseUrl_def)

lemma BuildApp_packages:
  assumes "BuildApp response code a = (hr, a')" and "SUCCEEDED hr" and "code \<noteq> itf_error 0x809"
  shows "\<exists>ra. GetApp response (app_guid a) = Some ra \<and> map expected_hash (packages (next_version a')) =
    map expected_hash (packages (next_version a)) @ map hash_sha256 (im_packages (uc_install_manifest (ra_update_check ra)))"
  using assms
  by (auto simp: BuildApp_def Let_def base_urls_packages hresult_defs split: option.splits prod.splits if_splits sum.splits
      dest!: add_packages_done)

lemma HandleUpdateAvailable_packages:
  assumes "app_state (HandleUpdateAvailable env response S_OK a) = STATE_UPDATE_AVAILABLE"
  shows "\<exists>ra. GetApp response (app_guid a) = Some ra \<and>
    map expected_hash (packages (next_version (HandleUpdateAvailable env response S_OK a))) =
      map expected_hash (packages (next_version a)) @ map hash_sha256 (im_packages (uc_install_manifest (ra_update_check ra)))"
proof -
  obtain hr a1 where b: "BuildApp response S_OK (a\<lparr>has_update_available := True\<rparr>) = (hr, a1)" by fastforce
  with assms have "SUCCEEDED hr" by (auto simp: HandleUpdateAvailable_def app_simps split: if_splits)
  with BuildApp_packages [OF b this] b show ?thesis
    by (simp add: HandleUpdateAvailable_def Let_def app_simps hresult_defs)
qed

lemma PostUpdateCheck_available:
  assumes "app_state (App_PostUpdateCheck env hr response a) = STATE_UPDATE_AVAILABLE"
  shows "SUCCEEDED hr \<and> (\<exists>ra. GetApp response (app_guid a) = Some ra \<and>
    map expected_hash (packages (next_version (App_PostUpdateCheck env hr response a))) =
      map expected_hash (packages (next_version a)) @ map hash_sha256 (im_packages (uc_install_manifest (ra_update_check ra))))"
proof -
  have s: "app_state a = STATE_CHECKING_FOR_UPDATE"
    using assms by (auto simp: App_PostUpdateCheck_def invalid_transition split: CurrentState.splits)
  then have p: "App_PostUpdateCheck env hr response a = CheckingForUpdate_PostUpdateCheck env hr response a"
    by (simp add: App_PostUpdateCheck_def)
  have k: "app_guid (after_check env response a) = app_guid a" "next_version (after_check env response a) = next_version a"
    by (simp_all add: app_simps)
  have hr: "SUCCEEDED hr" using assms by (rule contrapos_pp) (simp add: p CheckingForUpdate_PostUpdateCheck_def Let_def app_simps)
  show ?thesis
  proof (cases rule: PostUpdateCheck_cases [of hr env response a])
    case (available ra)
    with hr assms HandleUpdateAvailable_packages [of env response "after_check env response a"] show ?thesis by (simp add: p k)
  qed (use assms in \<open>simp_all add: p app_simps HandleUpdateDeferred_def HandleNoUpdate_def HandleErrorResponse_def Let_def split: if_splits\<close>)
qed

lemma PostUpdateCheck_states:
  "app_state (App_PostUpdateCheck env hr response a) \<in> {STATE_UPDATE_AVAILABLE, STATE_NO_UPDATE, STATE_ERROR}"
  using PostUpdateCheck_state [of env hr response a] by (auto simp: App_PostUpdateCheck_def invalid_transition split: CurrentState.split)

section \<open>From the response to the installer\<close>

lemma mapi_simps [simp]: "length (mapi f i xs) = length xs" "j < length xs \<Longrightarrow> mapi f i xs ! j = f (i + j) (xs ! j)"
  "mapi g i (mapi f i xs) = mapi (\<lambda>k x. g k (f k x)) i xs"
  by (induction xs arbitrary: i j) (auto simp: nth_Cons split: nat.split)

text \<open>The result of the update check of a request, and an app after it.\<close>

definition update_check :: "worker_env \<Rightarrow> Worker_state \<Rightarrow> hresult \<times> Response" where
  "update_check wk s = DoUpdateCheck wk (bundle_is_offline (ws_bundle s)) (snd (DoPreUpdateCheck wk (ab_apps (ws_bundle s))))"

definition checked_app :: "worker_env \<Rightarrow> Worker_state \<Rightarrow> nat \<Rightarrow> App \<Rightarrow> App" where
  "checked_app wk s i a =
     App_PostUpdateCheck (aw_env (wk_apps wk i)) (fst (update_check wk s)) (snd (update_check wk s))
       (cancels (wk_apps wk i) 5 1 (App_PreUpdateCheck (aw_env (wk_apps wk i)) (cancels (wk_apps wk i) 5 0 a)))"

lemma state_simps [simp]:
  "ws_bundle (traced fx s) = ws_bundle s" "ws_trace (traced fx s) = ws_trace s @ fx" "ws_disk (traced fx s) = ws_disk s"
  "ws_manager (traced fx s) = ws_manager s" "ab_apps (ws_bundle (with_apps as s)) = as" "ws_trace (with_apps as s) = ws_trace s"
  "ws_disk (with_apps as s) = ws_disk s" "ws_manager (with_apps as s) = ws_manager s"
  "ws_trace (Worker.complete s) = ws_trace s" "bundle_is_offline (ws_bundle (with_apps as s)) = bundle_is_offline (ws_bundle s)"
  by (simp_all add: traced_def with_apps_def complete_def bundle_is_offline_def)

lemma DoPostUpdateCheck_simps [simp]:
  "ab_apps (ws_bundle (DoPostUpdateCheck wk hr r s)) =
     mapi (\<lambda>i a. App_PostUpdateCheck (aw_env (wk_apps wk i)) hr r (cancels (wk_apps wk i) 5 1 a)) 0 (ab_apps (ws_bundle s))"
  "RanInstaller g path c \<in> set (ws_trace (DoPostUpdateCheck wk hr r s)) \<longleftrightarrow> RanInstaller g path c \<in> set (ws_trace s)"
  by (simp_all add: DoPostUpdateCheck_def Let_def split: option.split prod.split)

lemma CheckForUpdateHelper_apps:
  assumes "CheckForUpdateHelper wk s = (ok, s')" and "SUCCEEDED (wk_impersonate wk 0)"
  shows "ab_apps (ws_bundle s') = mapi (checked_app wk s) 0 (ab_apps (ws_bundle s))" "ok = SUCCEEDED (fst (update_check wk s))"
proof -
  obtain hr r where u: "update_check wk s = (hr, r)" by fastforce
  obtain as rq where pre: "DoPreUpdateCheck wk (ab_apps (ws_bundle s)) = (as, rq)" by fastforce
  then have as: "as = mapi (\<lambda>i a. App_PreUpdateCheck (aw_env (wk_apps wk i)) (cancels (wk_apps wk i) 5 0 a)) 0 (ab_apps (ws_bundle s))"
    by (simp add: DoPreUpdateCheck_def Let_def)
  have c: "checked_app wk s = (\<lambda>i a. App_PostUpdateCheck (aw_env (wk_apps wk i)) hr r
       (cancels (wk_apps wk i) 5 1 (App_PreUpdateCheck (aw_env (wk_apps wk i)) (cancels (wk_apps wk i) 5 0 a))))"
    by (simp add: fun_eq_iff checked_app_def u)
  have "ab_apps (ws_bundle s') = mapi (checked_app wk s) 0 (ab_apps (ws_bundle s)) \<and> ok = SUCCEEDED (fst (update_check wk s))"
    using assms u pre
    by (auto simp: CheckForUpdateHelper_def pre_update_check_def update_check_def as c Let_def split: if_splits prod.splits)
  then show "ab_apps (ws_bundle s') = mapi (checked_app wk s) 0 (ab_apps (ws_bundle s))" "ok = SUCCEEDED (fst (update_check wk s))"
    by auto
qed

lemma CheckForUpdateHelper_trace:
  "CheckForUpdateHelper wk s = (ok, s') \<Longrightarrow> RanInstaller g path c \<in> set (ws_trace s') \<longleftrightarrow> RanInstaller g path c \<in> set (ws_trace s)"
  by (auto simp: CheckForUpdateHelper_def pre_update_check_def Let_def split: if_splits prod.splits)

lemma add_uninstalled_simps:
  "ab_apps (ws_bundle (snd (add_uninstalled be ids s))) = ab_apps (ws_bundle s)"
  "RanInstaller g path c \<in> set (ws_trace (snd (add_uninstalled be ids s))) \<longleftrightarrow> RanInstaller g path c \<in> set (ws_trace s)"
  by (induction be ids s rule: add_uninstalled.induct)
    (auto simp: CreateUninstalledApp_def Let_def traced_def split: sum.splits)

lemma AddUninstalledAppsPings_simps [simp]:
  "ab_apps (ws_bundle (snd (AddUninstalledAppsPings wk s))) = ab_apps (ws_bundle s)"
  "RanInstaller g path c \<in> set (ws_trace (snd (AddUninstalledAppsPings wk s))) \<longleftrightarrow> RanInstaller g path c \<in> set (ws_trace s)"
  by (simp_all add: AddUninstalledAppsPings_def add_uninstalled_simps split: sum.split)

lemma DownloadAndInstallHelper_runs:
  assumes "RanInstaller g path c \<in> set (ws_trace (DownloadAndInstallHelper wk s))" and "RanInstaller g path c \<notin> set (ws_trace s)"
  shows "\<exists>j<length (ab_apps (ws_bundle s)). let a = ab_apps (ws_bundle s) ! j in
    verified_for a (RanInstaller g path c) \<and> (app_state a = STATE_WAITING_TO_DOWNLOAD \<or> app_state a = STATE_WAITING_TO_INSTALL)"
proof -
  obtain as dm d fx where l: "install_loop (wk_os wk) (wk_apps wk) 0 (ab_apps (ws_bundle s)) (ws_manager s) (ws_disk s) = (as, dm, d, fx)"
    by (metis prod_cases4)
  with assms have "RanInstaller g path c \<in> set fx" by (auto simp: DownloadAndInstallHelper_def split: if_splits)
  from install_loop_effects [OF l this] run_effects_verified run_effects_waiting show ?thesis unfolding Let_def by fastforce
qed

lemma add_effect_ident: "ident (add_effect e a) = ident a"
  by (simp add: add_effect_def ident_def)

lemmas ident_simps = transition_parts_ident download_setters_view(1) LogTextAppend_ident invalid_ident add_effect_ident

lemma GroupPolicyError_ident: "ident (HandleGroupPolicyError env hr a) = ident a"
  by (simp add: HandleGroupPolicyError_def AppState_Error_def ident_simps Let_def)

lemma PreUpdateCheck_ident: "ident (App_PreUpdateCheck env a) = ident a"
  by (simp add: App_PreUpdateCheck_def WaitingToCheckForUpdate_PreUpdateCheck_def AppState_Error_def Let_def ident_simps GroupPolicyError_ident
      split: CurrentState.split)

lemma QueueDownloadOrInstall_waiting:
  assumes "app_state (App_QueueDownloadOrInstall env a) = STATE_WAITING_TO_DOWNLOAD \<or> app_state (App_QueueDownloadOrInstall env a) = STATE_WAITING_TO_INSTALL"
    and "app_state a \<noteq> STATE_READY_TO_INSTALL"
  shows "app_state a = STATE_UPDATE_AVAILABLE" "permitted env (app_guid a) (is_update a)" "ident (App_QueueDownloadOrInstall env a) = ident a"
  using assms
  by (auto simp: App_QueueDownloadOrInstall_def UpdateAvailable_QueueDownload_def HandleGroupPolicyError_def invalid_transition app_simps ident_simps
      CheckGroupPolicy_permitted [symmetric] split: CurrentState.splits if_splits)

lemma checked_app_states: "app_state (checked_app wk s i a) \<in> {STATE_UPDATE_AVAILABLE, STATE_NO_UPDATE, STATE_ERROR}"
  unfolding checked_app_def by (rule PostUpdateCheck_states)

lemma checked_app_available:
  assumes "app_state (checked_app wk s i a) = STATE_UPDATE_AVAILABLE"
  shows "app_guid (checked_app wk s i a) = app_guid a" "is_update (checked_app wk s i a) = is_update a"
    "SUCCEEDED (fst (update_check wk s)) \<and> (\<exists>ra. GetApp (snd (update_check wk s)) (app_guid a) = Some ra \<and>
       map expected_hash (packages (next_version (checked_app wk s i a))) =
         map expected_hash (packages (next_version a)) @ map hash_sha256 (im_packages (uc_install_manifest (ra_update_check ra))))"
proof -
  let ?w = "wk_apps wk i"
  define b where "b = cancels ?w 5 1 (App_PreUpdateCheck (aw_env ?w) (cancels ?w 5 0 a))"
  have i: "ident b = ident a" by (simp add: b_def cancels_ident PreUpdateCheck_ident)
  have c: "checked_app wk s i a = App_PostUpdateCheck (aw_env ?w) (fst (update_check wk s)) (snd (update_check wk s)) b"
    by (simp add: checked_app_def b_def)
  from app_step_keeps [of b "(aw_env ?w, PostUpdateCheck (fst (update_check wk s)) (snd (update_check wk s)))"] i
  show "app_guid (checked_app wk s i a) = app_guid a" "is_update (checked_app wk s i a) = is_update a" by (simp_all add: c ident_def)
  from PostUpdateCheck_available [OF assms [unfolded c]] i
  show "SUCCEEDED (fst (update_check wk s)) \<and> (\<exists>ra. GetApp (snd (update_check wk s)) (app_guid a) = Some ra \<and>
       map expected_hash (packages (next_version (checked_app wk s i a))) =
         map expected_hash (packages (next_version a)) @ map hash_sha256 (im_packages (uc_install_manifest (ra_update_check ra))))"
    by (simp add: c ident_def)
qed

text \<open>An installer is run for an app of the response: what \<open>verified_for\<close> says of the packages, said of the manifest.\<close>

lemma verified_from_response:
  assumes "verified_for a' (RanInstaller g path c)" and "ident a' = ident a" and "packages (next_version a0) = []"
    and "map expected_hash (packages (next_version a)) = map expected_hash (packages (next_version a0)) @ map hash_sha256 ips"
  shows "g = app_guid a \<and> (\<exists>ip\<in>set ips. \<exists>bytes. c = Some bytes \<and> SafeHexStringToVector (hash_sha256 ip) = Some (sha256 bytes))"
proof -
  from assms(1,2) obtain p bytes where p: "p \<in> set (packages (next_version a))" "c = Some bytes" "g = app_guid a"
    "SafeHexStringToVector (expected_hash p) = Some (sha256 bytes)"
    by (auto simp: verified_for_def ident_def)
  then have "expected_hash p \<in> set (map expected_hash (packages (next_version a)))" by simp
  then have "expected_hash p \<in> set (map hash_sha256 ips)" unfolding assms(3,4) by simp
  with p show ?thesis by auto
qed

definition fresh_app :: "App \<Rightarrow> bool" where
  "fresh_app a \<longleftrightarrow> app_state a \<in> {STATE_WAITING_TO_CHECK_FOR_UPDATE, STATE_ERROR} \<and> packages (next_version a) = []"

abbreviation queued_app_of :: "worker_env \<Rightarrow> nat \<Rightarrow> App \<Rightarrow> App" where
  "queued_app_of wk i a \<equiv> App_QueueDownloadOrInstall (aw_env (wk_apps wk i)) (cancels (wk_apps wk i) 5 2 a)"

lemma queued_without_check:
  assumes "fresh_app a" shows "app_state (queued_app_of wk i a) = STATE_ERROR"
  using assms cancels_states [of "wk_apps wk i" 5 2 a] by (auto simp: fresh_app_def App_QueueDownloadOrInstall_def invalid_transition)

lemma queued_from_check:
  assumes "app_state (queued_app_of wk i (checked_app wk s i a)) \<in> {STATE_WAITING_TO_DOWNLOAD, STATE_WAITING_TO_INSTALL}"
    and "verified_for (queued_app_of wk i (checked_app wk s i a)) (RanInstaller g path c)" and "packages (next_version a) = []"
  shows "app_guid a = g \<and> permitted (aw_env (wk_apps wk i)) g (is_update a) \<and> SUCCEEDED (fst (update_check wk s))
    \<and> (\<exists>ra. \<exists>ip\<in>set (im_packages (uc_install_manifest (ra_update_check ra))). \<exists>bytes. GetApp (snd (update_check wk s)) g = Some ra
         \<and> c = Some bytes \<and> SafeHexStringToVector (hash_sha256 ip) = Some (sha256 bytes))"
proof -
  define a1 where "a1 = checked_app wk s i a"
  define b where "b = cancels (wk_apps wk i) 5 2 a1"
  have nr: "app_state b \<noteq> STATE_READY_TO_INSTALL"
    using cancels_states [of "wk_apps wk i" 5 2 a1] checked_app_states [of wk s i a] by (auto simp: b_def a1_def)
  have w: "app_state (App_QueueDownloadOrInstall (aw_env (wk_apps wk i)) b) = STATE_WAITING_TO_DOWNLOAD
      \<or> app_state (App_QueueDownloadOrInstall (aw_env (wk_apps wk i)) b) = STATE_WAITING_TO_INSTALL"
    using assms(1) by (simp add: b_def a1_def)
  note q = QueueDownloadOrInstall_waiting [OF w nr]
  have sa: "app_state a1 = STATE_UPDATE_AVAILABLE" using q(1) cancels_states [of "wk_apps wk i" 5 2 a1] by (auto simp: b_def)
  note ca = checked_app_available [OF sa [unfolded a1_def], folded a1_def]
  have ib: "ident b = ident a1" by (simp add: b_def cancels_ident)
  from ca(3) obtain ra where ra: "GetApp (snd (update_check wk s)) (app_guid a) = Some ra"
    "map expected_hash (packages (next_version a1)) = map expected_hash (packages (next_version a))
       @ map hash_sha256 (im_packages (uc_install_manifest (ra_update_check ra)))" by blast
  have "verified_for (App_QueueDownloadOrInstall (aw_env (wk_apps wk i)) b) (RanInstaller g path c)"
    using assms(2) by (simp add: b_def a1_def)
  from verified_from_response [OF this _ assms(3) ra(2)] q(3) ib have
    v: "g = app_guid a1" "\<exists>ip\<in>set (im_packages (uc_install_manifest (ra_update_check ra))). \<exists>bytes. c = Some bytes
        \<and> SafeHexStringToVector (hash_sha256 ip) = Some (sha256 bytes)" by auto
  from q(2) ib ca(1,2) v(1) have "permitted (aw_env (wk_apps wk i)) g (is_update a)" by (simp add: ident_def)
  with v ra(1) ca show ?thesis by auto
qed

lemma update_runs:
  assumes "list_all fresh_app (ab_apps (ws_bundle s))"
    and "RanInstaller g path c \<in> set (ws_trace (Worker_UpdateAllApps wk s))" and "RanInstaller g path c \<notin> set (ws_trace s)"
  shows "\<exists>i<length (ab_apps (ws_bundle s)).
    app_state (queued_app_of wk i (checked_app wk s i (ab_apps (ws_bundle s) ! i))) \<in> {STATE_WAITING_TO_DOWNLOAD, STATE_WAITING_TO_INSTALL}
    \<and> verified_for (queued_app_of wk i (checked_app wk s i (ab_apps (ws_bundle s) ! i))) (RanInstaller g path c)"
proof -
  obtain ok s1 where h: "CheckForUpdateHelper wk s = (ok, s1)" by fastforce
  define s3 where "s3 = snd (AddUninstalledAppsPings wk (with_apps (mapi (queued_app_of wk) 0
     (ab_apps (ws_bundle s1))) (if ok then traced [UpdateLastChecked] s1 else s1)))"
  have a3: "ab_apps (ws_bundle s3) = mapi (queued_app_of wk) 0 (ab_apps (ws_bundle s1))" by (simp add: s3_def)
  have "RanInstaller g path c \<in> set (ws_trace (DownloadAndInstallHelper wk s3))"
    using assms(2) by (simp add: Worker_UpdateAllApps_def h s3_def Let_def split: if_splits)
  moreover have "RanInstaller g path c \<notin> set (ws_trace s3)" using assms(3) CheckForUpdateHelper_trace [OF h] by (simp add: s3_def)
  ultimately obtain j where j: "j < length (ab_apps (ws_bundle s1))"
    "verified_for (queued_app_of wk j (ab_apps (ws_bundle s1) ! j)) (RanInstaller g path c)"
    "app_state (queued_app_of wk j (ab_apps (ws_bundle s1) ! j)) \<in> {STATE_WAITING_TO_DOWNLOAD, STATE_WAITING_TO_INSTALL}"
    using DownloadAndInstallHelper_runs [of g path c wk s3] by (auto simp: a3 Let_def)
  show ?thesis
  proof (cases "SUCCEEDED (wk_impersonate wk 0)")
    case True
    with j CheckForUpdateHelper_apps [OF h True] show ?thesis by auto
  next
    case False
    then have "ab_apps (ws_bundle s1) = ab_apps (ws_bundle s)" using h by (auto simp: CheckForUpdateHelper_def Let_def split: if_splits)
    with j assms(1) queued_without_check show ?thesis by (auto simp: list_all_length)
  qed
qed

section \<open>The apps of an automatic update\<close>

lemma AppState_Error_version: "next_version (AppState_Error env ec m a) = next_version a"
  by (simp add: AppState_Error_def app_simps)

lemma QueueUpdateCheck_fresh:
  "app_state a = STATE_INIT \<Longrightarrow> packages (next_version a) = [] \<Longrightarrow> fresh_app (App_QueueUpdateCheck env a)"
  by (auto simp: fresh_app_def App_QueueUpdateCheck_def AppState_QueueUpdateCheck_def Init_QueueUpdateCheck_def App_Error_def
      HandleInvalidStateTransition_def AppState_Error_version app_simps)

definition new_app :: "App \<Rightarrow> bool" where
  "new_app a \<longleftrightarrow> app_state a = STATE_INIT \<and> packages (next_version a) = []"

lemma AddInstalledApp_new: "list_all new_app (ab_apps b) \<Longrightarrow> list_all new_app (ab_apps (snd (AddInstalledApp be app_id b)))"
  by (auto simp: AddInstalledApp_def AddApp_def AddAppToBundle_def new_app_def apply_persistent_data_def new_App_def split: sum.split)

lemma AddInstalledApps_new:
  "list_all new_app (ab_apps b) \<Longrightarrow> list_all new_app (ab_apps (foldl (\<lambda>b app_id. snd (AddInstalledApp be app_id b)) b ids))"
  by (induction ids arbitrary: b) (simp_all add: AddInstalledApp_new)

lemma createAllInstalledApps_new:
  assumes "AppBundle_createAllInstalledApps be b = (hr, b')" and "ab_apps b = []"
  shows "list_all new_app (ab_apps b')"
  using assms AddInstalledApps_new [of b be]
  by (auto simp: AppBundle_createAllInstalledApps_def Initialized_CreateAllInstalledApps_def impersonating_def set_reloaded_def
      Bundle_HandleInvalidStateTransition_def split: AppBundleState.splits sum.splits if_splits)

lemma updateAllApps_fresh:
  assumes "AppBundle_updateAllApps be b = (hr, b')" and "SUCCEEDED hr"
  shows "list_all fresh_app (ab_apps b')"
proof -
  from assms obtain hr1 b1 where "ab_apps b = []" and c: "AppBundle_createAllInstalledApps be (b\<lparr>ab_is_auto_update := True\<rparr>) = (hr1, b1)"
    and "b' = b1\<lparr>ab_user_work_item := Some Work_UpdateAllApps, ab_apps := map (App_QueueUpdateCheck (env_of be b1)) (ab_apps b1), ab_state := BundleBusy\<rparr>"
    by (auto simp: AppBundle_updateAllApps_def impersonating_def Initialized_UpdateAllApps_def UpdateAllAppsAsync_def busy_queue
        Bundle_HandleInvalidStateTransition_def hresult_defs split: AppBundleState.splits if_splits prod.splits)
  with createAllInstalledApps_new [OF c] show ?thesis by (auto simp: list_all_iff new_app_def intro: QueueUpdateCheck_fresh)
qed

text \<open>C1. An automatic update runs an installer only if the whole chain holds: after the client's call to update all apps, whenever the worker runs
  an installer for an app of the bundle, the update check succeeded, the response has an element for this
  app, the group policy permits the update or install of this app, and the file that is run has, at the moment the installer is started, the
  SHA-256 that the manifest of this element gives for one of its packages - whatever the servers sent, whatever was in the cache and
  on the disk, and whenever the client cancelled apps.\<close>

theorem update_runs_verified_installers:
  assumes "AppBundle_updateAllApps be b = (hr, ws_bundle s)" and "SUCCEEDED hr"
    and "RanInstaller g path c \<in> set (ws_trace (Worker_UpdateAllApps wk s))" and "RanInstaller g path c \<notin> set (ws_trace s)"
  shows "\<exists>i<length (ab_apps (ws_bundle s)). app_guid (ab_apps (ws_bundle s) ! i) = g
    \<and> permitted (aw_env (wk_apps wk i)) g (is_update (ab_apps (ws_bundle s) ! i)) \<and> SUCCEEDED (fst (update_check wk s))
    \<and> (\<exists>ra. \<exists>ip\<in>set (im_packages (uc_install_manifest (ra_update_check ra))). \<exists>bytes. GetApp (snd (update_check wk s)) g = Some ra
         \<and> c = Some bytes \<and> SafeHexStringToVector (hash_sha256 ip) = Some (sha256 bytes))"
proof -
  note f = updateAllApps_fresh [OF assms(1,2)]
  from update_runs [OF f assms(3,4)] obtain i where i: "i < length (ab_apps (ws_bundle s))"
    "app_state (queued_app_of wk i (checked_app wk s i (ab_apps (ws_bundle s) ! i))) \<in> {STATE_WAITING_TO_DOWNLOAD, STATE_WAITING_TO_INSTALL}"
    "verified_for (queued_app_of wk i (checked_app wk s i (ab_apps (ws_bundle s) ! i))) (RanInstaller g path c)" by blast
  from f i(1) have "packages (next_version (ab_apps (ws_bundle s) ! i)) = []" by (simp add: list_all_length fresh_app_def)
  from queued_from_check [OF i(2,3) this] i(1) show ?thesis by blast
qed

section \<open>An undisturbed update reaches its installer\<close>

lemma Get_works:
  assumes "IsCached os pc d key h" and "\<not> key_incomplete key" and "\<And>f. SUCCEEDED (os_CopyFile os f dest)"
  shows "\<exists>d'. PackageCache_Get os pc key dest h d = (S_OK, d') \<and> (\<forall>f. f \<noteq> dest \<longrightarrow> d' f = d f)"
  using assms pc.cached_content [OF assms(1)]
  by (fastforce simp: IsCached_iff PackageCache_Get_def File_Exists_def File_Copy_def)

text \<open>The working directory of the install manager has no file of the cache.\<close>

definition outside_cache :: "os \<Rightarrow> PackageCache \<Rightarrow> App \<Rightarrow> string \<Rightarrow> Package list \<Rightarrow> bool" where
  "outside_cache os pc a dir ps \<longleftrightarrow> list_all (\<lambda>p. list_all (\<lambda>q. cache_file os pc a p \<noteq> Inr (ConcatenatePath os dir (filename q))) ps) ps"

lemma get_packages_works:
  assumes "list_all (\<lambda>p. IsPackageAvailable os dm a p d) ps" and "\<And>p. p \<in> set ps \<Longrightarrow> \<not> key_incomplete (package_key a p)"
    and "\<And>f t. SUCCEEDED (os_CopyFile os f t)" and "outside_cache os (dm_package_cache dm) a dir qs" and "set ps \<subseteq> set qs"
  shows "\<exists>d'. get_packages os dm a dir ps d = (S_OK, d')"
  using assms
proof (induction ps arbitrary: d)
  case (Cons p ps)
  from Get_works [of os "dm_package_cache dm" d "package_key a p" "expected_hash p" "ConcatenatePath os dir (filename p)"] Cons.prems
  obtain d1 where g: "PackageCache_Get os (dm_package_cache dm) (package_key a p) (ConcatenatePath os dir (filename p)) (expected_hash p) d = (S_OK, d1)"
    and f: "\<And>f. f \<noteq> ConcatenatePath os dir (filename p) \<Longrightarrow> d1 f = d f"
    by (auto simp: IsPackageAvailable_def)
  have "IsPackageAvailable os dm a q d1" if "q \<in> set ps" for q
    unfolding IsPackageAvailable_def
  proof (rule pc.cached_frame)
    show "IsCached os (dm_package_cache dm) d (package_key a q) (expected_hash q)"
      using Cons.prems(1) that by (auto simp: list_all_iff IsPackageAvailable_def)
    show "d1 x = d x" if "cache_file os (dm_package_cache dm) a q = Inr x" for x
      by (rule f) (use Cons.prems(4,5) \<open>q \<in> set ps\<close> that in \<open>auto simp: outside_cache_def list_all_iff\<close>)
  qed
  with Cons.IH [of d1] Cons.prems g show ?case by (auto simp: DownloadManager_GetPackage_def list_all_iff)
qed simp

lemma InstallApp_runs:
  assumes "\<not> sched 0" and "install_manifest (next_version a) = Some m" and "packages (next_version a) = p # ps"
    and "\<And>b. SUCCEEDED (ie_WritePreInstallData iv b)"
  shows "\<exists>hr a' args data fx. InstallManager_InstallApp os env iv sched a dir =
    (hr, a', CalledInstallerWrapper (ConcatenatePath os dir (filename p)) args data # fx)"
  using assms
  by (simp add: InstallManager_InstallApp_def InstallApp_def interfere_def prepare_install_def App_Installing_version Let_def split: prod.split)

text \<open>What an app needs for an update that nobody disturbs.\<close>

definition can_update :: "os \<Rightarrow> app_world \<Rightarrow> App \<Rightarrow> DownloadManager \<Rightarrow> bool" where
  "can_update os w a dm \<longleftrightarrow> SUCCEEDED (nw_create_request (aw_network w)) \<and> online os (aw_network w) a
     \<and> list_all (downloadable os (aw_network w) (dm_package_cache dm) a) (packages (next_version a))
     \<and> separate os (aw_network w) (dm_package_cache dm) a
     \<and> distinct (map (cache_file os (dm_package_cache dm) a) (packages (next_version a)))
     \<and> app_guid a \<notin> fst ` set (dm_download_state dm) \<and> (\<forall>f t. SUCCEEDED (os_CopyFile os f t))
     \<and> has_manifest (next_version a) \<and> packages (next_version a) \<noteq> [] \<and> (\<forall>b. SUCCEEDED (ie_WritePreInstallData (aw_install w) b))
     \<and> (case aw_guid w of Inl _ \<Rightarrow> False | Inr guid \<Rightarrow>
          outside_cache os (dm_package_cache dm) a (ConcatenatePath os (aw_install_working_dir w) guid) (packages (next_version a)))"

lemma can_update_ident: "ident a' = ident a \<Longrightarrow> can_update os w a dm \<Longrightarrow> can_update os w a' dm"
  using online_ident [of a' a] downloadable_ident [of a' a] separate_ident [of a' a] package_key_ident [of a' a]
  by (auto simp: can_update_def outside_cache_def list_all_iff ident_def split: sum.splits)

lemma undisturbed_download:
  assumes "app_state a = STATE_WAITING_TO_DOWNLOAD" and "can_update os w a dm" and "aw_cancel w = (\<lambda>_ _. False)"
    and "list_all (no_longer_file os (aw_network w) (dm_package_cache dm) a d) (packages (next_version a))"
    and "App_Download_by os w a dm d = (a1, dm1, d1)"
  shows "app_state a1 = STATE_READY_TO_INSTALL" "ident a1 = ident a" "dm_view dm1 = dm_view dm"
    "list_all (\<lambda>p. IsPackageAvailable os dm1 a1 p d1) (packages (next_version a1))"
proof -
  obtain hr b dm2 d2 where dl: "DownloadApp os (aw_network w) (aw_env w) (aw_cancel w 1) a dm d = (hr, b, dm2, d2)" by (metis prod_cases4)
  with assms(1,5) have a1: "a1 = LogTextAppend (''Download result=0x'' @ hex8 hr) b" and eq: "dm2 = dm1" "d2 = d1"
    by (auto simp: App_Download_by_def App_Download_def WaitingToDownload_Download_def)
  have cu: "SUCCEEDED (nw_create_request (aw_network w))" "online os (aw_network w) a" "app_guid a \<notin> fst ` set (dm_download_state dm)"
    "list_all (downloadable os (aw_network w) (dm_package_cache dm) a) (packages (next_version a))"
    "separate os (aw_network w) (dm_package_cache dm) a" "distinct (map (cache_file os (dm_package_cache dm) a) (packages (next_version a)))"
    using assms(2) by (auto simp: can_update_def)
  have hr: "SUCCEEDED hr" by (rule DownloadApp_delivers [OF cu(1,2,4,5,6) assms(4) dl])
  have "undisturbed (aw_cancel w 1) (length (packages (next_version a)))" using assms(3) by (simp add: undisturbed_def list_all_iff)
  with DownloadApp_state [OF assms(1) cu(1) dl] hr have "app_state b = STATE_READY_TO_INSTALL" by simp
  then show "app_state a1 = STATE_READY_TO_INSTALL" by (simp add: a1 LogTextAppend_def)
  from DownloadApp_manager [OF cu(1,3) dl] show "ident a1 = ident a" "dm_view dm1 = dm_view dm"
    by (simp_all add: a1 LogTextAppend_ident eq)
  have "package_key a1 p = package_key b p" for p by (rule package_key_ident) (simp add: a1 LogTextAppend_ident)
  with DownloadApp_cached [OF cu(1,3,5,6) dl hr] show "list_all (\<lambda>p. IsPackageAvailable os dm1 a1 p d1) (packages (next_version a1))"
    by (simp add: IsPackageAvailable_def eq) (simp add: a1 LogTextAppend_def)
qed

lemma undisturbed_install:
  assumes "can_update os w a dm" and "aw_cancel w = (\<lambda>_ _. False)"
    and "list_all (\<lambda>p. IsPackageAvailable os dm a p d) (packages (next_version a))"
  shows "\<exists>path c. RanInstaller (app_guid a) path c \<in> set (snd (snd (WaitingToInstall_Install_by os w dm a d)))"
proof -
  obtain guid where g: "aw_guid w = Inr guid" using assms(1) by (auto simp: can_update_def split: sum.splits)
  let ?dir = "ConcatenatePath os (aw_install_working_dir w) guid"
  have k: "\<not> key_incomplete (package_key a p)" if "p \<in> set (packages (next_version a))" for p
    by (rule package_key_complete) (use assms(1) that in \<open>auto simp: can_update_def online_def downloadable_def list_all_iff\<close>)
  have "\<exists>d1. get_packages os dm a ?dir (packages (next_version a)) d = (S_OK, d1)"
    by (rule get_packages_works [OF assms(3) k]) (use assms(1) g in \<open>auto simp: can_update_def\<close>)
  then obtain d1 where c: "CopyAppVersionPackages os dm a ?dir d = (S_OK, d1)"
    using assms(1) by (auto simp: CopyAppVersionPackages_def can_update_def online_def os_works_def)
  obtain m p ps where m: "install_manifest (next_version a) = Some m" "packages (next_version a) = p # ps"
    using assms(1) by (auto simp: can_update_def has_manifest_def neq_Nil_conv split: option.splits)
  from InstallApp_runs [of "aw_cancel w 4" a m p ps "aw_install w" os "aw_env w" ?dir] m assms(1,2)
  obtain hr b args data fx where i: "InstallManager_InstallApp os (aw_env w) (aw_install w) (aw_cancel w 4) a ?dir =
      (hr, b, CalledInstallerWrapper (ConcatenatePath os ?dir (filename p)) args data # fx)"
    by (auto simp: can_update_def)
  with g c assms(2) have "RanInstaller (app_guid a) (ConcatenatePath os ?dir (filename p)) (d1 (ConcatenatePath os ?dir (filename p)))
      \<in> set (snd (snd (WaitingToInstall_Install_by os w dm a d)))"
    by (simp add: WaitingToInstall_Install_by_def cancels_def interfere_def ran_installer_def Let_def)
  then show ?thesis by blast
qed

lemma undisturbed_runs:
  assumes "app_state a = STATE_WAITING_TO_DOWNLOAD" and "can_update os w a dm" and "aw_cancel w = (\<lambda>_ _. False)"
    and "list_all (no_longer_file os (aw_network w) (dm_package_cache dm) a d) (packages (next_version a))"
  shows "\<exists>path c. RanInstaller (app_guid a) path c \<in> set (run_effects os w a dm d)"
proof -
  obtain a1 dm1 d1 where dl: "App_Download_by os w a dm d = (a1, dm1, d1)" by (metis prod_cases3)
  note dlp = undisturbed_download [OF assms dl]
  define b where "b = App_QueueInstall (aw_env w) a1"
  have ib: "ident b = ident a" using dlp(2) by (simp add: b_def App_QueueInstall_ident)
  have sb: "app_state b = STATE_WAITING_TO_INSTALL" using dlp(1) by (simp add: b_def App_QueueInstall_def app_simps)
  have k: "package_key b p = package_key a1 p" for p by (rule package_key_ident) (simp add: ib dlp(2))
  have n: "next_version b = next_version a1" "app_guid b = app_guid a" using ib dlp(2) by (simp_all add: ident_def)
  have "can_update os w b dm" by (rule can_update_ident [OF ib assms(2)])
  then have "can_update os w b dm1" using dlp(3) by (simp add: can_update_def dm_view_def split: sum.splits)
  then have "\<exists>path c. RanInstaller (app_guid b) path c \<in> set (snd (snd (WaitingToInstall_Install_by os w dm1 b d1)))"
    by (rule undisturbed_install [OF _ assms(3)]) (use dlp(4) in \<open>simp add: IsPackageAvailable_def k n\<close>)
  moreover have "run_effects os w a dm d = snd (snd (WaitingToInstall_Install_by os w dm1 b d1))"
    using sb dl assms(3)
    by (simp add: download_and_install_def cancels_def interfere_def b_def [symmetric] App_Install_by_def split: prod.split)
  ultimately show ?thesis by (simp add: n(2))
qed


text \<open>An update of one app: the server offers a package, which is downloaded; its installer fails.\<close>

definition sample_persistent_data :: persistent_data where
  "sample_persistent_data = \<lparr>pd_is_eula_accepted = True, pd_version = [], pd_display_name = ''n'', pd_tt_token = [], pd_cohort = ([], [], [])\<rparr>"

definition update_bundle_env :: bundle_env where
  "update_bundle_env = sample_bundle_env\<lparr>be_ReadAppPersistentData := (\<lambda>_. Inr sample_persistent_data), be_GetRegisteredApps := Inr [''A'']\<rparr>"

definition failing_installer :: install_env where
  "failing_installer = good_installer\<lparr>ie_wait := (\<lambda>_. Exited 1), ie_priority := 10\<rparr>"

definition update_world :: app_world where
  "update_world = \<lparr>aw_env = sample_env, aw_network = sample_network, aw_install = failing_installer, aw_guid = Inr ''g'',
     aw_install_working_dir = ''W'', aw_cancel = (\<lambda>_ _. False)\<rparr>"

definition update_response :: Response where
  "update_response = sample_response\<lparr>resp_apps :=
     [\<lparr>ra_status = ''ok'', ra_appid = ''a'', ra_experiments = [], ra_cohort = [], ra_cohort_hint = [], ra_cohort_name = [],
       ra_update_check =
         \<lparr>uc_status = ''ok'', uc_tt_token = [], uc_error_url = [], uc_urls = [''u''],
          uc_install_manifest =
            \<lparr>im_name = ''m'', im_version = ''1.2'',
             im_packages = [\<lparr>ip_name = ''p'', ip_version = [], ip_is_required = True, ip_size = 3, hash_sha1 = [], hash_sha256 = abc_hash\<rparr>],
             install_actions = []\<rparr>\<rparr>,
       ra_data = [], ra_ping_status = [], ra_event_statuses = []\<rparr>]\<rparr>"

definition update_worker_env :: worker_env where
  "update_worker_env = \<lparr>wk_os = sample_os, wk_impersonate = (\<lambda>_. S_OK), wk_apps = (\<lambda>_. update_world), wk_can_use_network = True,
     wk_parse_offline_manifest = (E_FAIL, sample_response), wk_send = (\<lambda>_. (S_OK, update_response)), wk_empty_response = sample_response,
     wk_retry_after_sec = 0, wk_now_sec = 0, wk_uninstalled_apps = Inr [], wk_bundle_env = update_bundle_env\<rparr>"

definition update_start :: Worker_state where
  "update_start = \<lparr>ws_bundle = snd (AppBundle_updateAllApps update_bundle_env initialized_bundle), ws_manager = sample_manager,
     ws_disk = (\<lambda>_. None), ws_trace = []\<rparr>"

definition update_app :: App where
  "update_app = hd (ab_apps (ws_bundle update_start))"

definition queued_update :: App where
  "queued_update = queued_app_of update_worker_env 0 (checked_app update_worker_env update_start 0 update_app)"

lemma update_start_apps: "map app_guid (ab_apps (ws_bundle update_start)) = [''A'']"
  by code_simp

lemma queued_update_ident:
  "ident queued_update = (''A'',
     \<lparr>version = ''1.2'',
      install_manifest = Some \<lparr>im_name = ''m'', im_version = ''1.2'',
             im_packages = [\<lparr>ip_name = ''p'', ip_version = [], ip_is_required = True, ip_size = 3, hash_sha1 = [], hash_sha256 = abc_hash\<rparr>],
             install_actions = []\<rparr>,
      packages = [\<lparr>filename = ''p'', expected_size = 3, expected_hash = abc_hash\<rparr>], download_base_urls = [''u'']\<rparr>,
     TRISTATE_TRUE, True, True)"
  by code_simp

lemma queued_update_state: "app_state queued_update = STATE_WAITING_TO_DOWNLOAD"
  by code_simp

lemma sample_separate_app: "separate sample_os sample_network sample_cache a"
proof -
  have n: "\<exists>t. name = ''T'' @ t" if "BuildUniqueFileName sample_os sample_network s = Inr name" for s name
    using that by (auto simp: BuildUniqueFileName_def sample_network_def sample_os_def ConcatenatePath_def)
  have c: "\<exists>t. f = ''C:'' @ t" if "cache_file sample_os sample_cache a p = Inr f" for f p
    using that by (auto simp: BuildCacheFileNameForKey_def BuildCacheFileName_def sample_cache_def ConcatenatePath_def sample_os_def split: if_splits)
  have "\<not> in_target name f"
    if "cache_file sample_os sample_cache a p = Inr f" "BuildUniqueFileName sample_os sample_network s = Inr name" for p f s name
    using c [OF that(1)] n [OF that(2)] by (auto simp: in_target_def)
  moreover have "deletes_below sample_os" by (simp add: deletes_below_def sample_os_def)
  ultimately show ?thesis unfolding separate_def by (auto simp: sample_network_def)
qed

lemma queued_update_can: "can_update sample_os update_world queued_update sample_manager"
proof -
  have v: "packages (next_version queued_update) = [\<lparr>filename = ''p'', expected_size = 3, expected_hash = abc_hash\<rparr>]"
    "download_base_urls (next_version queued_update) = [''u'']" "app_guid queued_update = ''A''" "version (next_version queued_update) = ''1.2''"
    "is_eula_accepted queued_update = TRISTATE_TRUE" "has_manifest (next_version queued_update)"
    using queued_update_ident by (auto simp: ident_def has_manifest_def)
  have f: "cache_file sample_os sample_cache queued_update p = Inr (''C:'' @ CHR 0x5C # ''A'' @ CHR 0x5C # ''1.2'' @ CHR 0x5C # filename p)" if "filename p = ''p''" for p
    unfolding package_key_def v that by code_simp
  have w: "aw_network update_world = sample_network" "dm_package_cache sample_manager = sample_cache" by (simp_all add: update_world_def sample_manager_def)
  have d: "delivered sample_network \<lparr>filename = ''p'', expected_size = 3, expected_hash = abc_hash\<rparr> ''u'' \<noteq> None"
    by (simp add: delivered_def sample_network_def sha256_abc kMaxFileSizeForAuthentication_def)
  have o: "online sample_os sample_network queued_update" using sample_os_works v by (simp add: online_def sample_network_def)
  have n: "\<exists>name. BuildUniqueFileName sample_os sample_network ''p'' = Inr name"
    by (simp add: BuildUniqueFileName_def sample_network_def ConcatenatePath_def sample_os_def Let_def)
  have e: "SUCCEEDED (nw_create_request sample_network)" "dm_download_state sample_manager = []" "\<And>f t. SUCCEEDED (os_CopyFile sample_os f t)"
    "\<And>x. SUCCEEDED (ie_WritePreInstallData (aw_install update_world) x)" "aw_guid update_world = Inr ''g''"
    "ConcatenatePath sample_os (ConcatenatePath sample_os (aw_install_working_dir update_world) ''g'') ''p'' = ''W'' @ CHR 0x5C # ''g'' @ CHR 0x5C # ''p''"
    by (simp_all add: update_world_def sample_manager_def sample_network_def sample_os_def failing_installer_def good_installer_def ConcatenatePath_def
        hresult_defs)
  show ?thesis
    using o d n by (simp add: can_update_def w v e f downloadable_def sample_separate_app outside_cache_def)
qed

lemma queued_update_no_file:
  "list_all (no_longer_file sample_os (aw_network update_world) (dm_package_cache sample_manager) queued_update (\<lambda>_. None))
     (packages (next_version queued_update))"
  by (simp add: list_all_iff no_longer_file_new)


lemma UpdateAllApps_trace:
  assumes "SUCCEEDED (wk_impersonate wk 0)" "SUCCEEDED (wk_impersonate wk 1)" "\<not> bundle_is_offline (ws_bundle s)" "ab_apps (ws_bundle s) = [a]"
    "wk_uninstalled_apps wk = Inr []"
  shows "set (run_effects (wk_os wk) (wk_apps wk 0) (queued_app_of wk 0 (checked_app wk s 0 a)) (ws_manager s)
      (ws_disk (snd (CheckForUpdateHelper wk s)))) \<subseteq> set (ws_trace (Worker_UpdateAllApps wk s))"
proof -
  obtain ok s1 where h: "CheckForUpdateHelper wk s = (ok, s1)" by fastforce
  then have m: "ws_manager s1 = ws_manager s"
    using assms(1,3) by (auto simp: CheckForUpdateHelper_def pre_update_check_def DoPostUpdateCheck_def Let_def split: if_splits prod.splits option.splits)
  show ?thesis
    using CheckForUpdateHelper_apps(1) [OF h assms(1)] assms(2,4,5)
    by (auto simp: Worker_UpdateAllApps_def h m Let_def AddUninstalledAppsPings_def DownloadAndInstallHelper_def split: prod.split)
qed

lemma update_start_disk: "ws_disk (snd (CheckForUpdateHelper update_worker_env update_start)) = (\<lambda>_. None)"
  by (rule ext) code_simp

theorem update_runs_verified_installers_witness:
  "\<exists>path c. RanInstaller ''A'' path c \<in> set (ws_trace (Worker_UpdateAllApps update_worker_env update_start))
    \<and> (\<exists>bytes. c = Some bytes) \<and> permitted sample_env ''A'' True"
proof -
  have a: "ab_apps (ws_bundle update_start) = [update_app]" using update_start_apps by (auto simp: update_app_def)
  have k: "app_guid queued_update = ''A''" using queued_update_ident by (simp add: ident_def)
  have m: "ws_manager update_start = sample_manager" "ws_trace update_start = []" by (simp_all add: update_start_def)
  have o: "\<not> bundle_is_offline (ws_bundle update_start)" by code_simp
  have w: "wk_os update_worker_env = sample_os" "wk_apps update_worker_env 0 = update_world" "aw_env update_world = sample_env"
    by (simp_all add: update_worker_env_def update_world_def)
  have u: "AppBundle_updateAllApps update_bundle_env initialized_bundle = (S_OK, ws_bundle update_start)"
    by (simp add: update_start_def prod_eq_iff) code_simp
  have i: "is_update update_app" by code_simp
  have imp: "SUCCEEDED (wk_impersonate update_worker_env 0)" "SUCCEEDED (wk_impersonate update_worker_env 1)"
    "wk_uninstalled_apps update_worker_env = Inr []" by (simp_all add: update_worker_env_def hresult_defs)
  from UpdateAllApps_trace [OF imp(1,2) o a imp(3)] have
    d: "set (run_effects sample_os update_world queued_update sample_manager (\<lambda>_. None)) \<subseteq> set (ws_trace (Worker_UpdateAllApps update_worker_env update_start))"
    unfolding m w queued_update_def update_start_disk .
  have "aw_cancel update_world = (\<lambda>_ _. False)" by (simp add: update_world_def)
  from undisturbed_runs [OF queued_update_state queued_update_can this queued_update_no_file] obtain path c where
    "RanInstaller ''A'' path c \<in> set (run_effects sample_os update_world queued_update sample_manager (\<lambda>_. None))" unfolding k by blast
  with d have t: "RanInstaller ''A'' path c \<in> set (ws_trace (Worker_UpdateAllApps update_worker_env update_start))" by (rule subsetD)
  have "SUCCEEDED S_OK" by (simp add: hresult_defs)
  from update_runs_verified_installers [OF u this t] obtain j where
    j: "j < length (ab_apps (ws_bundle update_start))" "permitted (aw_env (wk_apps update_worker_env j)) ''A'' (is_update (ab_apps (ws_bundle update_start) ! j))"
    "\<exists>bytes. c = Some bytes" unfolding m list.set by blast
  from j(1) have "j = 0" by (simp add: a)
  with j(2,3) t i show ?thesis unfolding a by (auto simp only: w nth_Cons_0)
qed

section \<open>What the worker asserts of the apps\<close>

lemma finish_install_error:
  "finish_install env iv cur cmd h info a = (hr, a', fx) \<Longrightarrow> app_state a = STATE_ERROR \<Longrightarrow> app_state a' = STATE_ERROR"
  by (auto simp: finish_install_def report_install_def check_registration_def ReadInstallerRegistrationValues_def Let_def App_Error_def
      App_ReportInstallerComplete_def invalid_transition split: prod.splits if_splits option.splits)

lemma finish_install_final:
  "finish_install env iv cur cmd h info a = (hr, a', fx) \<Longrightarrow> app_state a = STATE_INSTALLING \<Longrightarrow> app_state a' \<in> {STATE_INSTALL_COMPLETE, STATE_ERROR}"
  using check_registration_view(1) [of iv cur "ic_expected_version cmd" a]
  by (auto simp: finish_install_def report_install_def Let_def report_complete report_error Populate_simps
      split: prod.splits if_splits)

lemma prepare_install_error:
  "prepare_install os env iv dir a = (r, a') \<Longrightarrow> app_state a = STATE_ERROR \<Longrightarrow> app_state a' = STATE_ERROR"
  by (auto simp: prepare_install_def Let_def App_Installing_def invalid_transition App_Error_def add_effect_def
      split: list.splits option.splits if_splits)

lemma interfere_states: "app_state (interfere env sched k a) = app_state a \<or> app_state (interfere env sched k a) = STATE_ERROR"
  using cancel_states by (simp add: interfere_def)

lemma InstallApp_error:
  assumes "InstallApp os env iv sched cur n a dir = (hr, a', fx)" and "app_state (interfere env sched 0 a) = STATE_ERROR"
  shows "app_state a' = STATE_ERROR"
proof -
  have s: "app_state (SetCurrentTimeAs env t b) = app_state b" for t b by (simp add: SetCurrentTimeAs_def)
  have "app_state (interfere env sched 1 b) = STATE_ERROR" if "app_state b = STATE_ERROR" for b
    using that interfere_states [of env sched 1 b] by auto
  with assms s show ?thesis
    by (auto simp: InstallApp_def Let_def split: prod.splits sum.splits dest!: prepare_install_error [OF _ assms(2)] dest: finish_install_error)
qed

lemma InstallApp_final:
  assumes "InstallApp os env iv sched cur n a dir = (hr, a', fx)" and "has_manifest (next_version a)"
    and "app_state a \<in> {STATE_WAITING_TO_INSTALL, STATE_ERROR}"
  shows "app_state a' \<in> {STATE_INSTALL_COMPLETE, STATE_ERROR}"
proof (cases "app_state (interfere env sched 0 a) = STATE_ERROR")
  case True
  from InstallApp_error [OF assms(1) True] show ?thesis by simp
next
  case False
  with assms(3) interfere_states [of env sched 0 a] have w: "app_state (interfere env sched 0 a) = STATE_WAITING_TO_INSTALL" by auto
  have m: "install_manifest (next_version (interfere env sched 0 a)) \<noteq> None"
    using assms(2) by (auto simp: interfere_def cancel_keeps has_manifest_def split: option.splits)
  obtain p a1 where p: "prepare_install os env iv dir (interfere env sched 0 a) = (p, a1)" by fastforce
  show ?thesis
  proof (cases p)
    case (Inl e)
    with prepare_install_fails(2) [OF p [unfolded Inl] w m] assms(1) p show ?thesis by (simp add: InstallApp_def)
  next
    case (Inr cmd)
    have "app_state (SetCurrentTimeAs env t b) = app_state b" for t b by (simp add: SetCurrentTimeAs_def)
    with prepare_install_ok(1) [OF p [unfolded Inr] w] assms(1) p Inr show ?thesis
      by (auto simp: InstallApp_def Let_def interfere_installing split: prod.splits dest!: finish_install_final)
  qed
qed

lemma InstallManager_final:
  assumes "InstallManager_InstallApp os env iv sched a dir = (hr, a', fx)" and "has_manifest (next_version a)"
    and "app_state a \<in> {STATE_WAITING_TO_INSTALL, STATE_ERROR}"
  shows "app_state a' \<in> {STATE_INSTALL_COMPLETE, STATE_ERROR}"
proof -
  let ?n = "if ie_priority iv < INSTALL_PRIORITY_HIGH then kNumMsiAlreadyRunningSilentMaxTries
      else kNumMsiAlreadyRunningInteractiveMaxTries"
  obtain h b fx' where r: "InstallApp os env iv sched (current_version a) ?n a dir = (h, b, fx')" by (metis prod_cases3)
  with assms(1) have "app_state a' = app_state b" by (auto simp: InstallManager_InstallApp_def LogTextAppend_def Let_def)
  with InstallApp_final [OF r assms(2-3)] show ?thesis by simp
qed

definition ready_for_install :: "App \<Rightarrow> bool" where
  "ready_for_install a \<longleftrightarrow> app_state a \<in> {STATE_NO_UPDATE, STATE_ERROR} \<or>
     app_state a \<in> {STATE_WAITING_TO_DOWNLOAD, STATE_WAITING_TO_INSTALL} \<and> has_manifest (next_version a)"

lemma App_Install_by_final:
  assumes "App_Install_by os w dm a d = (a', d', fx)" 
    and "app_state a \<in> {STATE_NO_UPDATE, STATE_ERROR} \<or> app_state a = STATE_WAITING_TO_INSTALL \<and> has_manifest (next_version a)"
  shows "app_state a' \<in> {STATE_INSTALL_COMPLETE, STATE_NO_UPDATE, STATE_ERROR}"
proof (cases "app_state a = STATE_WAITING_TO_INSTALL")
  case True
  have m: "has_manifest (next_version (cancels w 3 0 a))" using True assms(2) by (simp add: cancels_def interfere_def cancel_keeps)
  have s: "app_state (cancels w 3 0 a) \<in> {STATE_WAITING_TO_INSTALL, STATE_ERROR}" using True cancels_states [of w 3 0 a] by auto
  note f = InstallManager_final [OF _ m s]
  from True assms(1) show ?thesis
    by (auto simp: App_Install_by_def WaitingToInstall_Install_by_def Let_def app_simps split: sum.splits prod.splits if_splits dest!: f)
next
  case False
  with assms(1,2) show ?thesis by (auto simp: App_Install_by_def)
qed

lemma App_Download_by_states:
  assumes "App_Download_by os w a dm d = (a', dm', d')"
  shows "app_state a = STATE_WAITING_TO_DOWNLOAD \<Longrightarrow> SUCCEEDED (nw_create_request (aw_network w)) \<Longrightarrow>
      app_state a' \<in> {STATE_READY_TO_INSTALL, STATE_ERROR}"
    and "app_state a = STATE_WAITING_TO_DOWNLOAD \<Longrightarrow> FAILED (nw_create_request (aw_network w)) \<Longrightarrow> app_state a' = STATE_WAITING_TO_DOWNLOAD"
    and "app_state a \<in> {STATE_WAITING_TO_INSTALL, STATE_NO_UPDATE, STATE_ERROR} \<Longrightarrow> a' = a"
proof -
  obtain hr b dm2 d2 where dl: "DownloadApp os (aw_network w) (aw_env w) (aw_cancel w 1) a dm d = (hr, b, dm2, d2)" by (metis prod_cases4)
  have l: "app_state (LogTextAppend x b) = app_state b" for x by (simp add: LogTextAppend_def)
  show "app_state a' \<in> {STATE_READY_TO_INSTALL, STATE_ERROR}"
    if "app_state a = STATE_WAITING_TO_DOWNLOAD" "SUCCEEDED (nw_create_request (aw_network w))"
    using DownloadApp_state [OF that dl] that assms dl l
    by (auto simp: App_Download_by_def App_Download_def WaitingToDownload_Download_def split: if_splits)
  show "app_state a' = STATE_WAITING_TO_DOWNLOAD" if "app_state a = STATE_WAITING_TO_DOWNLOAD" "FAILED (nw_create_request (aw_network w))"
    using that assms dl l
    by (auto simp: App_Download_by_def App_Download_def WaitingToDownload_Download_def DownloadApp_def CreateStateForApp_def LogTextAppend_def)
qed (use assms in \<open>auto simp: App_Download_by_def App_Download_def\<close>)

lemma download_and_install_final:
  assumes "download_and_install os w a dm d = (a', dm', d', fx)" and "ready_for_install a"
  shows "app_state a' \<in> {STATE_INSTALL_COMPLETE, STATE_NO_UPDATE, STATE_ERROR}"
proof -
  obtain a1 dm1 d1 where dl: "App_Download_by os w (cancels w 0 0 a) dm d = (a1, dm1, d1)" by (metis prod_cases3)
  define b where "b = App_QueueInstall (aw_env w) (cancels w 2 0 a1)"
  have i: "ident (cancels w 2 1 b) = ident a" using App_Download_by_ident [OF dl] by (simp add: b_def cancels_ident App_QueueInstall_ident)
  have "app_state (cancels w 2 1 b) \<in> {STATE_NO_UPDATE, STATE_ERROR} \<or>
    app_state (cancels w 2 1 b) = STATE_WAITING_TO_INSTALL \<and> has_manifest (next_version (cancels w 2 1 b))"
  proof (cases "app_state a \<in> {STATE_NO_UPDATE, STATE_ERROR}")
    case True
    then have "app_state (cancels w 0 0 a) \<in> {STATE_NO_UPDATE, STATE_ERROR}" using cancels_states [of w 0 0 a] by auto
    with App_Download_by_states(3) [OF dl] have "app_state a1 \<in> {STATE_NO_UPDATE, STATE_ERROR}" by auto
    then have "app_state b \<in> {STATE_NO_UPDATE, STATE_ERROR}" using cancels_states [of w 2 0 a1] by (auto simp: b_def App_QueueInstall_def)
    then show ?thesis using cancels_states [of w 2 1 b] by auto
  next
    case False
    then have m: "has_manifest (next_version (cancels w 2 1 b))" using assms(2) i by (simp add: ready_for_install_def ident_def)
    have "app_state a1 \<in> {STATE_WAITING_TO_DOWNLOAD, STATE_READY_TO_INSTALL, STATE_WAITING_TO_INSTALL, STATE_NO_UPDATE, STATE_ERROR}"
      using assms(2) App_Download_by_states [OF dl] cancels_states [of w 0 0 a]
      by (cases "SUCCEEDED (nw_create_request (aw_network w))") (auto simp: ready_for_install_def)
    then have "app_state b \<in> {STATE_WAITING_TO_INSTALL, STATE_NO_UPDATE, STATE_ERROR}"
      using cancels_states [of w 2 0 a1] by (auto simp: b_def App_QueueInstall_def invalid_transition app_simps)
    then show ?thesis using cancels_states [of w 2 1 b] m by auto
  qed
  moreover have "App_Install_by os w dm1 (cancels w 2 1 b) d1 = (a', d', fx)" 
    using assms(1) dl by (auto simp: download_and_install_def b_def split: prod.splits)
  ultimately show ?thesis using App_Install_by_final by blast
qed

lemma install_loop_final:
  assumes "install_loop os ws i as dm d = (as', dm', d', fx)" and "list_all ready_for_install as"
  shows "list_all (\<lambda>a. app_state a \<in> {STATE_INSTALL_COMPLETE, STATE_NO_UPDATE, STATE_ERROR}) as'"
  using assms
proof (induction as arbitrary: i dm d as' dm' d' fx)
  case (Cons a as)
  obtain a1 dm1 d1 fx1 where one: "download_and_install os (ws i) a dm d = (a1, dm1, d1, fx1)" by (metis prod_cases4)
  obtain as1 dm2 d2 fx2 where rest: "install_loop os ws (Suc i) as dm1 d1 = (as1, dm2, d2, fx2)" by (metis prod_cases4)
  from Cons.IH [OF rest] download_and_install_final [OF one] Cons.prems one rest show ?case by auto
qed simp

lemma PostUpdateCheck_manifest:
  assumes "app_state (App_PostUpdateCheck env hr response a) = STATE_UPDATE_AVAILABLE"
  shows "has_manifest (next_version (App_PostUpdateCheck env hr response a))"
proof -
  have s: "app_state a = STATE_CHECKING_FOR_UPDATE"
    using assms by (auto simp: App_PostUpdateCheck_def invalid_transition split: CurrentState.splits)
  then have p: "App_PostUpdateCheck env hr response a = CheckingForUpdate_PostUpdateCheck env hr response a"
    by (simp add: App_PostUpdateCheck_def)
  have av: "has_manifest (next_version (HandleUpdateAvailable env response S_OK b))"
    if "app_state (HandleUpdateAvailable env response S_OK b) = STATE_UPDATE_AVAILABLE" for b
  proof -
    obtain h c where b: "BuildApp response S_OK (b\<lparr>has_update_available := True\<rparr>) = (h, c)" by fastforce
    with that have "SUCCEEDED h" by (auto simp: HandleUpdateAvailable_def app_simps split: if_splits)
    with BuildApp_manifest [OF b this] b show ?thesis
      by (auto simp: HandleUpdateAvailable_def Let_def app_simps hresult_defs has_manifest_def)
  qed
  show ?thesis
  proof (cases rule: PostUpdateCheck_cases [of hr env response a])
    case (available ra)
    with assms av show ?thesis by (simp add: p)
  qed (use assms in \<open>simp_all add: p app_simps HandleUpdateDeferred_def HandleNoUpdate_def HandleErrorResponse_def Let_def split: if_splits\<close>)
qed

lemma queued_ready:
  assumes "app_state a \<in> {STATE_UPDATE_AVAILABLE, STATE_NO_UPDATE, STATE_ERROR}"
    and "app_state a = STATE_UPDATE_AVAILABLE \<Longrightarrow> has_manifest (next_version a)"
  shows "ready_for_install (queued_app_of wk i a)"
proof -
  define b where "b = cancels (wk_apps wk i) 5 2 a"
  have b: "app_state b \<in> {STATE_UPDATE_AVAILABLE, STATE_NO_UPDATE, STATE_ERROR}"
    using assms(1) cancels_states [of "wk_apps wk i" 5 2 a] by (auto simp: b_def)
  have m: "app_state b = STATE_UPDATE_AVAILABLE \<Longrightarrow> has_manifest (next_version b)"
    using assms(2) cancels_states [of "wk_apps wk i" 5 2 a] by (auto simp: b_def cancels_def interfere_def cancel_keeps)
  from b m show ?thesis
    unfolding b_def [symmetric]
    by (auto simp: ready_for_install_def App_QueueDownloadOrInstall_def UpdateAvailable_QueueDownload_def HandleGroupPolicyError_def app_simps split: if_splits)
qed

lemma completed_apps [simp]: "ab_apps (ws_bundle (Worker.complete s)) = ab_apps (ws_bundle s)"
  "\<not> is_pending_non_blocking_call (ws_bundle (Worker.complete s))"
  by (auto simp: Worker.complete_def CompleteAsyncCall_def State_CompleteAsyncCall_def Bundle_HandleInvalidStateTransition_def
      Bundle_ChangeState_def is_pending_non_blocking_call_def split: AppBundleState.split)

lemma DownloadAndInstallHelper_final:
  assumes "list_all ready_for_install (ab_apps (ws_bundle s))"
  shows "list_all (\<lambda>a. app_state a \<in> {STATE_NO_UPDATE, STATE_ERROR}
        \<union> (if SUCCEEDED (wk_impersonate wk 1) then {STATE_INSTALL_COMPLETE} else {STATE_WAITING_TO_DOWNLOAD, STATE_WAITING_TO_INSTALL}))
      (ab_apps (ws_bundle (DownloadAndInstallHelper wk s)))"
proof (cases "SUCCEEDED (wk_impersonate wk 1)")
  case True
  obtain as dm d fx where l: "install_loop (wk_os wk) (wk_apps wk) 0 (ab_apps (ws_bundle s)) (ws_manager s) (ws_disk s) = (as, dm, d, fx)"
    by (metis prod_cases4)
  from install_loop_final [OF this assms] True l show ?thesis by (auto simp: DownloadAndInstallHelper_def list_all_iff)
next
  case False
  with assms show ?thesis by (auto simp: DownloadAndInstallHelper_def list_all_iff ready_for_install_def)
qed

lemma checked_apps_ready:
  assumes "CheckForUpdateHelper wk s = (ok, s1)" and "list_all fresh_app (ab_apps (ws_bundle s))" and "i < length (ab_apps (ws_bundle s1))"
  shows "ready_for_install (queued_app_of wk i (ab_apps (ws_bundle s1) ! i))"
proof (cases "SUCCEEDED (wk_impersonate wk 0)")
  case True
  from CheckForUpdateHelper_apps(1) [OF assms(1) True] assms(3)
  have "ab_apps (ws_bundle s1) ! i = checked_app wk s i (ab_apps (ws_bundle s) ! i)" by simp
  with checked_app_states [of wk s i] PostUpdateCheck_manifest show ?thesis
    by (auto intro!: queued_ready simp: checked_app_def)
next
  case False
  then have "ab_apps (ws_bundle s1) = ab_apps (ws_bundle s)" using assms(1) by (auto simp: CheckForUpdateHelper_def Let_def split: if_splits)
  with assms(2,3) queued_without_check show ?thesis by (simp add: list_all_length ready_for_install_def)
qed

text \<open>C7. An automatic update always comes to its end: after the client's call, when the worker has served the request, every app is installed,
  has no update or has failed, as the worker asserts at the end of its loop, and the bundle no longer has a pending request - whatever the
  servers sent, whatever the installers did and whenever apps were cancelled. Only if the worker cannot impersonate the caller for the
  downloads, the apps that are to be updated stay in their queues, although the request is over.\<close>

theorem update_ends:
  assumes "AppBundle_updateAllApps be b = (hr, ws_bundle s)" and "SUCCEEDED hr"
  shows "list_all (\<lambda>a. app_state a \<in> {STATE_NO_UPDATE, STATE_ERROR}
        \<union> (if SUCCEEDED (wk_impersonate wk 1) then {STATE_INSTALL_COMPLETE} else {STATE_WAITING_TO_DOWNLOAD, STATE_WAITING_TO_INSTALL}))
      (ab_apps (ws_bundle (Worker_UpdateAllApps wk s)))
    \<and> \<not> is_pending_non_blocking_call (ws_bundle (Worker_UpdateAllApps wk s))"
proof -
  obtain ok s1 where h: "CheckForUpdateHelper wk s = (ok, s1)" by fastforce
  define s3 where "s3 = snd (AddUninstalledAppsPings wk (with_apps (mapi (queued_app_of wk) 0
     (ab_apps (ws_bundle s1))) (if ok then traced [UpdateLastChecked] s1 else s1)))"
  have "list_all ready_for_install (ab_apps (ws_bundle s3))"
    using checked_apps_ready [OF h updateAllApps_fresh [OF assms(1,2)]] by (simp add: s3_def list_all_length)
  note f = DownloadAndInstallHelper_final [OF this, of wk]
  have "Worker_UpdateAllApps wk s = Worker.complete (DownloadAndInstallHelper wk s3)"
    by (simp add: Worker_UpdateAllApps_def h s3_def Let_def)
  with f show ?thesis by simp
qed

text \<open>C18. A request is completed exactly if its handler gets to its end: the handlers of an update check, an install and an automatic update always
  complete the request, but a download whose impersonation of the caller fails returns without doing so, and the bundle stays
  busy for ever, with nothing left to serve.\<close>

theorem completion_of_requests:
  assumes "is_pending_non_blocking_call (ws_bundle s)"
  shows "\<not> is_pending_non_blocking_call (ws_bundle (Worker_CheckForUpdate wk s))
    \<and> \<not> is_pending_non_blocking_call (ws_bundle (Worker_DownloadAndInstall wk s))
    \<and> (is_pending_non_blocking_call (ws_bundle (Worker_Download wk s)) \<longleftrightarrow> FAILED (wk_impersonate wk 0))
    \<and> (is_pending_non_blocking_call (ws_bundle (Worker_DownloadPackage wk s)) \<longleftrightarrow> FAILED (wk_impersonate wk 0))"
  using assms
  by (simp add: Worker_CheckForUpdate_def Worker_DownloadAndInstall_def Worker_Download_def Worker_DownloadPackage_def split: prod.split)

text \<open>The download of an app whose network request cannot be created leaves the app waiting, which the worker asserts it never does.\<close>

lemma download_left_waiting:
  assumes "app_state a = STATE_WAITING_TO_DOWNLOAD" and "FAILED (nw_create_request (aw_network w))"
  shows "app_state (fst (App_Download_by os w a dm d)) = STATE_WAITING_TO_DOWNLOAD"
  using App_Download_by_states(2) assms by (metis prod.collapse)

section \<open>The time to retry\<close>

text \<open>C19. A server can hold a client back for the time it asks for and never for more than a day: while the 32-bit clock does not wrap, after a
  delay was stored the client may check again exactly when the delay is over, and whatever value is in the registry, a client is
  held back only if the stored time is in the future and at most a day ahead.\<close>

theorem retry_after_window:
  assumes "unat now + 86400 < 2 ^ 32"
  shows "(\<not> CanRetryNow now v \<longleftrightarrow> unat now < unat v \<and> unat v \<le> unat now + 86400)
    \<and> (PersistRetryAfter t r = Some v \<longrightarrow> unat r \<le> 86400 \<longrightarrow> unat t \<le> unat now \<longrightarrow>
         (CanRetryNow now v \<longleftrightarrow> unat t + unat r \<le> unat now))"
proof -
  have k: "unat (now + kSecondsPerDay) = unat now + 86400"
    using assms by (subst unat_plus_if_size) (simp add: kSecondsPerDay_def word_size)
  have b: "\<not> CanRetryNow now v \<longleftrightarrow> unat now < unat v \<and> unat v \<le> unat now + 86400"
    by (auto simp: CanRetryNow_def word_le_nat_alt word_less_nat_alt k)
  have "unat v = unat t + unat r" if "PersistRetryAfter t r = Some v" "unat r \<le> 86400" "unat t \<le> unat now"
  proof -
    have "unat (t + r) = unat t + unat r" using that(2,3) assms by (subst unat_plus_if_size) (simp add: word_size)
    with that(1) show ?thesis by (auto simp: PersistRetryAfter_def split: if_splits)
  qed
  with b show ?thesis by force
qed

theorem retry_after_window_witness:
  "PersistRetryAfter 1000 60 = Some 1060 \<and> \<not> CanRetryNow 1059 1060 \<and> CanRetryNow 1060 1060"
proof -
  have "unat (1059 :: 32 word) = 1059" "unat (1060 :: 32 word) = 1060" "unat (1000 :: 32 word) = 1000" "unat (60 :: 32 word) = 60" by simp_all
  with retry_after_window [of 1059 1060 1000 60] retry_after_window [of 1060 1060 1000 60] show ?thesis
    by (simp add: PersistRetryAfter_def)
qed

theorem update_ends_witness:
  "list_all (\<lambda>a. app_state a \<in> {STATE_INSTALL_COMPLETE, STATE_NO_UPDATE, STATE_ERROR})
      (ab_apps (ws_bundle (Worker_UpdateAllApps update_worker_env update_start)))"
proof -
  have u: "AppBundle_updateAllApps update_bundle_env initialized_bundle = (S_OK, ws_bundle update_start)"
    by (simp add: update_start_def prod_eq_iff) code_simp
  have i: "SUCCEEDED (wk_impersonate update_worker_env 1)" by (simp add: update_worker_env_def)
  from update_ends [OF u SUCCEEDED_S_OK, of update_worker_env] i show ?thesis by (auto simp: list_all_iff)
qed

theorem completion_of_requests_witness:
  "is_pending_non_blocking_call (ws_bundle (Worker_Download (update_worker_env\<lparr>wk_impersonate := (\<lambda>_. E_FAIL)\<rparr>) update_start))"
proof -
  have p: "is_pending_non_blocking_call (ws_bundle update_start)" by code_simp
  have "FAILED (wk_impersonate (update_worker_env\<lparr>wk_impersonate := (\<lambda>_. E_FAIL)\<rparr>) 0)" by (simp add: hresult_defs)
  with completion_of_requests [OF p] show ?thesis by blast
qed

section \<open>The calls of the app states\<close>

text \<open>Without a cancellation, the installation is the call of the state of the app with the operations of this install manager.\<close>

lemma App_Install_by_eq:
  assumes "aw_cancel w = (\<lambda>_ _. False)"
  shows "fst (App_Install_by os w dm a d) = App_Install (aw_env w)
    \<lparr>get_guid = map_sum id (ConcatenatePath os (aw_install_working_dir w)) (aw_guid w),
     copy_packages = (\<lambda>_ dir. fst (CopyAppVersionPackages os dm a dir d)),
     install_app = (\<lambda>a dir. fst (snd (InstallManager_InstallApp os (aw_env w) (aw_install w) (aw_cancel w 4) a dir)))\<rparr> a"
  using assms
  by (auto simp: App_Install_by_def App_Install_def WaitingToInstall_Install_by_def WaitingToInstall_Install_def Let_def cancels_def interfere_def
      split: CurrentState.split sum.split prod.split)

end
